(* ===== verification/MoM_Prelude.thy ===== *)
theory MoM_Prelude
  imports Main "HOL-Library.Word"
begin

text \<open>
  Shared vocabulary of the development: the machine types of the C sources, byte-order
  codecs, buffer copies, the splitting of a byte string into blocks, and the generic
  lemmas on lists and words that the component theories rely on.
\<close>

unbundle bit_operations_syntax

type_synonym byte = "8 word"
type_synonym u32 = "32 word"
type_synonym u64 = "64 word"
type_synonym bytes = "byte list"

named_theorems buf_simps \<open>rewriting of buffer copies\<close>
named_theorems enc_simps \<open>lengths and round trips of byte-order codecs\<close>

section \<open>Buffers\<close>

text \<open>
  \<open>memcpy_at dst off src\<close> is the content of the array \<open>dst\<close> after copying the whole of
  \<open>src\<close> to \<open>dst + off\<close>; bytes outside the copied range keep their value.
\<close>

definition memcpy_at :: "'a list \<Rightarrow> nat \<Rightarrow> 'a list \<Rightarrow> 'a list" where
  "memcpy_at dst off src = take off dst @ src @ drop (off + length src) dst"

lemma length_memcpy_at [simp, buf_simps]:
  "off + length src \<le> length dst \<Longrightarrow> length (memcpy_at dst off src) = length dst"
  by (simp add: memcpy_at_def)

lemma memcpy_at_adjacent:
  assumes "i \<le> length u" and "j = i + length x"
  shows "memcpy_at (memcpy_at u i x) j y = memcpy_at u i (x @ y)"
  using assms by (simp add: memcpy_at_def) (simp add: add.commute add.left_commute)

lemma take_memcpy_at [buf_simps]:
  "off \<le> length dst \<Longrightarrow> take (off + length src) (memcpy_at dst off src) = take off dst @ src"
  by (simp add: memcpy_at_def)

lemma take_memcpy_at_le [buf_simps]:
  "n \<le> off \<Longrightarrow> off \<le> length dst \<Longrightarrow> take n (memcpy_at dst off src) = take n dst"
  by (simp add: memcpy_at_def min_def)

lemma drop_memcpy_at [buf_simps]:
  "off \<le> length dst \<Longrightarrow> drop (off + length src) (memcpy_at dst off src) = drop (off + length src) dst"
  by (simp add: memcpy_at_def)

lemma memcpy_at_nil [simp, buf_simps]: "memcpy_at dst off [] = dst"
  by (simp add: memcpy_at_def)

lemma memcpy_at_full [buf_simps]:
  "off + length src = length dst \<Longrightarrow> memcpy_at dst off src = take off dst @ src"
  by (simp add: memcpy_at_def)

lemma memcpy_at_consecutive:
  assumes "off + length xs = off'" and "off \<le> length dst"
  shows "memcpy_at (memcpy_at dst off xs) off' ys = take off dst @ xs @ ys @ drop (off' + length ys) dst"
  using assms by (auto simp: memcpy_at_def min_def add.commute)

lemma memcpy_at_zero [buf_simps]: "memcpy_at dst 0 src = src @ drop (length src) dst"
  by (simp add: memcpy_at_def)

section \<open>Blocks of a byte string\<close>

text \<open>
  \<open>absorb_blocks B f s xs\<close> runs the block function \<open>f\<close> over the complete \<open>B\<close>-byte blocks at
  the front of \<open>xs\<close> and returns the chaining value with the unprocessed tail. It is the
  abstract meaning of every eager block buffer of the sources.
\<close>

function absorb_blocks ::
  "nat \<Rightarrow> ('s \<Rightarrow> 'a list \<Rightarrow> 's) \<Rightarrow> 's \<Rightarrow> 'a list \<Rightarrow> 's \<times> 'a list" where
  "absorb_blocks B f s xs =
     (if B = 0 \<or> length xs < B then (s, xs)
      else absorb_blocks B f (f s (take B xs)) (drop B xs))"
  by pat_completeness auto
termination
  by (relation "measure (\<lambda>(B, f, s, xs). length xs)") auto

declare absorb_blocks.simps [simp del]

lemma absorb_blocks_short [simp]: "length xs < B \<Longrightarrow> absorb_blocks B f s xs = (s, xs)"
  by (simp add: absorb_blocks.simps)

lemma absorb_blocks_step:
  "0 < B \<Longrightarrow> length x = B \<Longrightarrow> absorb_blocks B f s (x @ xs) = absorb_blocks B f (f s x) xs"
  by (subst absorb_blocks.simps) simp

lemma absorb_blocks_tail_length: "0 < B \<Longrightarrow> length (snd (absorb_blocks B f s xs)) < B"
proof (induction B f s xs rule: absorb_blocks.induct)
  case (1 B f s xs)
  show ?case
  proof (cases "length xs < B")
    case False
    with "1.prems" "1.IH" show ?thesis by (simp add: absorb_blocks.simps [of B f s xs])
  qed simp
qed

lemma whole_blocks_step:
  assumes "0 < B" and "\<not> n < (B::nat)"
  shows "n - n mod B = B + (n - B - (n - B) mod B)"
proof -
  have "n mod B = (n - B) mod B" using assms by (simp add: le_mod_geq)
  moreover have "(n - B) mod B \<le> n - B" by simp
  ultimately show ?thesis using assms by linarith
qed

lemma absorb_blocks_tail:
  "0 < B \<Longrightarrow> snd (absorb_blocks B f s xs) = drop (length xs - length xs mod B) xs"
proof (induction B f s xs rule: absorb_blocks.induct)
  case (1 B f s xs)
  show ?case
  proof (cases "length xs < B")
    case False
    then have "length xs - length xs mod B = B + (length xs - B - (length xs - B) mod B)"
      using "1.prems" by (rule whole_blocks_step [rotated])
    with False "1.prems" "1.IH" show ?thesis
      by (simp add: absorb_blocks.simps [of B f s xs] add.commute)
  qed simp
qed

lemma absorb_blocks_rest:
  "0 < B \<Longrightarrow> absorb_blocks B f s xs = (s', t) \<Longrightarrow> length t = length xs mod B"
  using absorb_blocks_tail [of B f s xs] by simp

lemma absorb_blocks_append:
  assumes "0 < B" and "absorb_blocks B f s xs = (s', t)"
  shows "absorb_blocks B f s (xs @ ys) = absorb_blocks B f s' (t @ ys)"
  using assms
proof (induction B f s xs arbitrary: s' t rule: absorb_blocks.induct)
  case (1 B f s xs)
  show ?case
  proof (cases "length xs < B")
    case True
    with "1.prems" show ?thesis by simp
  next
    case False
    with "1.prems" have "absorb_blocks B f (f s (take B xs)) (drop B xs) = (s', t)"
      by (simp add: absorb_blocks.simps [of B f s xs])
    with False "1.prems" "1.IH"
    have "absorb_blocks B f (f s (take B xs)) (drop B xs @ ys) = absorb_blocks B f s' (t @ ys)"
      by simp
    moreover have "absorb_blocks B f s (xs @ ys)
        = absorb_blocks B f (f s (take B xs)) (drop B xs @ ys)"
      using False "1.prems"(1) by (subst absorb_blocks.simps) simp
    ultimately show ?thesis by simp
  qed
qed

lemma absorb_blocks_inv:
  assumes "P s" and "\<And>s x. P s \<Longrightarrow> length x = B \<Longrightarrow> P (f s x)"
  shows "P (fst (absorb_blocks B f s xs))"
  using assms
proof (induction B f s xs rule: absorb_blocks.induct)
  case (1 B f s xs)
  then show ?case
    by (cases "B = 0 \<or> length xs < B") (auto simp: absorb_blocks.simps [of B f s xs])
qed

lemma absorb_blocks_cong_inv:
  assumes "P s" and "\<And>s x. P s \<Longrightarrow> length x = B \<Longrightarrow> f s x = g s x" and "\<And>s x. P s \<Longrightarrow> length x = B \<Longrightarrow> P (g s x)"
  shows "absorb_blocks B f s xs = absorb_blocks B g s xs"
  using assms
proof (induction B g s xs rule: absorb_blocks.induct)
  case (1 B g s xs)
  show ?case
  proof (cases "B = 0 \<or> length xs < B")
    case False
    then have "absorb_blocks B f (g s (take B xs)) (drop B xs) = absorb_blocks B g (g s (take B xs)) (drop B xs)"
      using 1 by auto
    then show ?thesis
      using False 1(2,3) by (simp add: absorb_blocks.simps [of B f s xs] absorb_blocks.simps [of B g s xs])
  qed (auto simp: absorb_blocks.simps [of B f s xs] absorb_blocks.simps [of B g s xs])
qed

lemma absorb_blocks_last:
  assumes "0 < B" and "absorb_blocks B f s m = (s', t)" and "length (t @ p) = B"
  shows "absorb_blocks B f s (m @ p) = (f s' (t @ p), [])"
  using absorb_blocks_append [OF assms(1,2), of p] absorb_blocks_step [OF assms(1,3), of f s' "[]"] assms(1) by simp

lemma absorb_blocks_cong:
  assumes "\<And>s x. length x = B \<Longrightarrow> f s x = g s x"
  shows "absorb_blocks B f s xs = absorb_blocks B g s xs"
  using assms
proof (induction B f s xs rule: absorb_blocks.induct)
  case (1 B f s xs)
  then show ?case
    by (cases "B = 0 \<or> length xs < B")
      (auto simp: absorb_blocks.simps [of B f s xs] absorb_blocks.simps [of B g s xs])
qed

lemma absorb_blocks_image:
  assumes "P s" and "\<And>s x. P s \<Longrightarrow> length x = B \<Longrightarrow> f (h s) x = h (g s x) \<and> P (g s x)"
  shows "absorb_blocks B f (h s) xs = apfst h (absorb_blocks B g s xs)"
  using assms
proof (induction B g s xs rule: absorb_blocks.induct)
  case (1 B g s xs)
  show ?case
  proof (cases "B = 0 \<or> length xs < B")
    case False
    then have "f (h s) (take B xs) = h (g s (take B xs))" "P (g s (take B xs))"
      using 1(2) 1(3) [of s "take B xs"] by auto
    then show ?thesis
      using False 1(1) 1(3) by (simp add: absorb_blocks.simps [of B f "h s" xs] absorb_blocks.simps [of B g s xs])
  qed (auto simp: absorb_blocks.simps [of B f "h s" xs] absorb_blocks.simps [of B g s xs])
qed

text \<open>
  The lazy variant keeps the last block, complete or not, in the buffer until more input
  arrives, because the final block is compressed with a flag of its own.
\<close>

function absorb_lazy ::
  "nat \<Rightarrow> ('s \<Rightarrow> 'a list \<Rightarrow> 's) \<Rightarrow> 's \<Rightarrow> 'a list \<Rightarrow> 's \<times> 'a list" where
  "absorb_lazy B f s xs =
     (if B = 0 \<or> length xs \<le> B then (s, xs)
      else absorb_lazy B f (f s (take B xs)) (drop B xs))"
  by pat_completeness auto
termination
  by (relation "measure (\<lambda>(B, f, s, xs). length xs)") auto

declare absorb_lazy.simps [simp del]

lemma absorb_lazy_short [simp]: "length xs \<le> B \<Longrightarrow> absorb_lazy B f s xs = (s, xs)"
  by (simp add: absorb_lazy.simps)

lemma absorb_lazy_step:
  "0 < B \<Longrightarrow> length x = B \<Longrightarrow> xs \<noteq> [] \<Longrightarrow>
   absorb_lazy B f s (x @ xs) = absorb_lazy B f (f s x) xs"
  by (subst absorb_lazy.simps) simp

lemma absorb_lazy_rest:
  assumes "0 < B" and "absorb_lazy B f s xs = (s', t)"
  shows "length t \<le> B \<and> (xs \<noteq> [] \<longrightarrow> t \<noteq> [])"
  using assms
proof (induction B f s xs arbitrary: s' t rule: absorb_lazy.induct)
  case (1 B f s xs)
  show ?case
  proof (cases "length xs \<le> B")
    case True
    with "1.prems" show ?thesis by simp
  next
    case False
    with "1.prems" have "absorb_lazy B f (f s (take B xs)) (drop B xs) = (s', t)"
      by (simp add: absorb_lazy.simps [of B f s xs])
    with False "1.prems"(1) "1.IH" [of s' t] show ?thesis by simp
  qed
qed

lemma absorb_lazy_append:
  assumes "0 < B" and "absorb_lazy B f s xs = (s', t)"
  shows "absorb_lazy B f s (xs @ ys) = absorb_lazy B f s' (t @ ys)"
  using assms
proof (induction B f s xs arbitrary: s' t rule: absorb_lazy.induct)
  case (1 B f s xs)
  show ?case
  proof (cases "length xs \<le> B")
    case True
    with "1.prems" show ?thesis by simp
  next
    case False
    with "1.prems" have "absorb_lazy B f (f s (take B xs)) (drop B xs) = (s', t)"
      by (simp add: absorb_lazy.simps [of B f s xs])
    with False "1.prems" "1.IH"
    have "absorb_lazy B f (f s (take B xs)) (drop B xs @ ys) = absorb_lazy B f s' (t @ ys)"
      by simp
    moreover have "absorb_lazy B f s (xs @ ys) = absorb_lazy B f (f s (take B xs)) (drop B xs @ ys)"
      using False "1.prems"(1) by (subst absorb_lazy.simps) simp
    ultimately show ?thesis by simp
  qed
qed

lemma absorb_lazy_inv:
  assumes "P s" and "\<And>s x. P s \<Longrightarrow> length x = B \<Longrightarrow> P (f s x)"
  shows "P (fst (absorb_lazy B f s xs))"
  using assms
proof (induction B f s xs rule: absorb_lazy.induct)
  case (1 B f s xs)
  then show ?case
    by (cases "B = 0 \<or> length xs \<le> B") (auto simp: absorb_lazy.simps [of B f s xs])
qed

section \<open>Byte order\<close>

text \<open>
  Reference little-endian codecs of any width: \<open>le_enc n w\<close> is the \<open>n\<close> low bytes of \<open>w\<close>,
  least significant first, and \<open>le_dec\<close> reads a byte string back. Every codec of the
  sources is related to them, so that the round trips are proved once.
\<close>

lemma ucast_and_ff [simp]: "(ucast (x AND 0xff :: 'a::len word) :: byte) = ucast x"
proof -
  have "x AND 0xff = take_bit 8 x"
    by (simp add: take_bit_eq_mask mask_eq_exp_minus_1)
  then show ?thesis
    by (auto simp: bit_eq_iff [where 'a = "8 word"] bit_simps simp del: bit_numeral_simps
        dest: bit_imp_le_length)
qed

fun le_dec :: "bytes \<Rightarrow> 'a::len word" where
  "le_dec [] = 0"
| "le_dec (b # bs) = ucast b OR push_bit 8 (le_dec bs)"

fun le_enc :: "nat \<Rightarrow> 'a::len word \<Rightarrow> bytes" where
  "le_enc 0 w = []"
| "le_enc (Suc n) w = ucast w # le_enc n (drop_bit 8 w)"

lemma length_le_enc [simp, enc_simps]: "length (le_enc n w) = n"
  by (induction n arbitrary: w) auto

lemma bit_le_dec: "bit (le_dec bs :: 'a::len word) n \<longleftrightarrow>
    n < LENGTH('a) \<and> n div 8 < length bs \<and> bit (bs ! (n div 8)) (n mod 8)"
proof (induction bs arbitrary: n)
  case (Cons b bs)
  show ?case
  proof (cases "n < 8")
    case True
    then show ?thesis by (auto simp: bit_simps)
  next
    case False
    then obtain m where "n = m + 8" by (metis not_less le_Suc_ex add.commute)
    moreover have "(m + 8) div 8 = Suc (m div 8)" by simp
    ultimately show ?thesis
      by (auto simp: bit_simps Cons.IH dest: bit_imp_le_length)
  qed
qed simp

lemma nth_le_enc: "i < n \<Longrightarrow> le_enc n w ! i = ucast (drop_bit (8 * i) w)"
proof (induction n arbitrary: w i)
  case (Suc n)
  then show ?case by (cases i) (auto simp: drop_bit_drop_bit add.commute)
qed simp

lemma le_dec_le_enc: "le_dec (le_enc n w) = take_bit (8 * n) (w :: 'a::len word)"
proof (rule bit_word_eqI)
  fix i assume i: "i < LENGTH('a)"
  show "bit (le_dec (le_enc n w) :: 'a word) i = bit (take_bit (8 * n) w) i"
    using i mult_div_mod_eq [of 8 i]
    by (auto simp: bit_le_dec bit_simps nth_le_enc)
qed

lemma take_bit_whole_word: "LENGTH('a) \<le> n \<Longrightarrow> take_bit n w = (w :: 'a::len word)"
  by (rule bit_word_eqI) (auto simp: bit_simps)

lemma le_enc_le_dec:
  assumes "8 * length bs \<le> LENGTH('a::len)"
  shows "le_enc (length bs) (le_dec bs :: 'a word) = bs"
proof (rule nth_equalityI)
  fix i assume "i < length (le_enc (length bs) (le_dec bs :: 'a word))"
  then have i: "i < length bs" by simp
  have "ucast (drop_bit (8 * i) (le_dec bs :: 'a word)) = bs ! i"
  proof (rule bit_word_eqI)
    fix k assume "k < LENGTH(8)"
    then have k: "k < 8" by simp
    then have "8 * i + k < LENGTH('a)" using i assms by linarith
    moreover have "(8 * i + k) div 8 = i" "(8 * i + k) mod 8 = k" using k by simp_all
    ultimately show "bit (ucast (drop_bit (8 * i) (le_dec bs :: 'a word)) :: byte) k = bit (bs ! i) k"
      using i k by (simp add: bit_simps bit_le_dec)
  qed
  with i show "le_enc (length bs) (le_dec bs :: 'a word) ! i = bs ! i"
    by (simp add: nth_le_enc)
qed simp

lemma le_enc_halves: "le_enc 8 (w :: u64) = le_enc 4 (ucast w :: u32) @ le_enc 4 (ucast (drop_bit 32 w) :: u32)"
proof (rule nth_equalityI)
  fix i assume "i < length (le_enc 8 w)"
  then have i: "i < 8" by simp
  have lo: "ucast (drop_bit (8 * i) w) = (ucast (drop_bit (8 * i) (ucast w :: u32)) :: byte)" if "i < 4"
    by (rule bit_word_eqI) (use that in \<open>auto simp: bit_simps\<close>)
  have hi: "ucast (drop_bit (8 * i) w) = (ucast (drop_bit (8 * (i - 4)) (ucast (drop_bit 32 w) :: u32)) :: byte)" if "4 \<le> i"
  proof (rule bit_word_eqI)
    fix k assume k: "k < LENGTH(8)"
    have "32 + (8 * (i - 4) + k) = 8 * i + k" using that by simp
    then show "bit (ucast (drop_bit (8 * i) w) :: byte) k =
        bit (ucast (drop_bit (8 * (i - 4)) (ucast (drop_bit 32 w) :: u32)) :: byte) k"
      using k i that by (simp add: bit_simps add.assoc [symmetric])
  qed
  show "le_enc 8 w ! i = (le_enc 4 (ucast w :: u32) @ le_enc 4 (ucast (drop_bit 32 w) :: u32)) ! i"
    using i lo hi by (cases "i < 4") (simp_all add: nth_le_enc nth_append)
qed simp

lemma ucast_add_push_bit_8:
  "ucast (b :: byte) + push_bit 8 (v :: 'a::len word) = ucast b OR push_bit 8 v"
  by (rule disjunctive_add_eq_or, rule bit_word_eqI) (auto simp: bit_simps dest: bit_imp_le_length)

lemma le_dec_horner: "le_dec (b # bs) = ucast b + push_bit 8 (le_dec bs)"
  by (simp add: ucast_add_push_bit_8)


text \<open>
  The codecs of \<^verbatim>\<open>xmrig/crypto/randomx/panthera/sysendian.h\<close>; an encoder returns the bytes
  it writes, in address order, and a decoder reads from the front of its argument.
\<close>

definition be32dec :: "bytes \<Rightarrow> u32" where
  "be32dec p = ucast (p ! 3) + push_bit 8 (ucast (p ! 2)) +
     push_bit 16 (ucast (p ! 1)) + push_bit 24 (ucast (p ! 0))"

definition be32enc :: "u32 \<Rightarrow> bytes" where
  "be32enc x = [ucast (drop_bit 24 x AND 0xff), ucast (drop_bit 16 x AND 0xff),
     ucast (drop_bit 8 x AND 0xff), ucast (x AND 0xff)]"

definition be64enc :: "u64 \<Rightarrow> bytes" where
  "be64enc x = [ucast (drop_bit 56 x AND 0xff), ucast (drop_bit 48 x AND 0xff),
     ucast (drop_bit 40 x AND 0xff), ucast (drop_bit 32 x AND 0xff),
     ucast (drop_bit 24 x AND 0xff), ucast (drop_bit 16 x AND 0xff),
     ucast (drop_bit 8 x AND 0xff), ucast (x AND 0xff)]"

definition le32dec :: "bytes \<Rightarrow> u32" where
  "le32dec p = ucast (p ! 0) + push_bit 8 (ucast (p ! 1)) +
     push_bit 16 (ucast (p ! 2)) + push_bit 24 (ucast (p ! 3))"

definition le32enc :: "u32 \<Rightarrow> bytes" where
  "le32enc x = [ucast (x AND 0xff), ucast (drop_bit 8 x AND 0xff),
     ucast (drop_bit 16 x AND 0xff), ucast (drop_bit 24 x AND 0xff)]"

lemma length_be32enc [simp, enc_simps]: "length (be32enc x) = 4"
  by (simp add: be32enc_def)

lemma length_be64enc [simp, enc_simps]: "length (be64enc x) = 8"
  by (simp add: be64enc_def)

lemma length_le32enc [simp, enc_simps]: "length (le32enc x) = 4"
  by (simp add: le32enc_def)

lemma le32enc_le_enc: "le32enc x = le_enc 4 x"
  by (simp add: le32enc_def numeral_eq_Suc drop_bit_drop_bit)

lemma be32enc_le_enc: "be32enc x = rev (le_enc 4 x)"
  by (simp add: be32enc_def numeral_eq_Suc drop_bit_drop_bit)

lemma be64enc_le_enc: "be64enc x = rev (le_enc 8 x)"
  by (simp add: be64enc_def numeral_eq_Suc drop_bit_drop_bit)

lemma nth_first_four: "4 \<le> length p \<Longrightarrow> take 4 p = [p ! 0, p ! 1, p ! 2, p ! 3]"
  by (rule nth_equalityI) (auto simp: less_Suc_eq numeral_eq_Suc)

lemma le32dec_le_dec: "4 \<le> length p \<Longrightarrow> le32dec p = le_dec (take 4 p)"
  by (simp add: nth_first_four le_dec_horner le32dec_def push_bit_add push_bit_push_bit add.assoc
      del: le_dec.simps(2))

lemma be32dec_le_dec: "4 \<le> length p \<Longrightarrow> be32dec p = le_dec (rev (take 4 p))"
  by (simp add: nth_first_four le_dec_horner be32dec_def push_bit_add push_bit_push_bit add.assoc
      del: le_dec.simps(2))

lemma le32dec_le32enc [simp, enc_simps]: "le32dec (le32enc x @ r) = x"
  by (simp add: le32dec_le_dec le32enc_le_enc le_dec_le_enc take_bit_whole_word)

lemma be32dec_be32enc [simp, enc_simps]: "be32dec (be32enc x @ r) = x"
  by (simp add: be32dec_le_dec be32enc_le_enc le_dec_le_enc take_bit_whole_word)

section \<open>Counters and bit fields\<close>

lemma div_mod_pow2_mod:
  "k + m \<le> N \<Longrightarrow> ((x mod 2 ^ N) div 2 ^ k) mod 2 ^ m = (x div 2 ^ k) mod (2 ^ m :: nat)"
proof -
  assume "k + m \<le> N"
  then have "take_bit m (drop_bit k (take_bit N x)) = take_bit m (drop_bit k x)"
    by (intro bit_eqI) (auto simp: bit_simps)
  then show ?thesis by (simp add: take_bit_eq_mod drop_bit_eq_div)
qed

lemma add_carry:
  fixes K n inc :: nat
  assumes "inc < K"
  shows "(n + inc) mod K < inc \<longleftrightarrow> K \<le> n mod K + inc"
    and "(n + inc) div K = n div K + (if K \<le> n mod K + inc then 1 else 0)"
proof -
  define r where "r = n mod K"
  have r: "r < K" using assms by (simp add: r_def)
  have rm: "(r + inc) mod K = (if K \<le> r + inc then r + inc - K else r + inc)"
    using r assms by (cases "K \<le> r + inc") (simp_all add: le_mod_geq)
  have rd: "(r + inc) div K = (if K \<le> r + inc then 1 else 0)"
    using r assms by (cases "K \<le> r + inc") (simp_all add: le_div_geq)
  have "(n + inc) mod K = (r + inc) mod K" by (simp add: r_def mod_add_left_eq)
  with r assms show "(n + inc) mod K < inc \<longleftrightarrow> K \<le> n mod K + inc"
    unfolding r_def [symmetric] rm by (auto split: if_splits)
  have "n + inc = (r + inc) + n div K * K" by (simp add: r_def)
  then have "(n + inc) div K = n div K + (r + inc) div K"
    using assms by (metis div_mult_self1 gr_implies_not0)
  then show "(n + inc) div K = n div K + (if K \<le> n mod K + inc then 1 else 0)"
    unfolding r_def [symmetric] by (simp only: rd)
qed

lemma unat_bit_field:
  "unat (drop_bit k w AND mask m) = (unat (w :: 'a::len word) div 2 ^ k) mod 2 ^ m"
proof -
  have "unat (take_bit m (drop_bit k w)) = take_bit m (drop_bit k (unat w))"
    by (simp only: unsigned_take_bit_eq unat_drop_bit_eq)
  then show ?thesis by (simp add: take_bit_eq_mask take_bit_eq_mod drop_bit_eq_div flip: take_bit_eq_mask)
qed

lemma unat_add_push_bit:
  "unat (c + push_bit k (of_nat n) :: 'a::len word) = (unat c + 2 ^ k * n) mod 2 ^ LENGTH('a)"
proof -
  have "c + push_bit k (of_nat n) = (of_nat (unat c + 2 ^ k * n) :: 'a word)"
    by (simp add: push_bit_eq_mult mult.commute)
  then show ?thesis by (simp only: unat_of_nat)
qed

section \<open>Rotations\<close>

text \<open>
  The sources rotate with two shifts and an or; for a rotation count strictly between zero
  and the width that is the library's rotation.
\<close>

lemma shifts_or_rotr: "0 < n \<Longrightarrow> n < LENGTH('a) \<Longrightarrow>
   drop_bit n x OR push_bit (LENGTH('a) - n) x = word_rotr n (x::'a::len word)"
  by (rule bit_word_eqI) (auto simp: bit_simps bit_word_rotr_iff mod_if ac_simps dest: bit_imp_le_length)

lemma shifts_or_rotl: "0 < n \<Longrightarrow> n < LENGTH('a) \<Longrightarrow>
   push_bit n x OR drop_bit (LENGTH('a) - n) x = word_rotl n (x::'a::len word)"
  using shifts_or_rotr [of "LENGTH('a) - n" x] by (simp add: word_rotl_eq_word_rotr or.commute)

section \<open>Arrays of fixed size\<close>

lemma foldl_memcpy_at:
  assumes "\<And>i. i < k \<Longrightarrow> length (e i) = c" and "c * k \<le> length buf"
  shows "foldl (\<lambda>buf i. memcpy_at buf (c * i) (e i)) buf [0..<k] = concat (map e [0..<k]) @ drop (c * k) buf"
  using assms
proof (induction k)
  case (Suc k)
  have len: "length (concat (map e [0..<k])) = c * k"
    using Suc.prems(1) by (induction k) simp_all
  show ?case using Suc len by (simp add: memcpy_at_def)
qed simp

lemma slot_concat:
  assumes "\<forall>x \<in> set xs. length x = c" and "j < length xs"
  shows "take c (drop (c * j) (concat xs)) = xs ! j"
  using assms
proof (induction xs arbitrary: j)
  case (Cons x xs)
  then show ?case by (cases j) (simp_all add: add.commute)
qed simp

lemma length_slots: "\<forall>x \<in> set xs. length x = c \<Longrightarrow> length (concat xs) = c * length xs"
  by (induction xs) simp_all

lemma slots_concat:
  assumes "\<forall>x \<in> set xs. length x = c"
  shows "take (c * n) (drop (c * j) (concat xs)) = concat (take n (drop j xs))"
proof -
  have t: "concat (take k ys) = take (c * k) (concat ys)" if "\<forall>y \<in> set ys. length y = c" for k and ys :: "'a list list"
    using that by (induction ys arbitrary: k) (auto simp: take_Cons split: nat.split)
  have d: "concat (drop k ys) = drop (c * k) (concat ys)" if "\<forall>y \<in> set ys. length y = c" for k and ys :: "'a list list"
    using that by (induction ys arbitrary: k) (auto simp: drop_Cons split: nat.split)
  have "\<forall>y \<in> set (drop j xs). length y = c" using assms by (auto dest: in_set_dropD)
  then show ?thesis using t [of "drop j xs" n] d [OF assms, of j] by simp
qed

lemma foldl_slots:
  assumes "\<And>j b. j < k \<Longrightarrow> length (f j b) = c" and "c * k \<le> length buf"
    and "\<And>j b. j < k \<Longrightarrow> drop (c * j) b = drop (c * j) buf \<Longrightarrow> f j b = f j buf"
  shows "foldl (\<lambda>b j. memcpy_at b (c * j) (f j b)) buf [0..<k] = concat (map (\<lambda>j. f j buf) [0..<k]) @ drop (c * k) buf"
  using assms
proof (induction k)
  case (Suc k)
  let ?b = "concat (map (\<lambda>j. f j buf) [0..<k]) @ drop (c * k) buf"
  have IH: "foldl (\<lambda>b j. memcpy_at b (c * j) (f j b)) buf [0..<k] = ?b"
    by (rule Suc.IH) (use Suc.prems(1,2) in simp, use Suc.prems(2) in simp, rule Suc.prems(3), simp_all)
  have len: "length (concat (map (\<lambda>j. f j buf) [0..<k])) = c * k"
    using Suc.prems(1) length_slots [of "map (\<lambda>j. f j buf) [0..<k]" c] by simp
  have "drop (c * k) ?b = drop (c * k) buf" using len by simp
  then have "f k ?b = f k buf" by (intro Suc.prems(3)) simp_all
  then have "foldl (\<lambda>b j. memcpy_at b (c * j) (f j b)) buf [0..<Suc k] = memcpy_at ?b (c * k) (f k buf)"
    by (simp add: IH)
  also have "\<dots> = concat (map (\<lambda>j. f j buf) [0..<Suc k]) @ drop (c * Suc k) buf"
    using len Suc.prems(1) [of k buf] Suc.prems(2) by (simp add: memcpy_at_def add.commute)
  finally show ?case .
qed simp

lemma foldl_list_update:
  assumes "k \<le> length w"
  shows "foldl (\<lambda>w i. w[i := f i (w ! i)]) w [0..<k] = map (\<lambda>i. if i < k then f i (w ! i) else w ! i) [0..<length w]"
  using assms
proof (induction k)
  case 0
  show ?case by (simp add: map_nth)
next
  case (Suc k)
  then show ?case by (auto intro!: nth_equalityI simp: nth_list_update)
qed

lemma list16_cases:
  assumes "length v = 16"
  obtains v0 v1 v2 v3 v4 v5 v6 v7 v8 v9 v10 v11 v12 v13 v14 v15
  where "v = [v0, v1, v2, v3, v4, v5, v6, v7, v8, v9, v10, v11, v12, v13, v14, v15]"
proof -
  have "length v = Suc (Suc (Suc (Suc (Suc (Suc (Suc (Suc (Suc (Suc (Suc (Suc (Suc (Suc (Suc (Suc 0)))))))))))))))"
    using assms by simp
  then show ?thesis using that unfolding length_Suc_conv by auto
qed

lemma list32_cases:
  assumes "length v = 32"
  obtains v0 v1 v2 v3 v4 v5 v6 v7 v8 v9 v10 v11 v12 v13 v14 v15
    v16 v17 v18 v19 v20 v21 v22 v23 v24 v25 v26 v27 v28 v29 v30 v31
  where "v = [v0, v1, v2, v3, v4, v5, v6, v7, v8, v9, v10, v11, v12, v13, v14, v15,
    v16, v17, v18, v19, v20, v21, v22, v23, v24, v25, v26, v27, v28, v29, v30, v31]"
proof -
  have "length (take 16 v) = 16" "length (drop 16 v) = 16" using assms by simp_all
  then show ?thesis using that append_take_drop_id [of 16 v]
    by (elim list16_cases) (metis append_Cons append_Nil)
qed

lemma list25_cases:
  assumes "length v = 25"
  obtains v0 v1 v2 v3 v4 v5 v6 v7 v8 v9 v10 v11 v12 v13 v14 v15 v16 v17 v18 v19 v20 v21 v22 v23 v24
  where "v = [v0, v1, v2, v3, v4, v5, v6, v7, v8, v9, v10, v11, v12, v13, v14, v15,
    v16, v17, v18, v19, v20, v21, v22, v23, v24]"
proof -
  have "length (take 16 v) = 16" "length (drop 16 v) = Suc (Suc (Suc (Suc (Suc (Suc (Suc (Suc (Suc 0))))))))"
    using assms by simp_all
  then show ?thesis using that append_take_drop_id [of 16 v]
    unfolding length_Suc_conv by (elim list16_cases exE conjE) (metis append_Cons append_Nil length_0_conv)
qed

lemma list8_cases:
  assumes "length S = 8"
  obtains a b c d e f g h where "S = [a, b, c, d, e, f, g, h]"
  using assms by (auto simp: numeral_eq_Suc length_Suc_conv)

lemma upt_0_8: "[0..<8] = [0, 1, 2, 3, 4, 5, 6, 7]"
  by code_simp

lemma replicate_last: "0 < n \<Longrightarrow> replicate n x = replicate (n - 1) x @ [x]"
  by (cases n) (simp_all add: replicate_append_same)

lemma upt_16: "[0..<16] = [0, 1, 2, 3, 4, 5, 6, 7, 8, 9, 10, 11, 12, 13, 14, 15]"
  by code_simp

end
