(* ===== verification/Stream_Hash.thy ===== *)
theory Stream_Hash
  imports MoM_Prelude
begin

text \<open>
  The interface every incremental hash of the sources offers its clients: a context, an
  update that takes the next bytes of the message and a finishing step. The laws say that
  the finishing step sees the context only through a view (the chaining value and the bytes
  not yet processed), and that on views an update is an action of byte strings. The clients'
  guarantees follow once and for all: how a message is cut into updates does not matter, and
  neither do stale bytes of the buffer that the view hides.
\<close>

locale stream_hash =
  fixes inv :: "'c \<Rightarrow> bool"
    and view :: "'c \<Rightarrow> 'v"
    and absorb :: "'v \<Rightarrow> bytes \<Rightarrow> 'v"
    and update :: "'c \<Rightarrow> bytes \<Rightarrow> 'c"
    and final :: "'c \<Rightarrow> 'o"
  assumes inv_update: "inv c \<Longrightarrow> inv (update c d)"
    and view_update: "inv c \<Longrightarrow> view (update c d) = absorb (view c) d"
    and absorb_nil: "inv c \<Longrightarrow> absorb (view c) [] = view c"
    and absorb_append: "inv c \<Longrightarrow> absorb (absorb (view c) d) e = absorb (view c) (d @ e)"
    and final_view: "inv c \<Longrightarrow> inv c' \<Longrightarrow> view c = view c' \<Longrightarrow> final c = final c'"
begin

lemma inv_updates: "inv c \<Longrightarrow> inv (foldl update c ds)"
  by (induction ds arbitrary: c) (auto simp: inv_update)

lemma view_updates: "inv c \<Longrightarrow> view (foldl update c ds) = absorb (view c) (concat ds)"
proof (induction ds arbitrary: c)
  case Nil
  then show ?case by (simp add: absorb_nil)
next
  case (Cons d ds)
  then have "view (foldl update (update c d) ds) = absorb (view (update c d)) (concat ds)"
    by (simp add: inv_update)
  with Cons.prems show ?case by (simp add: view_update absorb_append)
qed

lemma chunking: "inv c \<Longrightarrow> final (foldl update c ds) = final (update c (concat ds))"
  by (rule final_view) (simp_all add: inv_updates inv_update view_updates view_update)

lemma same_message:
  "inv c \<Longrightarrow> inv c' \<Longrightarrow> view c = view c' \<Longrightarrow> concat ds = concat es \<Longrightarrow>
   final (foldl update c ds) = final (foldl update c' es)"
  by (rule final_view) (simp_all add: inv_updates view_updates)

lemma update_update:
  "inv c \<Longrightarrow> final (update (update c d) e) = final (update c (d @ e))"
  using chunking [of c "[d, e]"] by simp

lemma view_update_update:
  "inv c \<Longrightarrow> view (update (update c d) e) = view (update c (d @ e))"
  by (simp add: view_update inv_update absorb_append)

end

end
