(* ===== verification/Sha256.thy ===== *)
theory Sha256
  imports Stream_Hash
begin

text \<open>
  SHA-256, HMAC-SHA-256 and PBKDF2-HMAC-SHA-256 as the RandomX variant Panthera (yespower)
  uses them: \<^verbatim>\<open>xmrig/crypto/randomx/panthera/sha256.c\<close>. Contexts are records with the
  fields of the C structs; a function that writes through a pointer returns the new value.
  The scratch array \<^verbatim>\<open>tmp32\<close> is written before it is read in every call and is not carried
  in the state; the final wipes, calls of an empty macro, do nothing.
\<close>

section \<open>The compression function\<close>

text \<open>\<open>be32enc_vect\<close> and \<open>be32dec_vect\<close> process \<open>len\<close> pairs of words in a \<open>do ... while\<close>
  loop; every caller passes a positive \<open>len\<close>.\<close>

fun be32enc_vect :: "u32 list \<Rightarrow> nat \<Rightarrow> bytes" where
  "be32enc_vect src 0 = []"
| "be32enc_vect src (Suc len) =
     be32enc (src ! 0) @ be32enc (src ! 1) @ be32enc_vect (drop 2 src) len"

fun be32dec_vect :: "bytes \<Rightarrow> nat \<Rightarrow> u32 list" where
  "be32dec_vect src 0 = []"
| "be32dec_vect src (Suc len) =
     be32dec (drop 0 src) # be32dec (drop 4 src) # be32dec_vect (drop 8 src) len"

definition Krnd :: "u32 list" where
  "Krnd =
    [0x428a2f98, 0x71374491, 0xb5c0fbcf, 0xe9b5dba5] @
    [0x3956c25b, 0x59f111f1, 0x923f82a4, 0xab1c5ed5] @
    [0xd807aa98, 0x12835b01, 0x243185be, 0x550c7dc3] @
    [0x72be5d74, 0x80deb1fe, 0x9bdc06a7, 0xc19bf174] @
    [0xe49b69c1, 0xefbe4786, 0x0fc19dc6, 0x240ca1cc] @
    [0x2de92c6f, 0x4a7484aa, 0x5cb0a9dc, 0x76f988da] @
    [0x983e5152, 0xa831c66d, 0xb00327c8, 0xbf597fc7] @
    [0xc6e00bf3, 0xd5a79147, 0x06ca6351, 0x14292967] @
    [0x27b70a85, 0x2e1b2138, 0x4d2c6dfc, 0x53380d13] @
    [0x650a7354, 0x766a0abb, 0x81c2c92e, 0x92722c85] @
    [0xa2bfe8a1, 0xa81a664b, 0xc24b8b70, 0xc76c51a3] @
    [0xd192e819, 0xd6990624, 0xf40e3585, 0x106aa070] @
    [0x19a4c116, 0x1e376c08, 0x2748774c, 0x34b0bcb5] @
    [0x391c0cb3, 0x4ed8aa4a, 0x5b9cca4f, 0x682e6ff3] @
    [0x748f82ee, 0x78a5636f, 0x84c87814, 0x8cc70208] @
    [0x90befffa, 0xa4506ceb, 0xbef9a3f7, 0xc67178f2]"

definition Ch :: "u32 \<Rightarrow> u32 \<Rightarrow> u32 \<Rightarrow> u32" where
  "Ch x y z = (x AND (y XOR z)) XOR z"

definition Maj :: "u32 \<Rightarrow> u32 \<Rightarrow> u32 \<Rightarrow> u32" where
  "Maj x y z = (x AND (y OR z)) OR (y AND z)"

definition SHR :: "u32 \<Rightarrow> nat \<Rightarrow> u32" where
  "SHR x n = drop_bit n x"

definition ROTR :: "u32 \<Rightarrow> nat \<Rightarrow> u32" where
  "ROTR x n = drop_bit n x OR push_bit (32 - n) x"

definition S0 :: "u32 \<Rightarrow> u32" where
  "S0 x = ROTR x 2 XOR ROTR x 13 XOR ROTR x 22"

definition S1 :: "u32 \<Rightarrow> u32" where
  "S1 x = ROTR x 6 XOR ROTR x 11 XOR ROTR x 25"

definition s0 :: "u32 \<Rightarrow> u32" where
  "s0 x = ROTR x 7 XOR ROTR x 18 XOR SHR x 3"

definition s1 :: "u32 \<Rightarrow> u32" where
  "s1 x = ROTR x 17 XOR ROTR x 19 XOR SHR x 10"

text \<open>
  \<open>RND\<close> updates the two variables \<open>d\<close> and \<open>h\<close>; \<open>RNDr\<close> applies it to a rotating choice of
  the eight cells of the array \<open>S\<close>, so that no value is moved between cells.
\<close>

definition RND ::
  "u32 \<Rightarrow> u32 \<Rightarrow> u32 \<Rightarrow> u32 \<Rightarrow> u32 \<Rightarrow> u32 \<Rightarrow> u32 \<Rightarrow> u32 \<Rightarrow> u32 \<Rightarrow> u32 \<times> u32" where
  "RND a b c d e f g h k =
     (let h' = h + (S1 e + Ch e f g + k);
          d' = d + h'
      in (d', h' + (S0 a + Maj a b c)))"

definition RNDr :: "u32 list \<Rightarrow> u32 list \<Rightarrow> nat \<Rightarrow> nat \<Rightarrow> u32 list" where
  "RNDr S W i ii =
     (let (d, h) = RND (S ! ((64 - i) mod 8)) (S ! ((65 - i) mod 8))
                       (S ! ((66 - i) mod 8)) (S ! ((67 - i) mod 8))
                       (S ! ((68 - i) mod 8)) (S ! ((69 - i) mod 8))
                       (S ! ((70 - i) mod 8)) (S ! ((71 - i) mod 8))
                       (W ! (i + ii) + Krnd ! (i + ii))
      in S[(67 - i) mod 8 := d, (71 - i) mod 8 := h])"

definition MSCH :: "u32 list \<Rightarrow> nat \<Rightarrow> nat \<Rightarrow> u32 list" where
  "MSCH W ii i = W[i + ii + 16 :=
     s1 (W ! (i + ii + 14)) + W ! (i + ii + 9) + s0 (W ! (i + ii + 1)) + W ! (i + ii)]"

text \<open>
  The mixing loop runs for \<open>i = 0, 16, 32, 48\<close> and leaves through the \<open>break\<close> in the last
  turn, after the sixteen rounds and before the message schedule is extended.
\<close>

definition sha256_rounds16 :: "u32 list \<Rightarrow> u32 list \<Rightarrow> nat \<Rightarrow> u32 list" where
  "sha256_rounds16 S W i = foldl (\<lambda>S j. RNDr S W j i) S [0..<16]"

definition sha256_msch16 :: "u32 list \<Rightarrow> nat \<Rightarrow> u32 list" where
  "sha256_msch16 W i = foldl (\<lambda>W j. MSCH W j i) W [0..<16]"

function sha256_mix :: "u32 list \<Rightarrow> u32 list \<Rightarrow> nat \<Rightarrow> u32 list" where
  "sha256_mix S W i =
     (if i < 64 then
        (let S' = sha256_rounds16 S W i
         in if i = 48 then S' else sha256_mix S' (sha256_msch16 W i) (i + 16))
      else S)"
  by pat_completeness auto
termination
  by (relation "measure (\<lambda>(S, W, i). 64 - i)") auto

declare sha256_mix.simps [simp del]

definition SHA256_Transform :: "u32 list \<Rightarrow> bytes \<Rightarrow> u32 list" where
  "SHA256_Transform state block =
     (let W = be32dec_vect block 8 @ replicate 48 0;
          S = sha256_mix (take 8 state) W 0
      in [state ! 0 + S ! 0, state ! 1 + S ! 1, state ! 2 + S ! 2, state ! 3 + S ! 3,
          state ! 4 + S ! 4, state ! 5 + S ! 5, state ! 6 + S ! 6, state ! 7 + S ! 7])"

section \<open>The incremental hash\<close>

definition PAD :: bytes where
  "PAD = 0x80 # replicate 63 0"

record SHA256_CTX =
  state :: "u32 list"
  count :: u64
  buf :: bytes

definition initial_state :: "u32 list" where
  "initial_state = [0x6A09E667, 0xBB67AE85, 0x3C6EF372, 0xA54FF53A,
     0x510E527F, 0x9B05688C, 0x1F83D9AB, 0x5BE0CD19]"

text \<open>The number of bytes in the buffer, \<^verbatim>\<open>(ctx->count >> 3) & 0x3f\<close>.\<close>

definition sha256_fill :: "SHA256_CTX \<Rightarrow> nat" where
  "sha256_fill ctx = unat (drop_bit 3 (count ctx) AND 0x3f)"

definition SHA256_Pad :: "SHA256_CTX \<Rightarrow> SHA256_CTX" where
  "SHA256_Pad ctx =
     (let r = sha256_fill ctx;
          ctx1 = (if r < 56
                  then ctx\<lparr>buf := memcpy_at (buf ctx) r (take (56 - r) PAD)\<rparr>
                  else let b = memcpy_at (buf ctx) r (take (64 - r) PAD)
                       in ctx\<lparr>state := SHA256_Transform (state ctx) b,
                              buf := memcpy_at b 0 (replicate 56 0)\<rparr>);
          b = memcpy_at (buf ctx1) 56 (be64enc (count ctx1))
      in ctx1\<lparr>buf := b, state := SHA256_Transform (state ctx1) b\<rparr>)"

text \<open>\<open>SHA256_Init\<close> leaves the buffer as it is: uninitialised memory in every caller.\<close>

definition SHA256_Init :: "SHA256_CTX \<Rightarrow> SHA256_CTX" where
  "SHA256_Init ctx = ctx\<lparr>count := 0, state := initial_state\<rparr>"

function sha256_whole_blocks :: "u32 list \<Rightarrow> bytes \<Rightarrow> u32 list \<times> bytes" where
  "sha256_whole_blocks st src =
     (if 64 \<le> length src
      then sha256_whole_blocks (SHA256_Transform st src) (drop 64 src)
      else (st, src))"
  by pat_completeness auto
termination
  by (relation "measure (\<lambda>(st, src). length src)") auto

declare sha256_whole_blocks.simps [simp del]

definition SHA256_Update :: "SHA256_CTX \<Rightarrow> bytes \<Rightarrow> SHA256_CTX" where
  "SHA256_Update ctx src =
     (if length src = 0 then ctx
      else
        let r = sha256_fill ctx;
            ctx1 = ctx\<lparr>count := count ctx + push_bit 3 (of_nat (length src))\<rparr>
        in if length src < 64 - r
           then ctx1\<lparr>buf := memcpy_at (buf ctx1) r src\<rparr>
           else
             let b = memcpy_at (buf ctx1) r (take (64 - r) src);
                 (st, rest) = sha256_whole_blocks (SHA256_Transform (state ctx1) b) (drop (64 - r) src)
             in ctx1\<lparr>state := st, buf := memcpy_at b 0 rest\<rparr>)"

text \<open>\<open>_SHA256_Final\<close> writes the digest and leaves the padded context. The exported wrapper passes the
  context on to \<^verbatim>\<open>insecure_memzero\<close>, a macro that \<^verbatim>\<open>insecure_memzero.h\<close> defines to be empty, so that
  the context stays as it is.\<close>

definition SHA256_Final' :: "SHA256_CTX \<Rightarrow> bytes \<times> SHA256_CTX" where
  "SHA256_Final' ctx = (let ctx' = SHA256_Pad ctx in (be32enc_vect (state ctx') 4, ctx'))"

definition SHA256_Final :: "SHA256_CTX \<Rightarrow> bytes \<times> SHA256_CTX" where
  "SHA256_Final ctx = SHA256_Final' ctx"

text \<open>\<open>SHA256_Buf\<close> hashes one message with a context on the stack; \<open>stack\<close> is the
  uninitialised content of that memory.\<close>

definition SHA256_Buf :: "SHA256_CTX \<Rightarrow> bytes \<Rightarrow> bytes" where
  "SHA256_Buf stack src = fst (SHA256_Final' (SHA256_Update (SHA256_Init stack) src))"

section \<open>The FIPS 180-4 compression function\<close>

definition fips_Ch :: "u32 \<Rightarrow> u32 \<Rightarrow> u32 \<Rightarrow> u32" where
  "fips_Ch x y z = (x AND y) XOR (NOT x AND z)"

definition fips_Maj :: "u32 \<Rightarrow> u32 \<Rightarrow> u32 \<Rightarrow> u32" where
  "fips_Maj x y z = (x AND y) XOR (x AND z) XOR (y AND z)"

definition fips_Sigma0 :: "u32 \<Rightarrow> u32" where
  "fips_Sigma0 x = word_rotr 2 x XOR word_rotr 13 x XOR word_rotr 22 x"

definition fips_Sigma1 :: "u32 \<Rightarrow> u32" where
  "fips_Sigma1 x = word_rotr 6 x XOR word_rotr 11 x XOR word_rotr 25 x"

definition fips_sigma0 :: "u32 \<Rightarrow> u32" where
  "fips_sigma0 x = word_rotr 7 x XOR word_rotr 18 x XOR drop_bit 3 x"

definition fips_sigma1 :: "u32 \<Rightarrow> u32" where
  "fips_sigma1 x = word_rotr 17 x XOR word_rotr 19 x XOR drop_bit 10 x"

type_synonym fips_regs = "u32 \<times> u32 \<times> u32 \<times> u32 \<times> u32 \<times> u32 \<times> u32 \<times> u32"

fun fips_round :: "u32 list \<Rightarrow> fips_regs \<Rightarrow> nat \<Rightarrow> fips_regs" where
  "fips_round W (a, b, c, d, e, f, g, h) t =
     (let T1 = h + fips_Sigma1 e + fips_Ch e f g + Krnd ! t + W ! t;
          T2 = fips_Sigma0 a + fips_Maj a b c
      in (T1 + T2, a, b, c, d + T1, e, f, g))"

definition fips_extend :: "u32 list \<Rightarrow> nat \<Rightarrow> u32 list" where
  "fips_extend W t = W @ [fips_sigma1 (W ! (t - 2)) + W ! (t - 7)
     + fips_sigma0 (W ! (t - 15)) + W ! (t - 16)]"

definition fips_schedule_upto :: "nat \<Rightarrow> u32 list \<Rightarrow> u32 list" where
  "fips_schedule_upto n M = foldl fips_extend M [16..<n]"

definition fips_schedule :: "u32 list \<Rightarrow> u32 list" where
  "fips_schedule M = fips_schedule_upto 64 M"

fun fips_regs_of :: "u32 list \<Rightarrow> fips_regs" where
  "fips_regs_of [a, b, c, d, e, f, g, h] = (a, b, c, d, e, f, g, h)"
| "fips_regs_of _ = (0, 0, 0, 0, 0, 0, 0, 0)"

fun fips_list_of :: "fips_regs \<Rightarrow> u32 list" where
  "fips_list_of (a, b, c, d, e, f, g, h) = [a, b, c, d, e, f, g, h]"

definition fips_compress :: "u32 list \<Rightarrow> bytes \<Rightarrow> u32 list" where
  "fips_compress H block =
     (let W = fips_schedule (map (\<lambda>i. le_dec (rev (take 4 (drop (4 * i) block)))) [0..<16]);
          R = foldl (fips_round W) (fips_regs_of H) [0..<64]
      in map2 (+) H (fips_list_of R))"

lemma Ch_fips: "Ch x y z = fips_Ch x y z"
  by (rule bit_word_eqI) (auto simp: Ch_def fips_Ch_def bit_simps)

lemma Maj_fips: "Maj x y z = fips_Maj x y z"
  by (rule bit_word_eqI) (auto simp: Maj_def fips_Maj_def bit_simps)

lemma ROTR_word_rotr: "0 < n \<Longrightarrow> n < 32 \<Longrightarrow> ROTR x n = word_rotr n x"
  using shifts_or_rotr [where 'a = 32, of n x] by (simp add: ROTR_def)

lemma sigma_fips:
  "S0 x = fips_Sigma0 x" "S1 x = fips_Sigma1 x" "s0 x = fips_sigma0 x" "s1 x = fips_sigma1 x"
  by (simp_all add: S0_def S1_def s0_def s1_def SHR_def ROTR_word_rotr
      fips_Sigma0_def fips_Sigma1_def fips_sigma0_def fips_sigma1_def)

text \<open>The registers that the cells of \<open>S\<close> hold at round \<open>j\<close> of a turn.\<close>

definition regs_at :: "nat \<Rightarrow> u32 list \<Rightarrow> fips_regs" where
  "regs_at j S = (S ! ((64 - j) mod 8), S ! ((65 - j) mod 8), S ! ((66 - j) mod 8),
     S ! ((67 - j) mod 8), S ! ((68 - j) mod 8), S ! ((69 - j) mod 8),
     S ! ((70 - j) mod 8), S ! ((71 - j) mod 8))"

lemma length_RNDr [simp]: "length (RNDr S W i ii) = length S"
  by (simp add: RNDr_def Let_def split: prod.splits)

lemma less_16_cases:
  assumes "j < (16::nat)"
  shows "j = 0 \<or> j = 1 \<or> j = 2 \<or> j = 3 \<or> j = 4 \<or> j = 5 \<or> j = 6 \<or> j = 7 \<or>
    j = 8 \<or> j = 9 \<or> j = 10 \<or> j = 11 \<or> j = 12 \<or> j = 13 \<or> j = 14 \<or> j = 15"
  using assms by (auto simp: less_Suc_eq numeral_eq_Suc)

lemma RNDr_step:
  assumes "length S = 8" and "j < 16"
  shows "regs_at (Suc j) (RNDr S W j ii) = fips_round W (regs_at j S) (j + ii)"
proof -
  obtain a b c d e f g h where S: "S = [a, b, c, d, e, f, g, h]"
    using assms(1) by (rule list8_cases)
  show ?thesis
    using less_16_cases [OF assms(2)]
    by (elim disjE)
      (simp_all add: S regs_at_def RNDr_def RND_def Let_def sigma_fips Ch_fips Maj_fips ac_simps)
qed

lemma rounds16_upto:
  assumes "length S = 8" and "n \<le> 16"
  shows "length (foldl (\<lambda>S j. RNDr S W j i) S [0..<n]) = 8 \<and>
    regs_at n (foldl (\<lambda>S j. RNDr S W j i) S [0..<n])
      = foldl (fips_round W) (regs_at 0 S) [i..<i + n]"
  using assms(2)
proof (induction n)
  case 0
  then show ?case using assms(1) by simp
next
  case (Suc n)
  then show ?case using RNDr_step [of _ n W i] by (simp add: add.commute)
qed

lemma regs_at_16: "regs_at 16 S = regs_at 0 S"
  by (simp add: regs_at_def)

lemma rounds16_fips:
  assumes "length S = 8"
  shows "length (sha256_rounds16 S W i) = 8"
    and "regs_at 0 (sha256_rounds16 S W i) = foldl (fips_round W) (regs_at 0 S) [i..<i + 16]"
  using rounds16_upto [OF assms order_refl, of W i] by (simp_all add: sha256_rounds16_def regs_at_16)

lemma fips_rounds_cong:
  assumes "\<And>t. t \<in> set ts \<Longrightarrow> V ! t = W ! t"
  shows "foldl (fips_round V) R ts = foldl (fips_round W) R ts"
  using assms
proof (induction ts arbitrary: R)
  case (Cons t ts)
  have "fips_round V R t = fips_round W R t"
    using Cons.prems by (cases R rule: fips_list_of.cases) (simp add: Let_def)
  then show ?case using Cons by simp
qed simp

lemma length_fips_schedule_upto: "length M = 16 \<Longrightarrow> length (fips_schedule_upto n M) = max 16 n"
  by (induction n) (auto simp: fips_schedule_upto_def fips_extend_def max_def)

lemma fips_schedule_upto_prefix:
  assumes "length M = 16" and "16 \<le> n" and "n \<le> m"
  shows "take n (fips_schedule_upto m M) = fips_schedule_upto n M"
  using assms(3)
proof (induction m rule: dec_induct)
  case base
  then show ?case using assms by (simp add: length_fips_schedule_upto)
next
  case (step m)
  then show ?case
    using assms length_fips_schedule_upto [OF assms(1), of m]
    by (simp add: fips_schedule_upto_def fips_extend_def)
qed

lemma fips_schedule_prefix:
  "length M = 16 \<Longrightarrow> 16 \<le> n \<Longrightarrow> n \<le> 64 \<Longrightarrow> take n (fips_schedule M) = fips_schedule_upto n M"
  by (simp only: fips_schedule_def fips_schedule_upto_prefix)

lemma length_fips_schedule: "length M = 16 \<Longrightarrow> length (fips_schedule M) = 64"
  by (simp add: fips_schedule_def length_fips_schedule_upto)

lemma nth_fips_schedule:
  assumes "length M = 16" and "16 \<le> n" and "n < 64"
  shows "fips_schedule M ! n = fips_sigma1 (fips_schedule M ! (n - 2)) + fips_schedule M ! (n - 7)
     + fips_sigma0 (fips_schedule M ! (n - 15)) + fips_schedule M ! (n - 16)"
proof -
  let ?V = "fips_schedule_upto n M" and ?F = "fips_schedule M"
  have len: "length ?V = n" using assms by (simp add: length_fips_schedule_upto)
  have pre: "take n ?F = ?V" "take (Suc n) ?F = fips_extend ?V n"
    using fips_schedule_prefix [OF assms(1), of n] fips_schedule_prefix [OF assms(1), of "Suc n"] assms
    by (simp_all add: fips_schedule_upto_def)
  have low: "?V ! k = ?F ! k" if "k < n" for k
    using that pre(1) by (metis nth_take)
  have "?F ! n = fips_extend ?V n ! n"
    using pre(2) by (metis lessI nth_take)
  then show ?thesis using assms len by (simp add: fips_extend_def nth_append low)
qed

lemma MSCH_prefix:
  assumes "length M = 16" and "length W = 64" and "i + j + 16 < 64"
    and "take (i + j + 16) W = take (i + j + 16) (fips_schedule M)"
  shows "take (Suc (i + j + 16)) (MSCH W j i) = take (Suc (i + j + 16)) (fips_schedule M)"
proof -
  let ?n = "i + j + 16" and ?F = "fips_schedule M"
  have low: "W ! k = ?F ! k" if "k < ?n" for k
    using that assms(4) by (metis nth_take)
  have "MSCH W j i ! ?n = ?F ! ?n"
    using assms(2,3) nth_fips_schedule [OF assms(1), of ?n]
    by (simp add: MSCH_def sigma_fips low ac_simps)
  moreover have "take ?n (MSCH W j i) = take ?n ?F"
    using assms(4) by (simp add: MSCH_def)
  moreover have "length (MSCH W j i) = 64" using assms(2) by (simp add: MSCH_def)
  ultimately show ?thesis
    using assms(3) length_fips_schedule [OF assms(1)]
    by (simp only: take_Suc_conv_app_nth)
qed

lemma msch16_upto:
  assumes "length M = 16" and "length W = 64" and "i + 32 \<le> 64" and "n \<le> 16"
    and "take (i + 16) W = take (i + 16) (fips_schedule M)"
  shows "length (foldl (\<lambda>W j. MSCH W j i) W [0..<n]) = 64 \<and>
    take (i + 16 + n) (foldl (\<lambda>W j. MSCH W j i) W [0..<n]) = take (i + 16 + n) (fips_schedule M)"
  using assms(4)
proof (induction n)
  case 0
  then show ?case using assms by simp
next
  case (Suc n)
  let ?W = "foldl (\<lambda>W j. MSCH W j i) W [0..<n]"
  have "take (Suc (i + n + 16)) (MSCH ?W n i) = take (Suc (i + n + 16)) (fips_schedule M)"
    using Suc assms by (intro MSCH_prefix) (auto simp: ac_simps)
  moreover have "length (MSCH ?W n i) = 64" using Suc by (simp add: MSCH_def)
  ultimately show ?case by (simp add: ac_simps)
qed

lemma msch16_prefix:
  assumes "length M = 16" and "length W = 64" and "i + 32 \<le> 64"
    and "take (i + 16) W = take (i + 16) (fips_schedule M)"
  shows "length (sha256_msch16 W i) = 64"
    and "take (i + 32) (sha256_msch16 W i) = take (i + 32) (fips_schedule M)"
  using msch16_upto [OF assms(1-3) order_refl assms(4)]
  by (simp_all add: sha256_msch16_def add.commute [of i])

lemma mix_fips:
  assumes "length M = 16" and "length S = 8" and "length W = 64" and "i \<in> {0, 16, 32, 48}"
    and "take (i + 16) W = take (i + 16) (fips_schedule M)"
  shows "length (sha256_mix S W i) = 8 \<and>
    regs_at 0 (sha256_mix S W i) = foldl (fips_round (fips_schedule M)) (regs_at 0 S) [i..<64]"
  using assms(2-)
proof (induction S W i rule: sha256_mix.induct)
  case (1 S W i)
  let ?S = "sha256_rounds16 S W i" and ?F = "fips_schedule M"
  have "W ! t = ?F ! t" if "t < i + 16" for t
    using that "1.prems"(4) by (metis nth_take)
  then have regs: "regs_at 0 ?S = foldl (fips_round ?F) (regs_at 0 S) [i..<i + 16]"
    using rounds16_fips(2) [OF "1.prems"(1), of W i] fips_rounds_cong [of "[i..<i + 16]" W ?F] by simp
  show ?case
  proof (cases "i = 48")
    case True
    then have "sha256_mix S W i = ?S" and "[i..<i + 16] = [i..<64]"
      by (simp_all add: sha256_mix.simps [of S W 48] Let_def)
    then show ?thesis
      using regs rounds16_fips(1) [OF "1.prems"(1), of W i] by simp
  next
    case False
    with "1.prems" have i: "i < 64" "i + 32 \<le> 64" "i + 16 \<in> {0, 16, 32, 48}" by auto
    have "length (sha256_mix ?S (sha256_msch16 W i) (i + 16)) = 8 \<and>
        regs_at 0 (sha256_mix ?S (sha256_msch16 W i) (i + 16))
          = foldl (fips_round ?F) (regs_at 0 ?S) [i + 16..<64]"
      using "1.IH" [OF i(1) refl False] rounds16_fips(1) [OF "1.prems"(1), of W i]
        msch16_prefix [OF assms(1) "1.prems"(2) i(2) "1.prems"(4)] i(3) by (simp add: ac_simps)
    moreover have "[i..<64] = [i..<i + 16] @ [i + 16..<64]"
      using upt_add_eq_append [of i "i + 16" "48 - i"] i by simp
    ultimately show ?thesis
      using False i(1) regs by (simp add: sha256_mix.simps [of S W i] Let_def)
  qed
qed

lemma be32dec_vect_words:
  "8 * n \<le> length src \<Longrightarrow> be32dec_vect src n = map (\<lambda>i. le_dec (rev (take 4 (drop (4 * i) src)))) [0..<2 * n]"
proof (induction n arbitrary: src)
  case (Suc n)
  have "[0..<2 * Suc n] = 0 # 1 # map (\<lambda>i. i + 2) [0..<2 * n]"
    by (rule nth_equalityI) (auto simp: nth_Cons nth_append split: nat.split)
  with Suc show ?case by (simp add: be32dec_le_dec algebra_simps)
qed simp

lemma SHA256_Transform_fips:
  assumes "length st = 8" and "64 \<le> length block"
  shows "SHA256_Transform st block = fips_compress st block"
proof -
  define M where "M = map (\<lambda>i. le_dec (rev (take 4 (drop (4 * i) block))) :: u32) [0..<16]"
  have dec: "be32dec_vect block 8 = M" and lenM: "length M = 16"
    using be32dec_vect_words [of 8 block] assms(2) by (simp_all add: M_def)
  let ?S = "sha256_mix st (M @ replicate 48 0) 0"
  have "take 16 (fips_schedule M) = M"
    using fips_schedule_prefix [OF lenM, of 16] by (simp add: fips_schedule_upto_def)
  then have mix: "length ?S = 8"
    "regs_at 0 ?S = foldl (fips_round (fips_schedule M)) (regs_at 0 st) [0..<64]"
    using mix_fips [OF lenM assms(1), of "M @ replicate 48 0" 0] lenM by simp_all
  obtain a b c d e f g h where S: "?S = [a, b, c, d, e, f, g, h]"
    using mix(1) by (rule list8_cases)
  obtain a' b' c' d' e' f' g' h' where st: "st = [a', b', c', d', e', f', g', h']"
    using assms(1) by (rule list8_cases)
  have "regs_at 0 ?S = (a, b, c, d, e, f, g, h)" "regs_at 0 st = fips_regs_of st"
    unfolding S by (simp_all add: regs_at_def st)
  with mix(2) have "foldl (fips_round (fips_schedule M)) (fips_regs_of st) [0..<64] = (a, b, c, d, e, f, g, h)"
    by (simp only:)
  then show ?thesis
    using S by (simp add: SHA256_Transform_def fips_compress_def dec M_def [symmetric] Let_def
        st del: upt_rec_numeral)
qed

section \<open>The incremental hash refines block absorption\<close>

lemma be32dec_vect_take: "be32dec_vect (take (8 * n) src) n = be32dec_vect src n"
proof (induction n arbitrary: src)
  case (Suc n)
  have "drop 8 (take (8 + 8 * n) src) = take (8 * n) (drop 8 src)"
    by (simp add: drop_take)
  moreover have "be32dec (take (8 + 8 * n) src) = be32dec src"
    "be32dec (drop 4 (take (8 + 8 * n) src)) = be32dec (drop 4 src)"
    by (simp_all add: be32dec_def drop_take)
  ultimately show ?case using Suc.IH [of "drop 8 src"] by simp
qed simp

lemma SHA256_Transform_take: "SHA256_Transform st (take 64 block) = SHA256_Transform st block"
  using be32dec_vect_take [of 8 block] by (simp add: SHA256_Transform_def)

lemma length_SHA256_Transform [simp]: "length (SHA256_Transform st block) = 8"
  by (simp add: SHA256_Transform_def Let_def)

lemma sha256_whole_blocks_absorb:
  "sha256_whole_blocks st src = absorb_blocks 64 SHA256_Transform st src"
proof (induction st src rule: sha256_whole_blocks.induct)
  case (1 st src)
  then show ?case
    by (simp add: sha256_whole_blocks.simps [of st src]
        absorb_blocks.simps [of 64 SHA256_Transform st src] SHA256_Transform_take)
qed

lemma length_initial_state [simp]: "length initial_state = 8"
  by (simp add: initial_state_def)

lemma sha256_fill_mod: "sha256_fill ctx = (unat (count ctx) div 8) mod 64"
  using unat_bit_field [of 3 "count ctx" 6] by (simp add: sha256_fill_def mask_eq_exp_minus_1)

lemma sha256_fill_less [simp]: "sha256_fill ctx < 64"
  by (simp add: sha256_fill_mod)

lemma sha256_fill_le [simp]: "sha256_fill ctx \<le> 64"
  by (rule less_imp_le) simp

lemma sha256_fill_add:
  "sha256_fill (ctx\<lparr>count := count ctx + push_bit 3 (of_nat n)\<rparr>) = (sha256_fill ctx + n) mod 64"
proof -
  have "sha256_fill (ctx\<lparr>count := count ctx + push_bit 3 (of_nat n)\<rparr>)
      = (((unat (count ctx) + 8 * n) mod 2 ^ 64) div 2 ^ 3) mod 2 ^ 6"
    by (simp add: sha256_fill_mod unat_add_push_bit)
  also have "\<dots> = ((unat (count ctx) + 8 * n) div 2 ^ 3) mod 2 ^ 6"
    by (rule div_mod_pow2_mod) simp
  also have "(unat (count ctx) + 8 * n) div 2 ^ 3 = unat (count ctx) div 8 + n"
    by simp
  finally show ?thesis by (simp add: sha256_fill_mod mod_add_left_eq)
qed

text \<open>What the rest of the computation can see of a context: the chaining value, the
  buffered bytes and the bit count, but not the stale rest of the buffer.\<close>

definition sha256_inv :: "SHA256_CTX \<Rightarrow> bool" where
  "sha256_inv ctx \<longleftrightarrow> length (state ctx) = 8 \<and> length (buf ctx) = 64"

definition sha256_view :: "SHA256_CTX \<Rightarrow> u32 list \<times> bytes \<times> u64" where
  "sha256_view ctx = (state ctx, take (sha256_fill ctx) (buf ctx), count ctx)"

fun sha256_absorb :: "u32 list \<times> bytes \<times> u64 \<Rightarrow> bytes \<Rightarrow> u32 list \<times> bytes \<times> u64" where
  "sha256_absorb (st, t, c) d =
     (let (st', t') = absorb_blocks 64 SHA256_Transform st (t @ d)
      in (st', t', c + push_bit 3 (of_nat (length d))))"

lemma sha256_view_tail_length:
  "sha256_inv ctx \<Longrightarrow> length (take (sha256_fill ctx) (buf ctx)) = sha256_fill ctx"
  using sha256_fill_less [of ctx] by (simp add: sha256_inv_def)

lemma sha256_fill_cong: "count c = count c' \<Longrightarrow> sha256_fill c = sha256_fill c'"
  by (simp add: sha256_fill_mod)

lemma sha256_fill_updates [simp]:
  "sha256_fill (ctx\<lparr>buf := b\<rparr>) = sha256_fill ctx"
  "sha256_fill (ctx\<lparr>state := st\<rparr>) = sha256_fill ctx"
  by (rule sha256_fill_cong; simp)+

lemma SHA256_Update_view:
  assumes "sha256_inv ctx"
  shows "sha256_inv (SHA256_Update ctx d)"
    and "sha256_view (SHA256_Update ctx d) = sha256_absorb (sha256_view ctx) d"
proof -
  let ?r = "sha256_fill ctx" and ?t = "take (sha256_fill ctx) (buf ctx)"
  let ?c = "ctx\<lparr>count := count ctx + push_bit 3 (of_nat (length d))\<rparr>"
  have r: "?r < 64" "?r \<le> length (buf ctx)" "length ?t = ?r"
    using assms sha256_fill_less [of ctx] by (simp_all add: sha256_inv_def)
  have "sha256_inv (SHA256_Update ctx d) \<and>
    sha256_view (SHA256_Update ctx d) = sha256_absorb (sha256_view ctx) d"
  proof (cases "length d < 64 - ?r")
    case True
    then have fill: "sha256_fill ?c = ?r + length d" using sha256_fill_add [of ctx "length d"] by simp
    have upd: "SHA256_Update ctx d = ?c\<lparr>buf := memcpy_at (buf ctx) ?r d\<rparr>"
      by (simp add: SHA256_Update_def Let_def True)
    show ?thesis
      using assms True r fill by (simp add: upd sha256_inv_def sha256_view_def take_memcpy_at)
  next
    case False
    define b where "b = ?t @ take (64 - ?r) d"
    obtain st rest where ab: "absorb_blocks 64 SHA256_Transform (state ctx) (?t @ d) = (st, rest)"
      by fastforce
    have len: "length b = 64" using False r by (simp add: b_def)
    have split: "?t @ d = b @ drop (64 - ?r) d" by (simp add: b_def)
    have whole: "sha256_whole_blocks (SHA256_Transform (state ctx) b) (drop (64 - ?r) d) = (st, rest)"
      using ab len by (simp add: split absorb_blocks_step sha256_whole_blocks_absorb)
    have copy: "memcpy_at (buf ctx) ?r (take (64 - ?r) d) = b"
      using assms False r by (simp add: b_def memcpy_at_full sha256_inv_def)
    have upd: "SHA256_Update ctx d = ?c\<lparr>state := st, buf := memcpy_at b 0 rest\<rparr>"
      using False r(1) by (auto simp: SHA256_Update_def Let_def copy whole)
    have rest: "length rest < 64" "length rest = (?r + length d) mod 64"
      using absorb_blocks_rest [OF _ ab] r by simp_all
    have fill: "sha256_fill ?c = length rest" using sha256_fill_add [of ctx "length d"] rest by simp
    have "length st = 8"
      using absorb_blocks_inv [of "\<lambda>s. length s = 8" "state ctx" 64 SHA256_Transform "?t @ d"] ab assms
      by (simp add: sha256_inv_def)
    then show ?thesis
      using rest fill len ab
      by (simp add: upd sha256_inv_def sha256_view_def memcpy_at_zero)
  qed
  then show "sha256_inv (SHA256_Update ctx d)"
    and "sha256_view (SHA256_Update ctx d) = sha256_absorb (sha256_view ctx) d"
    by simp_all
qed

text \<open>The bytes appended to a message of which \<open>r\<close> bytes are in the last, incomplete block.\<close>

definition sha256_padding :: "nat \<Rightarrow> u64 \<Rightarrow> bytes" where
  "sha256_padding r c = 0x80 # replicate ((119 - r) mod 64) 0 @ be64enc c"

lemma take_PAD: "0 < n \<Longrightarrow> n \<le> 64 \<Longrightarrow> take n PAD = 0x80 # replicate (n - 1) 0"
  by (cases n) (simp_all add: PAD_def)

lemma absorb_last_block:
  "length b = 64 \<Longrightarrow> absorb_blocks 64 SHA256_Transform st b = (SHA256_Transform st b, [])"
  using absorb_blocks_step [of 64 b SHA256_Transform st "[]"] by simp

lemma SHA256_Pad_state:
  assumes "sha256_inv ctx"
  defines "r \<equiv> sha256_fill ctx"
  shows "state (SHA256_Pad ctx) =
    fst (absorb_blocks 64 SHA256_Transform (state ctx) (take r (buf ctx) @ sha256_padding r (count ctx)))"
proof -
  let ?t = "take r (buf ctx)"
  have r: "r < 64" "length (buf ctx) = 64" "length ?t = r"
    using assms(1) by (simp_all add: r_def sha256_inv_def)
  show ?thesis
  proof (cases "r < 56")
    case True
    let ?p = "take (56 - r) PAD"
    have p: "?p = 0x80 # replicate (55 - r) 0" using True by (simp add: take_PAD)
    have "(119 - r) mod 64 = 55 - r" using True by (simp add: mod_if)
    then have pad: "sha256_padding r (count ctx) = ?p @ be64enc (count ctx)"
      by (simp add: sha256_padding_def p)
    have "memcpy_at (memcpy_at (buf ctx) r ?p) 56 (be64enc (count ctx)) = ?t @ ?p @ be64enc (count ctx)"
      using True r take_memcpy_at [of r "buf ctx" ?p] by (simp add: memcpy_at_full p)
    then show ?thesis
      using True r by (simp add: SHA256_Pad_def Let_def r_def [symmetric] pad absorb_last_block p)
  next
    case False
    let ?p = "take (64 - r) PAD" and ?z = "replicate 56 0 :: bytes"
    have p: "?p = 0x80 # replicate (63 - r) 0" using r by (simp add: take_PAD)
    have "(119 - r) mod 64 = (63 - r) + 56" using False r by (simp add: mod_if)
    then have pad: "sha256_padding r (count ctx) = ?p @ ?z @ be64enc (count ctx)"
      unfolding sha256_padding_def p by (simp only: replicate_add) simp
    have b: "memcpy_at (buf ctx) r ?p = ?t @ ?p"
      using r by (simp add: memcpy_at_full p)
    have "memcpy_at (memcpy_at (?t @ ?p) 0 ?z) 56 (be64enc (count ctx)) = ?z @ be64enc (count ctx)"
      using r by (simp add: memcpy_at_def p)
    moreover have "absorb_blocks 64 SHA256_Transform (state ctx) ((?t @ ?p) @ ?z @ be64enc (count ctx))
        = (SHA256_Transform (SHA256_Transform (state ctx) (?t @ ?p)) (?z @ be64enc (count ctx)), [])"
      using r by (subst absorb_blocks_step) (simp_all add: p absorb_last_block)
    ultimately show ?thesis
      using False r by (simp add: SHA256_Pad_def Let_def r_def [symmetric] pad b)
  qed
qed

fun sha256_finish :: "u32 list \<times> bytes \<times> u64 \<Rightarrow> bytes" where
  "sha256_finish (st, t, c) =
     be32enc_vect (fst (absorb_blocks 64 SHA256_Transform st (t @ sha256_padding (length t) c))) 4"

lemma SHA256_Final_finish:
  "sha256_inv ctx \<Longrightarrow> fst (SHA256_Final' ctx) = sha256_finish (sha256_view ctx)"
  by (simp add: SHA256_Final'_def Let_def SHA256_Pad_state sha256_view_def)
    (simp add: sha256_inv_def min_absorb2)

interpretation sha: stream_hash sha256_inv sha256_view sha256_absorb SHA256_Update "fst \<circ> SHA256_Final'"
proof
  fix c d e
  assume inv: "sha256_inv c"
  show "sha256_inv (SHA256_Update c d)" and "sha256_view (SHA256_Update c d) = sha256_absorb (sha256_view c) d"
    using inv by (rule SHA256_Update_view)+
  obtain st t cnt where v: "sha256_view c = (st, t, cnt)" by (rule prod_cases3)
  have "length t < 64" using inv v sha256_view_tail_length [of c] by (auto simp: sha256_view_def)
  then show "sha256_absorb (sha256_view c) [] = sha256_view c" by (simp add: v)
  obtain st' t' where a: "absorb_blocks 64 SHA256_Transform st (t @ d) = (st', t')" by fastforce
  then have "absorb_blocks 64 SHA256_Transform st (t @ d @ e) = absorb_blocks 64 SHA256_Transform st' (t' @ e)"
    using absorb_blocks_append [of 64 SHA256_Transform st "t @ d" st' t' e] by simp
  then show "sha256_absorb (sha256_absorb (sha256_view c) d) e = sha256_absorb (sha256_view c) (d @ e)"
    by (simp add: v a push_bit_add ac_simps split: prod.splits)
next
  fix c c'
  assume "sha256_inv c" "sha256_inv c'" "sha256_view c = sha256_view c'"
  then show "(fst \<circ> SHA256_Final') c = (fst \<circ> SHA256_Final') c'"
    by (simp add: SHA256_Final_finish)
qed

text \<open>The message digest of FIPS 180-4, section 6.2, on byte strings.\<close>

definition fips_sha256 :: "bytes \<Rightarrow> bytes" where
  "fips_sha256 m =
     concat (map (\<lambda>w. rev (le_enc 4 w)) (fst (absorb_blocks 64 fips_compress initial_state
       (m @ 0x80 # replicate ((119 - length m mod 64) mod 64) 0 @ rev (le_enc 8 (of_nat (8 * length m) :: u64))))))"

lemma absorb_Transform_fips:
  "length st = 8 \<Longrightarrow> absorb_blocks 64 SHA256_Transform st xs = absorb_blocks 64 fips_compress st xs"
proof (induction "64 :: nat" SHA256_Transform st xs rule: absorb_blocks.induct)
  case (1 st xs)
  then show ?case
    by (cases "length xs < 64")
      (simp_all add: absorb_blocks.simps [of 64 _ st xs] SHA256_Transform_fips [symmetric])
qed

lemma be32enc_vect_concat:
  "length src = 2 * n \<Longrightarrow> be32enc_vect src n = concat (map be32enc src)"
proof (induction n arbitrary: src)
  case (Suc n)
  then obtain a b r where "src = a # b # r" "length r = 2 * n"
    by (auto simp: length_Suc_conv)
  with Suc.IH [of r] show ?case by simp
qed simp

lemma SHA256_Init_view:
  assumes "length (buf stack) = 64"
  shows "sha256_inv (SHA256_Init stack)" and "sha256_view (SHA256_Init stack) = (initial_state, [], 0)"
  using assms by (simp_all add: SHA256_Init_def sha256_inv_def sha256_view_def initial_state_def sha256_fill_mod)

lemma sha256_finish_absorb:
  "sha256_finish (sha256_absorb (initial_state, [], 0) m) = fips_sha256 m"
proof -
  obtain st t where a: "absorb_blocks 64 SHA256_Transform initial_state m = (st, t)" by fastforce
  have "length t = length m mod 64"
    using absorb_blocks_rest [OF _ a] by simp
  moreover have "push_bit 3 (of_nat (length m)) = (of_nat (8 * length m) :: u64)"
    by (simp add: push_bit_eq_mult)
  moreover have len: "length (fst (absorb_blocks 64 SHA256_Transform initial_state xs)) = 8" for xs
    by (rule absorb_blocks_inv) simp_all
  ultimately show ?thesis
    using absorb_blocks_append [OF _ a, symmetric]
    by (simp add: a fips_sha256_def sha256_padding_def be32enc_vect_concat be32enc_le_enc [abs_def]
        be64enc_le_enc absorb_Transform_fips [symmetric] del: of_nat_mult)
qed

declare sha256_absorb.simps [simp del] sha256_finish.simps [simp del]

section \<open>Properties\<close>

text \<open>
  The compression function, with its rotating register file and its message schedule
  interleaved with the rounds, computes the FIPS 180-4 compression of the block.
\<close>

theorem SHA256_Transform_correct:
  assumes "length st = 8" and "64 \<le> length block"
  shows "SHA256_Transform st block = fips_compress st block"
  using assms by (rule SHA256_Transform_fips)

theorem SHA256_Transform_correct_witness:
  "SHA256_Transform initial_state (replicate 70 5) = fips_compress initial_state (replicate 70 5)"
  by (rule SHA256_Transform_correct) simp_all

text \<open>
  C3. Streaming: hashing a message in any sequence of updates gives the FIPS 180-4 digest of
  the concatenation; the cut points and the initial content of the context do not matter, and the
  one-shot routine writes the same. The state of the finished context still holds the digest.
\<close>

theorem SHA256_streaming_correct:
  assumes "length (buf stack) = 64"
  shows "fst (SHA256_Final (foldl SHA256_Update (SHA256_Init stack) chunks)) = fips_sha256 (concat chunks)
    \<and> be32enc_vect (state (snd (SHA256_Final (foldl SHA256_Update (SHA256_Init stack) chunks)))) 4 = fips_sha256 (concat chunks)
    \<and> SHA256_Buf stack (concat chunks) = fips_sha256 (concat chunks)"
proof -
  have digest: "fst (SHA256_Final' (foldl SHA256_Update (SHA256_Init stack) ds)) = fips_sha256 (concat ds)" for ds
    using assms SHA256_Init_view [of stack] sha.chunking [of "SHA256_Init stack" ds]
    by (simp add: SHA256_Final_finish sha.inv_update sha.view_update sha256_finish_absorb)
  then have kept: "be32enc_vect (state (snd (SHA256_Final' (foldl SHA256_Update (SHA256_Init stack) ds)))) 4 = fips_sha256 (concat ds)"
    for ds by (simp add: SHA256_Final'_def Let_def)
  show ?thesis using digest [of chunks] digest [of "[concat chunks]"] kept [of chunks]
    by (simp add: SHA256_Final_def SHA256_Buf_def)
qed

theorem SHA256_streaming_correct_witness:
  "fst (SHA256_Final (foldl SHA256_Update
      (SHA256_Init \<lparr>state = [], count = 3, buf = replicate 64 9\<rparr>) [[1], [], [2, 3]]))
    = fips_sha256 [1, 2, 3]"
  using SHA256_streaming_correct [of "\<lparr>state = [], count = 3, buf = replicate 64 9\<rparr>" "[[1], [], [2, 3]]"]
  by simp

end
