(* ===== verification/Pbkdf2.thy ===== *)
theory Pbkdf2
  imports Sha256
begin

text \<open>
  HMAC-SHA-256 and PBKDF2-HMAC-SHA-256, the second half of
  \<^verbatim>\<open>xmrig/crypto/randomx/panthera/sha256.c\<close>: the contexts and operations, the reference
  functions of FIPS 198-1 and RFC 8018, and the proof that the incremental HMAC and both
  paths of \<open>PBKDF2_SHA256\<close> (the prepared-block fast path for one iteration and the generic
  path) compute them, whatever the stack held before the call.
\<close>

section \<open>HMAC-SHA-256\<close>

record HMAC_SHA256_CTX =
  ictx :: SHA256_CTX
  octx :: SHA256_CTX

text \<open>The loop \<^verbatim>\<open>pad[i] ^= K[i]\<close> over a 64-byte pad filled with the byte \<open>c\<close>.\<close>

definition hmac_pad :: "byte \<Rightarrow> bytes \<Rightarrow> bytes" where
  "hmac_pad c K = memcpy_at (replicate 64 c) 0 (map (\<lambda>k. c XOR k) K)"

definition HMAC_SHA256_Init :: "HMAC_SHA256_CTX \<Rightarrow> bytes \<Rightarrow> HMAC_SHA256_CTX" where
  "HMAC_SHA256_Init ctx K =
     (let (K', ic) = (if 64 < length K
                      then SHA256_Final' (SHA256_Update (SHA256_Init (ictx ctx)) K)
                      else (K, ictx ctx))
      in ctx\<lparr>ictx := SHA256_Update (SHA256_Init ic) (hmac_pad 0x36 K'),
             octx := SHA256_Update (SHA256_Init (octx ctx)) (hmac_pad 0x5c K')\<rparr>)"

definition HMAC_SHA256_Update :: "HMAC_SHA256_CTX \<Rightarrow> bytes \<Rightarrow> HMAC_SHA256_CTX" where
  "HMAC_SHA256_Update ctx d = ctx\<lparr>ictx := SHA256_Update (ictx ctx) d\<rparr>"

definition HMAC_SHA256_Final' :: "HMAC_SHA256_CTX \<Rightarrow> bytes \<times> HMAC_SHA256_CTX" where
  "HMAC_SHA256_Final' ctx =
     (let (ihash, ic) = SHA256_Final' (ictx ctx);
          (digest, oc) = SHA256_Final' (SHA256_Update (octx ctx) ihash)
      in (digest, ctx\<lparr>ictx := ic, octx := oc\<rparr>))"

definition HMAC_SHA256_Buf :: "HMAC_SHA256_CTX \<Rightarrow> bytes \<Rightarrow> bytes \<Rightarrow> bytes" where
  "HMAC_SHA256_Buf stack K d =
     fst (HMAC_SHA256_Final' (HMAC_SHA256_Update (HMAC_SHA256_Init stack K) d))"

section \<open>PBKDF2\<close>

text \<open>
  \<open>SHA256_Pad_Almost\<close> completes the last block of a context in its buffer without running
  the compression function; \<open>None\<close> is the return value \<open>-1\<close>, with the context unchanged.
\<close>

definition SHA256_Pad_Almost :: "SHA256_CTX \<Rightarrow> SHA256_CTX option" where
  "SHA256_Pad_Almost ctx =
     (let r = sha256_fill ctx
      in if 56 \<le> r then None
         else let len = be64enc (count ctx);
                  ctx1 = SHA256_Update ctx (take (56 - r) PAD);
                  ctx2 = ctx1\<lparr>buf := (buf ctx1)[63 := len ! 7]\<rparr>
              in Some (SHA256_Update ctx2 (take 7 len)))"

text \<open>
  The fast path: the inner and the outer context hold a complete last block each; every
  output block patches the block counter at \<open>off\<close> and the inner digest at the front of the
  outer block, and runs the two compressions on copies of the chaining values.
\<close>

function pbkdf2_fast_loop :: "SHA256_CTX \<Rightarrow> SHA256_CTX \<Rightarrow> nat \<Rightarrow> nat \<Rightarrow> nat \<Rightarrow> bytes" where
  "pbkdf2_fast_loop ic oc off dkLen i =
     (if i * 32 < dkLen then
        let ic' = ic\<lparr>buf := memcpy_at (buf ic) off (be32enc (of_nat (i + 1)))\<rparr>;
            u = SHA256_Transform (state ic') (buf ic');
            oc' = oc\<lparr>buf := memcpy_at (buf oc) 0 (be32enc_vect u 4)\<rparr>;
            u' = SHA256_Transform (state oc') (buf oc')
        in be32enc_vect u' 4 @ pbkdf2_fast_loop ic' oc' off dkLen (i + 1)
      else [])"
  by pat_completeness auto
termination
  by (relation "measure (\<lambda>(ic, oc, off, dkLen, i). dkLen - i)") auto

declare pbkdf2_fast_loop.simps [simp del]

definition pbkdf2_fast :: "HMAC_SHA256_CTX \<Rightarrow> bytes \<Rightarrow> bytes \<Rightarrow> nat \<Rightarrow> bytes option" where
  "pbkdf2_fast stack passwd salt dkLen =
     (let hctx = HMAC_SHA256_Update (HMAC_SHA256_Init stack passwd) salt;
          oldcount = ucast (count (ictx hctx) AND push_bit 3 0x3f) :: u32;
          hctx1 = HMAC_SHA256_Update hctx [0, 0, 0, 0]
      in if (count (ictx hctx1) AND push_bit 3 0x3f) < ucast oldcount then None
         else case SHA256_Pad_Almost (ictx hctx1) of
           None \<Rightarrow> None
         | Some ic \<Rightarrow>
             let oc0 = (octx hctx1)\<lparr>count := count (octx hctx1) + push_bit 3 32\<rparr>;
                 oc = (case SHA256_Pad_Almost oc0 of None \<Rightarrow> oc0 | Some c \<Rightarrow> c)
             in Some (pbkdf2_fast_loop ic oc (unat (drop_bit 3 oldcount)) dkLen 0))"

text \<open>
  The loop over \<open>j = 2, ..., c\<close> counts in a 64-bit variable and compares with \<open>\<le>\<close>; for the
  largest \<open>c\<close> the comparison never fails, so the loop is a partial function.
\<close>

partial_function (option) pbkdf2_xor_loop ::
  "HMAC_SHA256_CTX \<Rightarrow> u64 \<Rightarrow> u64 \<Rightarrow> bytes \<Rightarrow> bytes \<Rightarrow> bytes option" where
  "pbkdf2_xor_loop Ph c j U T =
     (if j \<le> c then
        let U' = fst (HMAC_SHA256_Final' (HMAC_SHA256_Update Ph U))
        in pbkdf2_xor_loop Ph c (j + 1) U' (map2 (XOR) T U')
      else Some T)"

function pbkdf2_generic_loop ::
  "HMAC_SHA256_CTX \<Rightarrow> HMAC_SHA256_CTX \<Rightarrow> u64 \<Rightarrow> nat \<Rightarrow> nat \<Rightarrow> bytes option" where
  "pbkdf2_generic_loop Ph PSh c dkLen i =
     (if i * 32 < dkLen then
        let ivec = be32enc (of_nat (i + 1));
            T = fst (HMAC_SHA256_Final' (HMAC_SHA256_Update PSh ivec))
        in case (if 1 < c then pbkdf2_xor_loop Ph c 2 T T else Some T) of
             None \<Rightarrow> None
           | Some T' \<Rightarrow>
               let clen = dkLen - i * 32;
                   clen' = (if 32 < clen then 32 else clen)
               in map_option (\<lambda>rest. take clen' T' @ rest)
                    (pbkdf2_generic_loop Ph PSh c dkLen (i + 1))
      else Some [])"
  by pat_completeness auto
termination
  by (relation "measure (\<lambda>(Ph, PSh, c, dkLen, i). dkLen - i)") auto

declare pbkdf2_generic_loop.simps [simp del]

definition pbkdf2_generic ::
  "HMAC_SHA256_CTX \<Rightarrow> bytes \<Rightarrow> bytes \<Rightarrow> u64 \<Rightarrow> nat \<Rightarrow> bytes option" where
  "pbkdf2_generic stack passwd salt c dkLen =
     (let Ph = HMAC_SHA256_Init stack passwd;
          PSh = HMAC_SHA256_Update Ph salt
      in pbkdf2_generic_loop Ph PSh c dkLen 0)"

text \<open>
  \<open>None\<close> stands for a call that does not return: the assertion on \<open>dkLen\<close> aborts, or the
  loop over \<open>j\<close> does not end. The output buffer has exactly \<open>dkLen\<close> bytes. \<open>hstack\<close> and
  \<open>pstack\<close> are the uninitialised stack contexts \<open>hctx\<close> and \<open>Phctx\<close>.
\<close>

definition PBKDF2_SHA256 ::
  "HMAC_SHA256_CTX \<Rightarrow> HMAC_SHA256_CTX \<Rightarrow> bytes \<Rightarrow> bytes \<Rightarrow> u64 \<Rightarrow> nat \<Rightarrow> bytes option" where
  "PBKDF2_SHA256 hstack pstack passwd salt c dkLen =
     (if 32 * (2 ^ 32 - 1) < dkLen then None
      else if c = 1 \<and> dkLen mod 32 = 0 \<and> length salt mod 64 \<le> 51
      then (case pbkdf2_fast hstack passwd salt dkLen of
              Some out \<Rightarrow> Some out
            | None \<Rightarrow> pbkdf2_generic pstack passwd salt c dkLen)
      else pbkdf2_generic pstack passwd salt c dkLen)"

section \<open>Correctness of HMAC\<close>

definition hmac_key :: "bytes \<Rightarrow> bytes" where
  "hmac_key K = (let K' = (if 64 < length K then fips_sha256 K else K) in K' @ replicate (64 - length K') 0)"

definition hmac_sha256 :: "bytes \<Rightarrow> bytes \<Rightarrow> bytes" where
  "hmac_sha256 K m = fips_sha256 (map (\<lambda>k. k XOR 0x5c) (hmac_key K) @
     fips_sha256 (map (\<lambda>k. k XOR 0x36) (hmac_key K) @ m))"

definition pbkdf2_F :: "bytes \<Rightarrow> bytes \<Rightarrow> nat \<Rightarrow> nat \<Rightarrow> bytes" where
  "pbkdf2_F P S c i =
     (let U1 = hmac_sha256 P (S @ rev (le_enc 4 (of_nat i :: u32)))
      in foldl (map2 (XOR)) U1 (map (\<lambda>j. (hmac_sha256 P ^^ j) U1) [1..<c]))"

definition pbkdf2_spec :: "bytes \<Rightarrow> bytes \<Rightarrow> nat \<Rightarrow> nat \<Rightarrow> bytes" where
  "pbkdf2_spec P S c dkLen = take dkLen (concat (map (pbkdf2_F P S c) [1..<Suc ((dkLen + 31) div 32)]))"


lemma length_fips_sha256 [simp]: "length (fips_sha256 m) = 32"
proof -
  have "length (fst (absorb_blocks 64 SHA256_Transform initial_state xs)) = 8" for xs
    by (rule absorb_blocks_inv) simp_all
  then show ?thesis
    by (simp add: fips_sha256_def absorb_Transform_fips [symmetric] length_concat comp_def sum_list_triv)
qed

lemma sha256_digest:
  assumes "length (buf stack) = 64"
  shows "fst (SHA256_Final' (SHA256_Update (SHA256_Init stack) m)) = fips_sha256 m"
  using assms SHA256_Init_view [of stack]
  by (simp add: SHA256_Final_finish sha.inv_update sha.view_update sha256_finish_absorb)

lemma sha256_finish_absorb_absorb:
  "sha256_finish (sha256_absorb (sha256_absorb (initial_state, [], 0) a) b) = fips_sha256 (a @ b)"
proof -
  let ?c = "SHA256_Init \<lparr>state = [], count = 0, buf = replicate 64 0\<rparr>"
  have c: "sha256_inv ?c" "sha256_view ?c = (initial_state, [], 0)" by (rule SHA256_Init_view; simp)+
  show ?thesis
    using sha.absorb_append [OF c(1), of a b] by (simp add: c(2) sha256_finish_absorb)
qed

text \<open>Both hash contexts of an HMAC context are well formed.\<close>

definition hmac_inv :: "HMAC_SHA256_CTX \<Rightarrow> bool" where
  "hmac_inv ctx \<longleftrightarrow> sha256_inv (ictx ctx) \<and> sha256_inv (octx ctx)"

definition hmac_view :: "HMAC_SHA256_CTX \<Rightarrow> (u32 list \<times> bytes \<times> u64) \<times> (u32 list \<times> bytes \<times> u64)" where
  "hmac_view ctx = (sha256_view (ictx ctx), sha256_view (octx ctx))"

fun hmac_finish :: "(u32 list \<times> bytes \<times> u64) \<times> (u32 list \<times> bytes \<times> u64) \<Rightarrow> bytes" where
  "hmac_finish (iv, ov) = sha256_finish (sha256_absorb ov (sha256_finish iv))"

declare hmac_finish.simps [simp del]

lemma HMAC_Final_finish:
  "hmac_inv ctx \<Longrightarrow> fst (HMAC_SHA256_Final' ctx) = hmac_finish (hmac_view ctx)"
  by (simp add: HMAC_SHA256_Final'_def hmac_inv_def hmac_view_def hmac_finish.simps SHA256_Final_finish [symmetric]
      sha.view_update [symmetric] sha.inv_update split: prod.splits)

interpretation hmac: stream_hash hmac_inv hmac_view "\<lambda>(iv, ov) d. (sha256_absorb iv d, ov)"
  HMAC_SHA256_Update "fst \<circ> HMAC_SHA256_Final'"
  by unfold_locales
    (auto simp: hmac_inv_def hmac_view_def HMAC_SHA256_Update_def sha.inv_update sha.view_update
      sha.absorb_nil sha.absorb_append HMAC_Final_finish [unfolded hmac_inv_def hmac_view_def])

lemma hmac_pad_key:
  "length K' \<le> 64 \<Longrightarrow> hmac_pad c K' = map (\<lambda>k. k XOR c) (K' @ replicate (64 - length K') 0)"
  by (simp add: hmac_pad_def memcpy_at_zero xor.commute)

lemma length_hmac_key [simp]: "length (hmac_key K) = 64"
  by (simp add: hmac_key_def Let_def)

lemma SHA256_Pad_inv: "sha256_inv ctx \<Longrightarrow> sha256_inv (SHA256_Pad ctx)"
  by (simp add: SHA256_Pad_def sha256_inv_def Let_def PAD_def)

lemma HMAC_SHA256_Init_view:
  assumes "length (buf (ictx stack)) = 64" and "length (buf (octx stack)) = 64"
  shows "hmac_inv (HMAC_SHA256_Init stack K)"
    and "hmac_view (HMAC_SHA256_Init stack K) =
      (sha256_absorb (initial_state, [], 0) (map (\<lambda>k. k XOR 0x36) (hmac_key K)),
       sha256_absorb (initial_state, [], 0) (map (\<lambda>k. k XOR 0x5c) (hmac_key K)))"
proof -
  define K' where "K' = (if 64 < length K then fips_sha256 K else K)"
  define ic where "ic = (if 64 < length K
    then snd (SHA256_Final' (SHA256_Update (SHA256_Init (ictx stack)) K)) else ictx stack)"
  have key: "hmac_key K = K' @ replicate (64 - length K') 0" "length K' \<le> 64"
    by (simp_all add: hmac_key_def K'_def)
  have "sha256_inv (SHA256_Init (ictx stack))" using assms by (simp add: SHA256_Init_view)
  then have ic: "length (buf ic) = 64"
    using assms SHA256_Pad_inv [OF sha.inv_update, of "SHA256_Init (ictx stack)" K]
    by (simp add: ic_def SHA256_Final'_def Let_def sha256_inv_def)
  have init: "HMAC_SHA256_Init stack K = stack
      \<lparr>ictx := SHA256_Update (SHA256_Init ic) (map (\<lambda>k. k XOR 0x36) (hmac_key K)),
       octx := SHA256_Update (SHA256_Init (octx stack)) (map (\<lambda>k. k XOR 0x5c) (hmac_key K))\<rparr>"
    using sha256_digest [OF assms(1), of K] hmac_pad_key [OF key(2)]
    by (auto simp: HMAC_SHA256_Init_def K'_def ic_def key(1) split: prod.splits)
  show "hmac_inv (HMAC_SHA256_Init stack K)"
    using ic assms by (simp add: init hmac_inv_def sha.inv_update SHA256_Init_view)
  show "hmac_view (HMAC_SHA256_Init stack K) =
      (sha256_absorb (initial_state, [], 0) (map (\<lambda>k. k XOR 0x36) (hmac_key K)),
       sha256_absorb (initial_state, [], 0) (map (\<lambda>k. k XOR 0x5c) (hmac_key K)))"
    using ic assms by (simp add: init hmac_view_def sha.view_update SHA256_Init_view)
qed

lemma hmac_finish_absorb:
  "hmac_finish (sha256_absorb (sha256_absorb (initial_state, [], 0) (map (\<lambda>k. k XOR 0x36) (hmac_key K))) m,
     sha256_absorb (initial_state, [], 0) (map (\<lambda>k. k XOR 0x5c) (hmac_key K))) = hmac_sha256 K m"
  by (simp only: hmac_finish.simps sha256_finish_absorb_absorb hmac_sha256_def)

lemma hmac_digest:
  assumes "length (buf (ictx stack)) = 64" and "length (buf (octx stack)) = 64"
  shows "fst (HMAC_SHA256_Final' (HMAC_SHA256_Update (HMAC_SHA256_Init stack K) m)) = hmac_sha256 K m"
  using HMAC_SHA256_Init_view [OF assms, of K]
  by (simp add: HMAC_Final_finish hmac.inv_update hmac.view_update hmac_finish_absorb)

section \<open>Correctness of PBKDF2\<close>

lemma SHA256_Update_short:
  "length d < 64 - sha256_fill ctx \<Longrightarrow> SHA256_Update ctx d =
     ctx\<lparr>count := count ctx + push_bit 3 (of_nat (length d)),
         buf := memcpy_at (buf ctx) (sha256_fill ctx) d\<rparr>"
  by (simp add: SHA256_Update_def Let_def)

lemma SHA256_Pad_Almost_Some:
  assumes "sha256_inv ctx" and "sha256_fill ctx < 56"
  shows "\<exists>ctx'. SHA256_Pad_Almost ctx = Some ctx' \<and> state ctx' = state ctx \<and>
    buf ctx' = take (sha256_fill ctx) (buf ctx) @ sha256_padding (sha256_fill ctx) (count ctx)"
proof -
  let ?r = "sha256_fill ctx" and ?len = "be64enc (count ctx)"
  let ?p = "take (56 - ?r) PAD"
  have p: "?p = 0x80 # replicate (55 - ?r) 0" "length ?p = 56 - ?r"
    using assms(2) by (simp_all add: take_PAD)
  define ctx1 where "ctx1 = SHA256_Update ctx ?p"
  have c1: "ctx1 = ctx\<lparr>count := count ctx + push_bit 3 (of_nat (length ?p)), buf := memcpy_at (buf ctx) ?r ?p\<rparr>"
    unfolding ctx1_def by (rule SHA256_Update_short) (use p(2) assms(2) in linarith)
  define ctx2 where "ctx2 = ctx1\<lparr>buf := (buf ctx1)[63 := ?len ! 7]\<rparr>"
  have "sha256_fill ctx2 = (?r + length ?p) mod 64"
    using sha256_fill_add [of ctx "length ?p"] by (simp add: ctx2_def c1)
  then have f2: "sha256_fill ctx2 = 56" using p(2) assms(2) by simp
  have b: "length (buf ctx) = 64" using assms(1) by (simp add: sha256_inv_def)
  have t56: "take 56 (buf ctx1) = take ?r (buf ctx) @ ?p"
    using take_memcpy_at [of ?r "buf ctx" ?p] b p(2) assms(2) by (simp add: c1)
  have l1: "length (buf ctx1) = 64" using b p(2) assms(2) by (simp add: c1)
  then have "buf ctx2 = take 63 (buf ctx1) @ [?len ! 7]"
    by (simp add: ctx2_def upd_conv_take_nth_drop)
  then have "memcpy_at (buf ctx2) 56 (take 7 ?len) = take 56 (buf ctx1) @ take 7 ?len @ [?len ! 7]"
    using l1 by (simp add: memcpy_at_def min_def)
  also have "take 7 ?len @ [?len ! 7] = ?len"
    using take_Suc_conv_app_nth [of 7 ?len] by simp
  finally have b2: "memcpy_at (buf ctx2) 56 (take 7 ?len) = take ?r (buf ctx) @ ?p @ ?len"
    by (simp add: t56)
  have "(119 - ?r) mod 64 = 55 - ?r" using assms(2) by (simp add: mod_if)
  then have "?p @ ?len = sha256_padding ?r (count ctx)"
    by (simp add: sha256_padding_def p(1))
  moreover have "SHA256_Update ctx2 (take 7 ?len) =
      ctx2\<lparr>count := count ctx2 + push_bit 3 (of_nat (length (take 7 ?len))), buf := memcpy_at (buf ctx2) 56 (take 7 ?len)\<rparr>"
    using SHA256_Update_short [of "take 7 ?len" ctx2] f2 by simp
  moreover have "SHA256_Pad_Almost ctx = Some (SHA256_Update ctx2 (take 7 ?len))"
    using assms(2) by (simp add: SHA256_Pad_Almost_def Let_def ctx1_def ctx2_def)
  ultimately show ?thesis
    using b2 by (simp add: ctx2_def c1)
qed

lemma length_sha256_padding:
  assumes "r < 56"
  shows "length (sha256_padding r c) = 64 - r"
proof -
  have "(119 - r) mod 64 = 55 - r" using assms by (simp add: mod_if)
  with assms show ?thesis by (simp add: sha256_padding_def)
qed

lemma sha256_finish_one_block:
  assumes "length t + length d < 56"
  shows "sha256_finish (sha256_absorb (st, t, c) d) = be32enc_vect (SHA256_Transform st
    (t @ d @ sha256_padding (length t + length d) (c + push_bit 3 (of_nat (length d))))) 4"
  using assms
  by (simp add: sha256_absorb.simps sha256_finish.simps absorb_last_block length_sha256_padding)

lemma length_be32enc_vect [simp]: "length (be32enc_vect ws n) = 8 * n"
  by (induction n arbitrary: ws) auto

definition pbkdf2_blocks :: "nat \<Rightarrow> nat" where
  "pbkdf2_blocks dkLen = (dkLen + 31) div 32"

lemma pbkdf2_blocks_less: "i * 32 < dkLen \<longleftrightarrow> i < pbkdf2_blocks dkLen"
  unfolding pbkdf2_blocks_def by linarith

lemma upt_blocks: "i * 32 < dkLen \<Longrightarrow> [i..<pbkdf2_blocks dkLen] = i # [Suc i..<pbkdf2_blocks dkLen]"
  by (simp add: pbkdf2_blocks_less upt_conv_Cons)

lemma pbkdf2_fast_loop_blocks:
  assumes "buf ic = t @ x @ p" and "length x = 4" and "off = length t"
    and "buf oc = y @ q" and "length y = 32"
  shows "pbkdf2_fast_loop ic oc off dkLen i = concat (map (\<lambda>k.
    be32enc_vect (SHA256_Transform (state oc)
      (be32enc_vect (SHA256_Transform (state ic) (t @ be32enc (of_nat (k + 1)) @ p)) 4 @ q)) 4)
    [i..<pbkdf2_blocks dkLen])"
  using assms
proof (induction ic oc off dkLen i arbitrary: x y rule: pbkdf2_fast_loop.induct)
  case (1 ic oc off dkLen i)
  show ?case
  proof (cases "i * 32 < dkLen")
    case False
    then show ?thesis by (simp add: pbkdf2_fast_loop.simps [of ic] pbkdf2_blocks_less)
  next
    case True
    let ?iv = "be32enc (of_nat (i + 1))"
    let ?ic = "ic\<lparr>buf := t @ ?iv @ p\<rparr>"
    let ?d = "be32enc_vect (SHA256_Transform (state ic) (t @ ?iv @ p)) 4"
    let ?oc = "oc\<lparr>buf := ?d @ q\<rparr>"
    have ib: "memcpy_at (buf ic) off ?iv = t @ ?iv @ p"
      using "1.prems" by (simp add: memcpy_at_def)
    have ob: "memcpy_at (buf oc) 0 ?d = ?d @ q"
      using "1.prems" by (simp add: memcpy_at_def)
    have "pbkdf2_fast_loop ?ic ?oc off dkLen (i + 1) = concat (map (\<lambda>k.
        be32enc_vect (SHA256_Transform (state oc)
          (be32enc_vect (SHA256_Transform (state ic) (t @ be32enc (of_nat (k + 1)) @ p)) 4 @ q)) 4)
        [i + 1..<pbkdf2_blocks dkLen])"
      using "1.IH" [OF True, of ?ic _ ?oc _ ?iv ?d] ib ob "1.prems"(3) by simp
    then show ?thesis
      unfolding upt_blocks [OF True] pbkdf2_fast_loop.simps [of ic oc off dkLen i]
      using True by (simp add: ib [simplified] ob [simplified] Let_def)
  qed
qed

lemma pbkdf2_xor_loop_spec:
  assumes "hmac_inv Ph" and "\<And>m. hmac_finish (hmac_view (HMAC_SHA256_Update Ph m)) = H m"
    and "unat c < 2 ^ 64 - 1" and "unat c + 1 - unat j = n" and "unat j \<le> unat c + 1"
  shows "pbkdf2_xor_loop Ph c j U T = Some (foldl (map2 (XOR)) T (map (\<lambda>k. (H ^^ k) U) [1..<Suc n]))"
  using assms(4,5)
proof (induction n arbitrary: j U T)
  case 0
  then have "\<not> j \<le> c" by (simp add: word_le_nat_alt)
  with 0 show ?case by (simp add: pbkdf2_xor_loop.simps [of Ph c j])
next
  case (Suc n)
  have jc: "j \<le> c" using Suc.prems by (simp add: word_le_nat_alt)
  have "unat j + unat (1 :: u64) < 2 ^ LENGTH(64)" using jc assms(3) by (simp add: word_le_nat_alt)
  then have uj: "unat (j + 1) = unat j + 1" by (simp add: unat_add_lem [THEN iffD1])
  have HU: "fst (HMAC_SHA256_Final' (HMAC_SHA256_Update Ph U)) = H U"
    using assms(1,2) by (simp add: HMAC_Final_finish hmac.inv_update)
  have pow: "(H ^^ k) (H U) = (H ^^ Suc k) U" for k
    by (simp only: funpow_Suc_right comp_def)
  have up: "[Suc 0..<Suc (Suc n)] = Suc 0 # map Suc [Suc 0..<Suc n]"
    by (simp add: upt_conv_Cons map_Suc_upt del: upt_Suc)
  have "pbkdf2_xor_loop Ph c (j + 1) (H U) (map2 (XOR) T (H U))
      = Some (foldl (map2 (XOR)) (map2 (XOR) T (H U)) (map (\<lambda>k. (H ^^ k) (H U)) [1..<Suc n]))"
    by (rule Suc.IH) (use Suc.prems uj in simp_all)
  then show ?case
    using jc by (simp add: pbkdf2_xor_loop.simps [of Ph c j] HU up pow comp_def del: upt_Suc)
qed

lemma length_hmac_sha256 [simp]: "length (hmac_sha256 K m) = 32"
  by (simp add: hmac_sha256_def)

lemma length_foldl_xor:
  "length T = n \<Longrightarrow> (\<And>U. U \<in> set Us \<Longrightarrow> length U = n) \<Longrightarrow> length (foldl (map2 (XOR)) T Us) = n"
  by (induction Us arbitrary: T) auto

lemma length_pbkdf2_F [simp]: "length (pbkdf2_F P S c i) = 32"
proof -
  have "length ((hmac_sha256 P ^^ j) m) = 32" if "1 \<le> j" for j m
    using that by (cases j) auto
  then show ?thesis
    unfolding pbkdf2_F_def Let_def by (intro length_foldl_xor) auto
qed

lemma pbkdf2_generic_loop_spec:
  assumes blk: "\<And>i. (let T = fst (HMAC_SHA256_Final' (HMAC_SHA256_Update PSh (be32enc (of_nat (i + 1)))))
    in if 1 < c then pbkdf2_xor_loop Ph c 2 T T else Some T) = Some (F (Suc i))"
    and len: "\<And>i. length (F i) = 32"
  shows "pbkdf2_generic_loop Ph PSh c dkLen i =
    Some (take (dkLen - i * 32) (concat (map (\<lambda>k. F (Suc k)) [i..<pbkdf2_blocks dkLen])))"
proof (induction "dkLen - i" arbitrary: i rule: less_induct)
  case less
  show ?case
  proof (cases "i * 32 < dkLen")
    case False
    then show ?thesis by (simp add: pbkdf2_generic_loop.simps [of Ph PSh c dkLen i] pbkdf2_blocks_less)
  next
    case True
    let ?rest = "concat (map (\<lambda>k. F (Suc k)) [Suc i..<pbkdf2_blocks dkLen])"
    have "pbkdf2_generic_loop Ph PSh c dkLen (Suc i) = Some (take (dkLen - Suc i * 32) ?rest)"
      using True by (intro less) simp
    moreover have "take (if 32 < dkLen - i * 32 then 32 else dkLen - i * 32) (F (Suc i)) = take (dkLen - i * 32) (F (Suc i))"
      by (simp add: len)
    ultimately show ?thesis
      using True blk [of i] len [of "Suc i"]
      by (simp add: pbkdf2_generic_loop.simps [of Ph PSh c dkLen i] Let_def upt_blocks add.commute)
  qed
qed

lemma pbkdf2_generic_spec:
  assumes "length (buf (ictx stack)) = 64" and "length (buf (octx stack)) = 64" and "unat c < 2 ^ 64 - 1"
  shows "pbkdf2_generic stack P S c dkLen = Some (pbkdf2_spec P S (unat c) dkLen)"
proof -
  let ?Ph = "HMAC_SHA256_Init stack P"
  let ?PSh = "HMAC_SHA256_Update ?Ph S"
  note init = HMAC_SHA256_Init_view [OF assms(1,2), of P]
  have U1: "fst (HMAC_SHA256_Final' (HMAC_SHA256_Update ?PSh iv)) = hmac_sha256 P (S @ iv)" for iv
    using hmac.update_update [OF init(1), of S iv] hmac_digest [OF assms(1,2), of P "S @ iv"] by simp
  have H: "hmac_finish (hmac_view (HMAC_SHA256_Update ?Ph m)) = hmac_sha256 P m" for m
    using hmac_digest [OF assms(1,2), of P m] by (simp add: HMAC_Final_finish hmac.inv_update init(1))
  have "(let T = fst (HMAC_SHA256_Final' (HMAC_SHA256_Update ?PSh (be32enc (of_nat (i + 1)))))
      in if 1 < c then pbkdf2_xor_loop ?Ph c 2 T T else Some T) = Some (pbkdf2_F P S (unat c) (Suc i))" for i
  proof -
    let ?T = "hmac_sha256 P (S @ be32enc (of_nat (i + 1)))"
    have F: "pbkdf2_F P S (unat c) (Suc i)
        = foldl (map2 (XOR)) ?T (map (\<lambda>k. (hmac_sha256 P ^^ k) ?T) [1..<unat c])"
      by (simp add: pbkdf2_F_def be32enc_le_enc Let_def)
    show ?thesis
    proof (cases "1 < c")
      case True
      then have "1 < unat c" by (simp add: word_less_nat_alt)
      then have "pbkdf2_xor_loop ?Ph c 2 ?T ?T
          = Some (foldl (map2 (XOR)) ?T (map (\<lambda>k. (hmac_sha256 P ^^ k) ?T) [1..<Suc (unat c - 1)]))"
        by (intro pbkdf2_xor_loop_spec init(1) H assms(3)) simp_all
      with True \<open>1 < unat c\<close> show ?thesis unfolding F U1 Let_def by simp
    next
      case False
      then have "unat c \<le> 1" by (simp add: word_less_nat_alt)
      with False show ?thesis unfolding F U1 Let_def by simp
    qed
  qed
  then have "pbkdf2_generic_loop ?Ph ?PSh c dkLen 0
      = Some (take dkLen (concat (map (\<lambda>k. pbkdf2_F P S (unat c) (Suc k)) [0..<pbkdf2_blocks dkLen])))"
    using pbkdf2_generic_loop_spec [of ?PSh c ?Ph "pbkdf2_F P S (unat c)" dkLen 0] by simp
  moreover have "map (\<lambda>k. pbkdf2_F P S (unat c) (Suc k)) [0..<pbkdf2_blocks dkLen]
      = map (pbkdf2_F P S (unat c)) [1..<Suc (pbkdf2_blocks dkLen)]"
    by (simp add: map_Suc_upt [symmetric] comp_def del: upt_Suc)
  ultimately show ?thesis
    by (simp add: pbkdf2_generic_def pbkdf2_spec_def pbkdf2_blocks_def [symmetric] Let_def del: upt_Suc)
qed

lemma absorb_count:
  "snd (snd (sha256_absorb (st, t, c) d)) = c + push_bit 3 (of_nat (length d))"
  by (simp add: sha256_absorb.simps split: prod.splits)

lemma sha256_view_count: "count ctx = snd (snd (sha256_view ctx))"
  by (simp add: sha256_view_def)

lemma count_field: "count ctx AND push_bit 3 0x3f = of_nat (8 * sha256_fill ctx)"
proof -
  have "count ctx AND push_bit 3 (mask 6) = push_bit 3 (drop_bit 3 (count ctx) AND mask 6)"
    by (rule bit_word_eqI) (auto simp: bit_simps)
  moreover have "drop_bit 3 (count ctx) AND mask 6 = of_nat (sha256_fill ctx)"
    by (simp add: sha256_fill_def mask_eq_exp_minus_1)
  ultimately show ?thesis by (simp add: mask_eq_exp_minus_1 push_bit_eq_mult mult.commute)
qed


lemma unat_count_field: "unat (count ctx AND push_bit 3 0x3f) = 8 * sha256_fill ctx"
proof -
  have "8 * sha256_fill ctx < 8 * 64" by (intro mult_strict_left_mono sha256_fill_less) simp
  also have "\<dots> < 2 ^ 64" by simp
  finally have "8 * sha256_fill ctx < 2 ^ 64" .
  then show ?thesis by (simp only: count_field unat_of_nat) simp
qed

lemma oldcount_offset:
  "unat (ucast (count ctx AND push_bit 3 0x3f) :: u32) = 8 * sha256_fill ctx"
  "unat (ucast (ucast (count ctx AND push_bit 3 0x3f) :: u32) :: u64) = 8 * sha256_fill ctx"
  "unat (drop_bit 3 (ucast (count ctx AND push_bit 3 0x3f) :: u32)) = sha256_fill ctx"
proof -
  let ?w = "ucast (count ctx AND push_bit 3 0x3f) :: u32"
  have less: "8 * sha256_fill ctx < 8 * 64" by (intro mult_strict_left_mono sha256_fill_less) simp
  also have "\<dots> < 2 ^ 32" by simp
  finally have low: "take_bit LENGTH(32) (8 * sha256_fill ctx) = 8 * sha256_fill ctx"
    by (simp add: take_bit_nat_eq_self)
  show w: "unat ?w = 8 * sha256_fill ctx"
    by (simp only: unsigned_ucast_eq unat_count_field low)
  have "unat (ucast x :: u64) = unat x" for x :: u32
    by (simp only: unsigned_ucast_eq, rule take_bit_nat_eq_self, rule less_trans [OF unsigned_less]) simp
  then show "unat (ucast ?w :: u64) = 8 * sha256_fill ctx" by (simp only: w)
  have "unat (drop_bit 3 x) = unat x div 8" for x :: u32
    using unat_drop_bit_eq [of 3 x] by (simp add: drop_bit_eq_div)
  then show "unat (drop_bit 3 ?w) = sha256_fill ctx" by (simp only: w)
qed

lemma HMAC_Init_salt:
  fixes P S :: bytes
  assumes "length (buf (ictx stack)) = 64" and "length (buf (octx stack)) = 64"
  defines "h \<equiv> HMAC_SHA256_Update (HMAC_SHA256_Init stack P) S"
  shows "hmac_inv h" and "sha256_fill (ictx h) = length S mod 64"
    and "\<exists>ov. sha256_view (octx h) = (ov, [], 512)"
    and "\<And>iv. hmac_finish (sha256_absorb (sha256_view (ictx h)) iv, sha256_view (octx h)) = hmac_sha256 P (S @ iv)"
proof -
  let ?i = "HMAC_SHA256_Init stack P" and ?K = "\<lambda>c. map (\<lambda>k. k XOR c) (hmac_key P)"
  note init = HMAC_SHA256_Init_view [OF assms(1,2), of P]
  show inv: "hmac_inv h" using init(1) by (simp add: h_def hmac.inv_update)
  have iview: "sha256_view (ictx h) = sha256_absorb (sha256_absorb (initial_state, [], 0) (?K 0x36)) S"
    and oview: "sha256_view (octx h) = sha256_absorb (initial_state, [], 0) (?K 0x5c)"
    using hmac.view_update [OF init(1), of S] init(2) by (simp_all add: h_def hmac_view_def)
  have ab: "sha256_absorb (initial_state, [], 0) (?K c) = (SHA256_Transform initial_state (?K c), [], 512)" for c
    using absorb_last_block [of "?K c"] by (simp add: sha256_absorb.simps)
  show "\<exists>ov. sha256_view (octx h) = (ov, [], 512)" by (simp add: oview ab)
  have "count (ictx h) = 512 + push_bit 3 (of_nat (length S))"
    by (simp add: sha256_view_count iview ab absorb_count)
  then have "sha256_fill (ictx h) = sha256_fill (ictx h\<lparr>count := 512 + push_bit 3 (of_nat (length S))\<rparr>)"
    by (simp add: sha256_fill_mod)
  also have "\<dots> = length S mod 64"
    using sha256_fill_add [of "ictx h\<lparr>count := 512\<rparr>" "length S"] by (simp add: sha256_fill_mod)
  finally show "sha256_fill (ictx h) = length S mod 64" .
  show "hmac_finish (sha256_absorb (sha256_view (ictx h)) iv, sha256_view (octx h)) = hmac_sha256 P (S @ iv)" for iv
  proof -
    have "sha256_absorb (sha256_view (ictx h)) iv = sha256_absorb (sha256_absorb (initial_state, [], 0) (?K 0x36)) (S @ iv)"
      using hmac.absorb_append [OF init(1), of S iv] by (simp add: iview init(2))
    then show ?thesis by (simp only: oview hmac_finish_absorb)
  qed
qed

text \<open>The two prepared last blocks of the fast path.\<close>

lemma pbkdf2_inner_block:
  assumes "sha256_inv c" and "sha256_fill c + 4 < 56"
  shows "sha256_fill (SHA256_Update c [0, 0, 0, 0]) = sha256_fill c + 4"
    and "\<exists>ic. SHA256_Pad_Almost (SHA256_Update c [0, 0, 0, 0]) = Some ic \<and> state ic = state c \<and>
      buf ic = take (sha256_fill c) (buf c) @ [0, 0, 0, 0] @
        sha256_padding (sha256_fill c + 4) (count c + push_bit 3 4)"
proof -
  let ?r = "sha256_fill c" and ?c1 = "SHA256_Update c [0, 0, 0, 0]"
  have c1: "?c1 = c\<lparr>count := count c + push_bit 3 4, buf := memcpy_at (buf c) ?r [0, 0, 0, 0]\<rparr>"
    using SHA256_Update_short [of "[0, 0, 0, 0]" c] assms by simp
  show fill: "sha256_fill ?c1 = ?r + 4"
    using sha256_fill_add [of c 4] assms by (simp add: c1)
  have "take (?r + 4) (buf ?c1) = take ?r (buf c) @ [0, 0, 0, 0]"
    using assms by (simp add: c1 sha256_inv_def memcpy_at_def)
  moreover have "sha256_inv ?c1" using assms by (simp add: c1 sha256_inv_def)
  ultimately show "\<exists>ic. SHA256_Pad_Almost ?c1 = Some ic \<and> state ic = state c \<and>
      buf ic = take ?r (buf c) @ [0, 0, 0, 0] @ sha256_padding (?r + 4) (count c + push_bit 3 4)"
    using SHA256_Pad_Almost_Some [of ?c1] assms(2) fill by (auto simp: c1)
qed

lemma pbkdf2_outer_block:
  assumes "sha256_inv c" and "sha256_view c = (ov, [], 512)"
  shows "\<exists>oc. SHA256_Pad_Almost (c\<lparr>count := count c + push_bit 3 32\<rparr>) = Some oc \<and>
    state oc = ov \<and> buf oc = take 32 (buf c) @ sha256_padding 32 768"
proof -
  have c: "state c = ov" "count c = 512" using assms(2) by (simp_all add: sha256_view_def)
  have "sha256_inv (c\<lparr>count := 768\<rparr>)" "sha256_fill (c\<lparr>count := 768\<rparr>) = 32"
    using assms(1) by (simp_all add: sha256_inv_def sha256_fill_mod)
  then show ?thesis
    using SHA256_Pad_Almost_Some [of "c\<lparr>count := 768\<rparr>"] by (auto simp: c)
qed

lemma pbkdf2_fast_spec:
  assumes stk: "length (buf (ictx stack)) = 64" "length (buf (octx stack)) = 64"
    and salt: "length S mod 64 \<le> 51"
  shows "pbkdf2_fast stack P S dkLen = Some (concat (map (\<lambda>k. hmac_sha256 P (S @ be32enc (of_nat (k + 1))))
    [0..<pbkdf2_blocks dkLen]))"
proof -
  define h where "h = HMAC_SHA256_Update (HMAC_SHA256_Init stack P) S"
  note hs = HMAC_Init_salt [OF stk, of P S, folded h_def]
  let ?r = "sha256_fill (ictx h)" and ?t = "take (sha256_fill (ictx h)) (buf (ictx h))"
  let ?cnt = "count (ictx h) + push_bit 3 4"
  have r: "?r + 4 < 56" using salt hs(2) by simp
  have inv: "sha256_inv (ictx h)" "sha256_inv (octx h)" using hs(1) by (simp_all add: hmac_inv_def)
  have t: "length ?t = ?r" using inv(1) by (rule sha256_view_tail_length)
  obtain ov where ov: "sha256_view (octx h) = (ov, [], 512)" using hs(3) by blast
  obtain ic where ic: "SHA256_Pad_Almost (SHA256_Update (ictx h) [0, 0, 0, 0]) = Some ic"
    "state ic = state (ictx h)" "buf ic = ?t @ [0, 0, 0, 0] @ sha256_padding (?r + 4) ?cnt"
    using pbkdf2_inner_block(2) [OF inv(1) r] by blast
  obtain oc where oc: "SHA256_Pad_Almost ((octx h)\<lparr>count := count (octx h) + push_bit 3 32\<rparr>) = Some oc"
    "state oc = ov" "buf oc = take 32 (buf (octx h)) @ sha256_padding 32 768"
    using pbkdf2_outer_block [OF inv(2) ov] by blast
  have "\<not> (count (SHA256_Update (ictx h) [0, 0, 0, 0]) AND push_bit 3 0x3f)
      < ucast (ucast (count (ictx h) AND push_bit 3 0x3f) :: u32)"
    by (simp only: word_less_nat_alt oldcount_offset unat_count_field pbkdf2_inner_block(1) [OF inv(1) r]) simp
  then have "pbkdf2_fast stack P S dkLen = Some (pbkdf2_fast_loop ic oc ?r dkLen 0)"
    unfolding pbkdf2_fast_def Let_def h_def [symmetric]
    using ic(1) oc(1) oldcount_offset(3) [of "ictx h"] by (simp add: HMAC_SHA256_Update_def)
  moreover have "be32enc_vect (SHA256_Transform (state oc) (be32enc_vect (SHA256_Transform (state ic)
      (?t @ iv @ sha256_padding (?r + 4) ?cnt)) 4 @ sha256_padding 32 768)) 4
      = hmac_sha256 P (S @ iv)" if "length iv = 4" for iv
  proof -
    have v: "sha256_view (ictx h) = (state (ictx h), ?t, count (ictx h))" by (simp add: sha256_view_def)
    have m: "min (length (buf (ictx h))) ?r = ?r" using t by simp
    show ?thesis
      using hs(4) [of iv] that r ov
      by (simp add: v m hmac_finish.simps sha256_finish_one_block ic(2) oc(2))
  qed
  ultimately show ?thesis
    using pbkdf2_fast_loop_blocks [of ic ?t "[0, 0, 0, 0]" _ ?r oc
        "take 32 (buf (octx h))" "sha256_padding 32 768" dkLen 0] ic(3) oc(3) inv
    by (simp add: sha256_inv_def min_absorb2)
qed

lemma pbkdf2_spec_one:
  assumes "dkLen mod 32 = 0"
  shows "pbkdf2_spec P S 1 dkLen = concat (map (\<lambda>k. hmac_sha256 P (S @ be32enc (of_nat (k + 1))))
    [0..<pbkdf2_blocks dkLen])"
proof -
  have "pbkdf2_spec P S 1 dkLen = take dkLen (concat (map (\<lambda>k. hmac_sha256 P (S @ be32enc (of_nat (k + 1))))
    [0..<pbkdf2_blocks dkLen]))"
    by (simp add: pbkdf2_spec_def pbkdf2_blocks_def [symmetric] pbkdf2_F_def be32enc_le_enc Let_def
        map_Suc_upt [symmetric] comp_def del: upt_Suc)
  moreover have "pbkdf2_blocks dkLen * 32 = dkLen"
    using assms by (auto simp: pbkdf2_blocks_def)
  ultimately show ?thesis
    by (simp add: length_concat comp_def sum_list_triv)
qed

section \<open>Properties\<close>

text \<open>
  HMAC: the one-shot routine, on any key and message and whatever the stack context held,
  returns the FIPS 198-1 code computed with FIPS 180-4 SHA-256.
\<close>

theorem HMAC_SHA256_Buf_correct:
  assumes "length (buf (ictx stack)) = 64" and "length (buf (octx stack)) = 64"
  shows "HMAC_SHA256_Buf stack K m = hmac_sha256 K m"
  using hmac_digest [OF assms] by (simp add: HMAC_SHA256_Buf_def)

theorem HMAC_SHA256_Buf_correct_witness:
  "HMAC_SHA256_Buf \<lparr>ictx = \<lparr>state = [], count = 7, buf = replicate 64 1\<rparr>,
      octx = \<lparr>state = [1], count = 9, buf = replicate 64 2\<rparr>\<rparr> [1, 2] [3]
    = hmac_sha256 [1, 2] [3]"
  by (rule HMAC_SHA256_Buf_correct) simp_all

text \<open>
  C15. PBKDF2: for every output length the assertion admits and every iteration count but the
  largest 64-bit value, the call returns, and the output is the RFC 8018 key of that length.
  Both the fast path (one iteration, whole output blocks, counter in the last block) and the
  generic path are covered, and neither depends on the uninitialised stack contexts.
\<close>

theorem PBKDF2_SHA256_correct:
  assumes "length (buf (ictx hstack)) = 64" and "length (buf (octx hstack)) = 64"
    and "length (buf (ictx pstack)) = 64" and "length (buf (octx pstack)) = 64"
    and "dkLen \<le> 32 * (2 ^ 32 - 1)" and "unat c < 2 ^ 64 - 1"
  shows "PBKDF2_SHA256 hstack pstack passwd salt c dkLen = Some (pbkdf2_spec passwd salt (unat c) dkLen)"
proof (cases "c = 1 \<and> dkLen mod 32 = 0 \<and> length salt mod 64 \<le> 51")
  case True
  then show ?thesis
    using assms(5) pbkdf2_fast_spec [OF assms(1,2), of salt passwd dkLen] pbkdf2_spec_one [of dkLen passwd salt]
    by (simp add: PBKDF2_SHA256_def)
next
  case False
  then show ?thesis
    using assms(5) pbkdf2_generic_spec [OF assms(3,4,6)] by (auto simp: PBKDF2_SHA256_def)
qed

theorem PBKDF2_SHA256_correct_witness:
  "PBKDF2_SHA256 \<lparr>ictx = \<lparr>state = [], count = 7, buf = replicate 64 1\<rparr>,
      octx = \<lparr>state = [1], count = 9, buf = replicate 64 2\<rparr>\<rparr>
     \<lparr>ictx = \<lparr>state = [], count = 0, buf = replicate 64 3\<rparr>,
      octx = \<lparr>state = [], count = 0, buf = replicate 64 4\<rparr>\<rparr> [1, 2] [3] 1 32
    = Some (pbkdf2_spec [1, 2] [3] (unat (1 :: u64)) 32)"
  by (rule PBKDF2_SHA256_correct) simp_all

end
