(* ===== verification/Blake2b.thy ===== *)
theory Blake2b
  imports Stream_Hash
begin

text \<open>
  BLAKE2b as RandomX and Argon2 use it: \<^verbatim>\<open>xmrig/crypto/randomx/blake2/blake2b.c\<close> with the
  structures of \<^verbatim>\<open>blake2.h\<close> and the codecs of \<^verbatim>\<open>endian.h\<close> and \<^verbatim>\<open>blake2-impl.h\<close>. The
  compression routine reached through the pointer \<^verbatim>\<open>rx_blake2b_compress\<close> is the portable
  \<open>rx_blake2b_compress_integer\<close>. A null pointer argument is \<open>None\<close>; return codes are
  integers. The state pointer itself is never null in the model.
\<close>

section \<open>State and parameters\<close>

definition BLAKE2B_BLOCKBYTES :: nat where [simp]: "BLAKE2B_BLOCKBYTES = 128"
definition BLAKE2B_OUTBYTES :: nat where [simp]: "BLAKE2B_OUTBYTES = 64"
definition BLAKE2B_KEYBYTES :: nat where [simp]: "BLAKE2B_KEYBYTES = 64"

record blake2b_param =
  digest_length :: byte
  key_length :: byte
  fanout :: byte
  depth :: byte
  leaf_length :: u32
  node_offset :: u64
  node_depth :: byte
  inner_length :: byte
  reserved :: bytes
  salt :: bytes
  personal :: bytes

record blake2b_state =
  S_h :: "u64 list"
  S_t :: "u64 list"
  S_f :: "u64 list"
  S_buf :: bytes
  S_buflen :: nat
  S_outlen :: nat
  S_last_node :: byte

definition load64 :: "bytes \<Rightarrow> u64" where
  "load64 src = le_dec (take 8 src)"

definition store64 :: "u64 \<Rightarrow> bytes" where
  "store64 w = le_enc 8 w"

definition store32 :: "u32 \<Rightarrow> bytes" where
  "store32 w = le_enc 4 w"

definition rotr64 :: "u64 \<Rightarrow> nat \<Rightarrow> u64" where
  "rotr64 w c = drop_bit c w OR push_bit (64 - c) w"

text \<open>The packed parameter block as it lies in memory on a little-endian machine.\<close>

definition param_bytes :: "blake2b_param \<Rightarrow> bytes" where
  "param_bytes P = [digest_length P, key_length P, fanout P, depth P] @
     le_enc 4 (leaf_length P) @ le_enc 8 (node_offset P) @
     [node_depth P, inner_length P] @ reserved P @ salt P @ personal P"

definition blake2b_IV :: "u64 list" where
  "blake2b_IV = [
    0x6a09e667f3bcc908, 0xbb67ae8584caa73b,
    0x3c6ef372fe94f82b, 0xa54ff53a5f1d36f1,
    0x510e527fade682d1, 0x9b05688c2b3e6c1f,
    0x1f83d9abfb41bd6b, 0x5be0cd19137e2179]"

definition blake2b_sigma :: "nat list list" where
  "blake2b_sigma = [
    [0, 1, 2, 3, 4, 5, 6, 7, 8, 9, 10, 11, 12, 13, 14, 15],
    [14, 10, 4, 8, 9, 15, 13, 6, 1, 12, 0, 2, 11, 7, 5, 3],
    [11, 8, 12, 0, 5, 2, 15, 13, 10, 14, 3, 6, 7, 1, 9, 4],
    [7, 9, 3, 1, 13, 12, 11, 14, 2, 6, 5, 10, 4, 0, 15, 8],
    [9, 0, 5, 7, 2, 4, 10, 15, 14, 1, 11, 12, 6, 8, 3, 13],
    [2, 12, 6, 10, 0, 11, 8, 3, 4, 13, 7, 5, 15, 14, 1, 9],
    [12, 5, 1, 15, 14, 13, 4, 10, 0, 7, 6, 3, 9, 2, 8, 11],
    [13, 11, 7, 14, 12, 1, 3, 9, 5, 0, 15, 4, 8, 6, 2, 10],
    [6, 15, 14, 9, 11, 3, 0, 8, 12, 2, 13, 7, 1, 4, 10, 5],
    [10, 2, 8, 4, 7, 6, 1, 5, 15, 11, 9, 14, 3, 12, 13, 0],
    [0, 1, 2, 3, 4, 5, 6, 7, 8, 9, 10, 11, 12, 13, 14, 15],
    [14, 10, 4, 8, 9, 15, 13, 6, 1, 12, 0, 2, 11, 7, 5, 3]]"

section \<open>State bookkeeping\<close>

definition blake2b_set_lastnode :: "blake2b_state \<Rightarrow> blake2b_state" where
  "blake2b_set_lastnode S = S\<lparr>S_f := (S_f S)[1 := - 1]\<rparr>"

definition blake2b_set_lastblock :: "blake2b_state \<Rightarrow> blake2b_state" where
  "blake2b_set_lastblock S =
     (let S' = (if S_last_node S \<noteq> 0 then blake2b_set_lastnode S else S)
      in S'\<lparr>S_f := (S_f S')[0 := - 1]\<rparr>)"

definition blake2b_increment_counter :: "blake2b_state \<Rightarrow> u64 \<Rightarrow> blake2b_state" where
  "blake2b_increment_counter S inc =
     (let t0 = S_t S ! 0 + inc
      in S\<lparr>S_t := (S_t S)[0 := t0, 1 := S_t S ! 1 + (if t0 < inc then 1 else 0)]\<rparr>)"

definition blake2b_invalidate_state :: "blake2b_state \<Rightarrow> blake2b_state" where
  "blake2b_invalidate_state S = blake2b_set_lastblock S"

definition blake2b_init0 :: "blake2b_state" where
  "blake2b_init0 = \<lparr>S_h = blake2b_IV, S_t = [0, 0], S_f = [0, 0],
     S_buf = replicate BLAKE2B_BLOCKBYTES 0, S_buflen = 0, S_outlen = 0, S_last_node = 0\<rparr>"

definition rx_blake2b_init_param :: "blake2b_param \<Rightarrow> int \<times> blake2b_state" where
  "rx_blake2b_init_param P =
     (let p = param_bytes P;
          S = blake2b_init0
      in (0, S\<lparr>S_h := map (\<lambda>i. S_h S ! i XOR load64 (drop (i * 8) p)) [0..<8],
               S_outlen := unat (digest_length P)\<rparr>))"

text \<open>The parameter block of a sequential hash with the given digest and key length.\<close>

definition blake2b_sequential_param :: "nat \<Rightarrow> nat \<Rightarrow> blake2b_param" where
  "blake2b_sequential_param outlen keylen =
     \<lparr>digest_length = of_nat outlen, key_length = of_nat keylen, fanout = 1, depth = 1,
      leaf_length = 0, node_offset = 0, node_depth = 0, inner_length = 0,
      reserved = replicate 14 0, salt = replicate 16 0, personal = replicate 16 0\<rparr>"

definition rx_blake2b_init :: "blake2b_state \<Rightarrow> nat \<Rightarrow> int \<times> blake2b_state" where
  "rx_blake2b_init S outlen =
     (if outlen = 0 \<or> BLAKE2B_OUTBYTES < outlen then (- 1, blake2b_invalidate_state S)
      else rx_blake2b_init_param (blake2b_sequential_param outlen 0))"

section \<open>Compression\<close>

definition blake2b_G ::
  "u64 list \<Rightarrow> nat \<Rightarrow> nat \<Rightarrow> nat \<Rightarrow> nat \<Rightarrow> nat \<Rightarrow> nat \<Rightarrow> u64 list \<Rightarrow> u64 list" where
  "blake2b_G m r i ja jb jc jd v =
     (let a = v ! ja + v ! jb + m ! (blake2b_sigma ! r ! (2 * i + 0));
          d = rotr64 (v ! jd XOR a) 32;
          c = v ! jc + d;
          b = rotr64 (v ! jb XOR c) 24;
          a = a + b + m ! (blake2b_sigma ! r ! (2 * i + 1));
          d = rotr64 (d XOR a) 16;
          c = c + d;
          b = rotr64 (b XOR c) 63
      in v[ja := a, jb := b, jc := c, jd := d])"

definition blake2b_ROUND :: "u64 list \<Rightarrow> u64 list \<Rightarrow> nat \<Rightarrow> u64 list" where
  "blake2b_ROUND m v r =
     (blake2b_G m r 7 3 4 9 14 \<circ> blake2b_G m r 6 2 7 8 13 \<circ>
      blake2b_G m r 5 1 6 11 12 \<circ> blake2b_G m r 4 0 5 10 15 \<circ>
      blake2b_G m r 3 3 7 11 15 \<circ> blake2b_G m r 2 2 6 10 14 \<circ>
      blake2b_G m r 1 1 5 9 13 \<circ> blake2b_G m r 0 0 4 8 12) v"

definition rx_blake2b_compress_integer :: "blake2b_state \<Rightarrow> bytes \<Rightarrow> blake2b_state" where
  "rx_blake2b_compress_integer S block =
     (let m = map (\<lambda>i. load64 (drop (i * 8) block)) [0..<16];
          v = map (\<lambda>i. S_h S ! i) [0..<8] @
              [blake2b_IV ! 0, blake2b_IV ! 1, blake2b_IV ! 2, blake2b_IV ! 3,
               blake2b_IV ! 4 XOR S_t S ! 0, blake2b_IV ! 5 XOR S_t S ! 1,
               blake2b_IV ! 6 XOR S_f S ! 0, blake2b_IV ! 7 XOR S_f S ! 1];
          v = foldl (blake2b_ROUND m) v [0..<12]
      in S\<lparr>S_h := map (\<lambda>i. S_h S ! i XOR v ! i XOR v ! (i + 8)) [0..<8]\<rparr>)"

section \<open>The incremental hash\<close>

function blake2b_whole_blocks :: "blake2b_state \<Rightarrow> bytes \<Rightarrow> blake2b_state \<times> bytes" where
  "blake2b_whole_blocks S pin =
     (if BLAKE2B_BLOCKBYTES < length pin
      then blake2b_whole_blocks
             (rx_blake2b_compress_integer
               (blake2b_increment_counter S (of_nat BLAKE2B_BLOCKBYTES)) pin)
             (drop BLAKE2B_BLOCKBYTES pin)
      else (S, pin))"
  by pat_completeness auto
termination
  by (relation "measure (\<lambda>(S, pin). length pin)") auto

declare blake2b_whole_blocks.simps [simp del]

definition rx_blake2b_update ::
  "blake2b_state \<Rightarrow> bytes option \<Rightarrow> nat \<Rightarrow> int \<times> blake2b_state" where
  "rx_blake2b_update S inp inlen =
     (if inlen = 0 then (0, S)
      else case inp of
        None \<Rightarrow> (- 1, S)
      | Some pin0 \<Rightarrow>
          if S_f S ! 0 \<noteq> 0 then (- 1, S)
          else
            let pin = take inlen pin0;
                (S, pin) =
                  (if BLAKE2B_BLOCKBYTES < S_buflen S + inlen then
                     let left = S_buflen S;
                         fill = BLAKE2B_BLOCKBYTES - left;
                         S = S\<lparr>S_buf := memcpy_at (S_buf S) left (take fill pin)\<rparr>;
                         S = blake2b_increment_counter S (of_nat BLAKE2B_BLOCKBYTES);
                         S = rx_blake2b_compress_integer S (S_buf S)
                     in blake2b_whole_blocks (S\<lparr>S_buflen := 0\<rparr>) (drop fill pin)
                   else (S, pin))
            in (0, S\<lparr>S_buf := memcpy_at (S_buf S) (S_buflen S) pin,
                     S_buflen := S_buflen S + length pin\<rparr>))"

text \<open>\<open>rx_blake2b_final\<close> returns the code, the new state and the new content of \<open>out\<close>.\<close>

definition rx_blake2b_final ::
  "blake2b_state \<Rightarrow> bytes option \<Rightarrow> nat \<Rightarrow> int \<times> blake2b_state \<times> bytes option" where
  "rx_blake2b_final S out outlen =
     (case out of
        None \<Rightarrow> (- 1, S, out)
      | Some dst \<Rightarrow>
          if outlen < S_outlen S then (- 1, S, out)
          else if S_f S ! 0 \<noteq> 0 then (- 1, S, out)
          else
            let S = blake2b_increment_counter S (of_nat (S_buflen S));
                S = blake2b_set_lastblock S;
                S = S\<lparr>S_buf := memcpy_at (S_buf S) (S_buflen S)
                       (replicate (BLAKE2B_BLOCKBYTES - S_buflen S) 0)\<rparr>;
                S = rx_blake2b_compress_integer S (S_buf S);
                buffer = concat (map (\<lambda>i. store64 (S_h S ! i)) [0..<8])
            in (0, S, Some (memcpy_at dst 0 (take (S_outlen S) buffer))))"

definition rx_blake2b_init_key ::
  "blake2b_state \<Rightarrow> nat \<Rightarrow> bytes option \<Rightarrow> nat \<Rightarrow> int \<times> blake2b_state" where
  "rx_blake2b_init_key S outlen key keylen =
     (if outlen = 0 \<or> BLAKE2B_OUTBYTES < outlen then (- 1, blake2b_invalidate_state S)
      else case key of
        None \<Rightarrow> (- 1, blake2b_invalidate_state S)
      | Some k \<Rightarrow>
          if keylen = 0 \<or> BLAKE2B_KEYBYTES < keylen then (- 1, blake2b_invalidate_state S)
          else
            let (ret, S) = rx_blake2b_init_param (blake2b_sequential_param outlen keylen)
            in if ret < 0 then (- 1, blake2b_invalidate_state S)
               else
                 let block = memcpy_at (replicate BLAKE2B_BLOCKBYTES 0) 0 (take keylen k)
                 in (0, snd (rx_blake2b_update S (Some block) BLAKE2B_BLOCKBYTES)))"

text \<open>\<open>stack\<close> is the uninitialised local state of the one-shot function.\<close>

definition rx_blake2b_default ::
  "blake2b_state \<Rightarrow> bytes option \<Rightarrow> nat \<Rightarrow> bytes option \<Rightarrow> nat \<Rightarrow> int \<times> bytes option" where
  "rx_blake2b_default stack out outlen inp inlen =
     (if inp = None \<and> 0 < inlen then (- 1, out)
      else if out = None \<or> outlen = 0 \<or> BLAKE2B_OUTBYTES < outlen then (- 1, out)
      else
        let (ret, S) = rx_blake2b_init stack outlen
        in if ret < 0 then (- 1, out)
           else
             let (ret, S) = rx_blake2b_update S inp inlen
             in if ret < 0 then (- 1, out)
                else let (ret, S, out') = rx_blake2b_final S out outlen in (ret, out'))"

section \<open>The variable-length hash of Argon2\<close>

text \<open>
  The loop of \<^verbatim>\<open>rxa2_blake2b_long\<close>: the output written so far, the last 64-byte digest and
  the number of bytes still to produce, with the code of the last call.
\<close>

function blake2b_long_loop ::
  "blake2b_state \<Rightarrow> bytes \<Rightarrow> bytes \<Rightarrow> nat \<Rightarrow> int \<times> bytes \<times> bytes \<times> nat" where
  "blake2b_long_loop stack done out_buffer toproduce =
     (if BLAKE2B_OUTBYTES < toproduce then
        let (ret, out') = rx_blake2b_default stack (Some out_buffer) BLAKE2B_OUTBYTES
                            (Some out_buffer) BLAKE2B_OUTBYTES
        in if ret < 0 then (ret, done, out_buffer, toproduce)
           else blake2b_long_loop stack (done @ take (BLAKE2B_OUTBYTES div 2) (the out')) (the out')
                  (toproduce - BLAKE2B_OUTBYTES div 2)
      else (0, done, out_buffer, toproduce))"
  by pat_completeness auto
termination
  by (relation "measure (\<lambda>(_, _, _, n). n)") auto

declare blake2b_long_loop.simps [simp del]

text \<open>
  The two updates both branches start with, on a freshly initialised state, and the digest
  they lead to; \<open>stack\<close> is the uninitialised local state. A buffer of zeros stands for the
  uninitialised \<^verbatim>\<open>out_buffer\<close>, all of which the first digest overwrites.
\<close>

definition blake2b_long_head ::
  "blake2b_state \<Rightarrow> nat \<Rightarrow> bytes \<Rightarrow> bytes option \<Rightarrow> nat \<Rightarrow> bytes \<Rightarrow> int \<times> bytes" where
  "blake2b_long_head stack digestlen outlen_bytes inp inlen out =
     (let (ret, S) = rx_blake2b_init stack digestlen
      in if ret < 0 then (ret, out)
         else let (ret, S) = rx_blake2b_update S (Some outlen_bytes) (length outlen_bytes)
         in if ret < 0 then (ret, out)
         else let (ret, S) = rx_blake2b_update S inp inlen
         in if ret < 0 then (ret, out)
         else let (ret, S, out') = rx_blake2b_final S (Some out) digestlen
         in (ret, the out'))"

definition rxa2_blake2b_long ::
  "blake2b_state \<Rightarrow> bytes \<Rightarrow> nat \<Rightarrow> bytes option \<Rightarrow> nat \<Rightarrow> int \<times> bytes" where
  "rxa2_blake2b_long stack out outlen inp inlen =
     (if 2 ^ 32 \<le> outlen then (- 1, out)
      else
        let outlen_bytes = store32 (of_nat outlen)
        in if outlen \<le> BLAKE2B_OUTBYTES then
             blake2b_long_head stack outlen outlen_bytes inp inlen out
           else
             let (ret, out_buffer) = blake2b_long_head stack BLAKE2B_OUTBYTES outlen_bytes inp inlen
                                       (replicate BLAKE2B_OUTBYTES 0)
             in if ret < 0 then (ret, out)
                else
                  let (ret, done, out_buffer, toproduce) =
                        blake2b_long_loop stack (take (BLAKE2B_OUTBYTES div 2) out_buffer) out_buffer
                          (outlen - BLAKE2B_OUTBYTES div 2)
                  in if ret < 0 then (ret, memcpy_at out 0 done)
                     else
                       let (ret, out') = rx_blake2b_default stack (Some out_buffer) toproduce
                                           (Some out_buffer) BLAKE2B_OUTBYTES
                       in if ret < 0 then (ret, memcpy_at out 0 done)
                          else (ret, memcpy_at out 0 (done @ take toproduce (the out'))))"

section \<open>The compression function and the counter\<close>

text \<open>The compression reads only the chaining value, the counter and the flags.\<close>

definition blake2b_core :: "u64 list \<Rightarrow> u64 list \<Rightarrow> u64 list \<Rightarrow> bytes \<Rightarrow> u64 list" where
  "blake2b_core h t f block =
     S_h (rx_blake2b_compress_integer (blake2b_init0\<lparr>S_h := h, S_t := t, S_f := f\<rparr>) block)"

lemma compress_core:
  "rx_blake2b_compress_integer S block = S\<lparr>S_h := blake2b_core (S_h S) (S_t S) (S_f S) block\<rparr>"
  by (simp add: rx_blake2b_compress_integer_def blake2b_core_def Let_def)

lemma length_core [simp]: "length (blake2b_core h t f block) = 8"
  by (simp add: blake2b_core_def rx_blake2b_compress_integer_def Let_def)

lemma core_take:
  "128 \<le> length block \<Longrightarrow> blake2b_core h t f (take 128 block) = blake2b_core h t f block"
proof -
  have "map (\<lambda>i. load64 (drop (i * 8) (take 128 block))) [0..<16] = map (\<lambda>i. load64 (drop (i * 8) block)) [0..<16]"
    by (simp add: load64_def drop_take)
  then show ?thesis unfolding blake2b_core_def rx_blake2b_compress_integer_def by (simp only:)
qed

text \<open>The two words of the counter hold a 128-bit byte count.\<close>

definition counter_words :: "nat \<Rightarrow> u64 list" where
  "counter_words n = [of_nat n, of_nat (n div 2 ^ 64)]"

lemma blake2b_increment_counter_carry:
  assumes "S_t S = counter_words n" and "inc < 2 ^ 64"
  shows "blake2b_increment_counter S (of_nat inc) = S\<lparr>S_t := counter_words (n + inc)\<rparr>"
proof -
  have "(of_nat n + of_nat inc :: u64) < of_nat inc \<longleftrightarrow> (n + inc) mod 2 ^ 64 < inc"
    using assms(2) by (simp only: word_less_nat_alt unat_of_nat of_nat_add [symmetric]) simp
  also have "\<dots> \<longleftrightarrow> 2 ^ 64 \<le> n mod 2 ^ 64 + inc"
    using assms(2) by (rule add_carry(1))
  finally have "S_t S ! 1 + (if S_t S ! 0 + of_nat inc < of_nat inc then 1 else 0) = (of_nat ((n + inc) div 2 ^ 64) :: u64)"
    unfolding add_carry(2) [OF assms(2)] by (simp only: assms(1) counter_words_def) simp
  then show ?thesis
    using assms(1) by (simp add: blake2b_increment_counter_def counter_words_def)
qed


section \<open>The incremental hash refines lazy absorption\<close>

definition blake2b_inv :: "blake2b_state \<Rightarrow> bool" where
  "blake2b_inv S \<longleftrightarrow> length (S_h S) = 8 \<and> (\<exists>n. S_t S = counter_words n) \<and> S_f S = [0, 0] \<and>
     length (S_buf S) = 128 \<and> S_buflen S \<le> 128 \<and> S_outlen S \<le> 64 \<and> S_last_node S = 0"

definition blake2b_view :: "blake2b_state \<Rightarrow> (u64 list \<times> u64 list) \<times> bytes \<times> nat" where
  "blake2b_view S = ((S_h S, S_t S), take (S_buflen S) (S_buf S), S_outlen S)"

fun blake2b_step :: "u64 list \<times> u64 list \<Rightarrow> bytes \<Rightarrow> u64 list \<times> u64 list" where
  "blake2b_step (h, t) x =
     (let t' = S_t (blake2b_increment_counter (blake2b_init0\<lparr>S_t := t\<rparr>) 128)
      in (blake2b_core h t' [0, 0] x, t'))"

fun blake2b_absorb ::
  "(u64 list \<times> u64 list) \<times> bytes \<times> nat \<Rightarrow> bytes \<Rightarrow> (u64 list \<times> u64 list) \<times> bytes \<times> nat" where
  "blake2b_absorb (c, r, n) d = (let (c', r') = absorb_lazy 128 blake2b_step c (r @ d) in (c', r', n))"

declare blake2b_step.simps [simp del] blake2b_absorb.simps [simp del]

lemma increment_counter_S_t:
  "S_t (blake2b_increment_counter S inc) = S_t (blake2b_increment_counter (blake2b_init0\<lparr>S_t := S_t S\<rparr>) inc)"
  "blake2b_increment_counter S inc = S\<lparr>S_t := S_t (blake2b_increment_counter S inc)\<rparr>"
  by (simp_all add: blake2b_increment_counter_def Let_def)

lemma compress_step:
  assumes "S_f S = [0, 0]"
  shows "rx_blake2b_compress_integer (blake2b_increment_counter S 128) x =
    (let (h, t) = blake2b_step (S_h S, S_t S) x in S\<lparr>S_h := h, S_t := t\<rparr>)"
  using assms increment_counter_S_t [of S 128]
  by (simp add: compress_core blake2b_step.simps Let_def)

lemma blake2b_step_take: "128 \<le> length x \<Longrightarrow> blake2b_step c (take 128 x) = blake2b_step c x"
  by (cases c) (simp add: blake2b_step.simps core_take)

lemma blake2b_whole_blocks_absorb:
  assumes "S_f S = [0, 0]"
  shows "blake2b_whole_blocks S pin =
    (let ((h, t), r) = absorb_lazy 128 blake2b_step (S_h S, S_t S) pin in (S\<lparr>S_h := h, S_t := t\<rparr>, r))"
  using assms
proof (induction S pin rule: blake2b_whole_blocks.induct)
  case (1 S pin)
  obtain h t where st: "blake2b_step (S_h S, S_t S) pin = (h, t)" by fastforce
  show ?case
  proof (cases "128 < length pin")
    case True
    have c: "rx_blake2b_compress_integer (blake2b_increment_counter S 128) pin = S\<lparr>S_h := h, S_t := t\<rparr>"
      using "1.prems" by (simp add: compress_step st)
    have "absorb_lazy 128 blake2b_step (S_h S, S_t S) pin = absorb_lazy 128 blake2b_step (h, t) (drop 128 pin)"
      using True by (simp add: absorb_lazy.simps [of 128 blake2b_step _ pin] blake2b_step_take st)
    then show ?thesis
      using True "1.IH" "1.prems"
      by (simp add: blake2b_whole_blocks.simps [of S pin] c split: prod.splits)
  next
    case False
    then show ?thesis by (simp add: blake2b_whole_blocks.simps [of S pin])
  qed
qed

lemma step_counter:
  "blake2b_step (h, counter_words n) x = (blake2b_core h (counter_words (n + 128)) [0, 0] x, counter_words (n + 128))"
  using blake2b_increment_counter_carry [of "blake2b_init0\<lparr>S_t := counter_words n\<rparr>" n 128]
  by (simp add: blake2b_step.simps Let_def)

lemma absorb_shape:
  assumes "absorb_lazy 128 blake2b_step (h, counter_words n) xs = ((h', t'), r)" and "length h = 8"
  shows "length h' = 8 \<and> (\<exists>m. t' = counter_words m)"
proof -
  define P where "P = (\<lambda>c :: u64 list \<times> u64 list. length (fst c) = 8 \<and> (\<exists>m. snd c = counter_words m))"
  have "P (fst (absorb_lazy 128 blake2b_step (h, counter_words n) xs))"
    by (rule absorb_lazy_inv) (use assms(2) in \<open>auto simp: P_def step_counter\<close>)
  then show ?thesis by (simp add: assms P_def)
qed

text \<open>An update with a valid pointer, as a total function on states.\<close>

definition blake2b_feed :: "blake2b_state \<Rightarrow> bytes \<Rightarrow> blake2b_state" where
  "blake2b_feed S d = snd (rx_blake2b_update S (Some d) (length d))"

lemma blake2b_feed_view:
  assumes "blake2b_inv S"
  shows "blake2b_inv (blake2b_feed S d)"
    and "blake2b_view (blake2b_feed S d) = blake2b_absorb (blake2b_view S) d"
    and "fst (rx_blake2b_update S (Some d) (length d)) = 0"
proof -
  let ?l = "S_buflen S" and ?r = "take (S_buflen S) (S_buf S)"
  have inv: "S_f S = [0, 0]" "length (S_buf S) = 128" "?l \<le> 128" "length ?r = ?l"
    using assms by (auto simp: blake2b_inv_def)
  obtain n where n: "S_t S = counter_words n" using assms by (auto simp: blake2b_inv_def)
  show "fst (rx_blake2b_update S (Some d) (length d)) = 0"
    by (simp add: rx_blake2b_update_def inv Let_def split: prod.splits)
  have "blake2b_inv (blake2b_feed S d) \<and> blake2b_view (blake2b_feed S d) = blake2b_absorb (blake2b_view S) d"
  proof (cases "?l + length d \<le> 128")
    case True
    then have "blake2b_feed S d = S\<lparr>S_buf := memcpy_at (S_buf S) ?l d, S_buflen := ?l + length d\<rparr>"
      by (auto simp: blake2b_feed_def rx_blake2b_update_def inv)
    then show ?thesis
      using assms True inv by (simp add: blake2b_inv_def blake2b_view_def take_memcpy_at blake2b_absorb.simps)
  next
    case False
    define b where "b = ?r @ take (128 - ?l) d"
    have len: "length b = 128" and rest: "drop (128 - ?l) d \<noteq> []" and split: "?r @ d = b @ drop (128 - ?l) d"
      using False inv by (simp_all add: b_def)
    obtain h t where st: "blake2b_step (S_h S, S_t S) b = (h, t)" by fastforce
    obtain h' t' r' where ab: "absorb_lazy 128 blake2b_step (h, t) (drop (128 - ?l) d) = ((h', t'), r')"
      by (metis prod.exhaust)
    have copy: "memcpy_at (S_buf S) ?l (take (128 - ?l) d) = b"
      using False inv by (simp add: b_def memcpy_at_full)
    have c: "rx_blake2b_compress_integer (blake2b_increment_counter (S\<lparr>S_buf := b\<rparr>) 128) b
        = S\<lparr>S_buf := b, S_h := h, S_t := t\<rparr>"
      using compress_step [of "S\<lparr>S_buf := b\<rparr>" b] by (simp add: inv st)
    have bufinc: "S_buf (blake2b_increment_counter S x) = S_buf S" for S x
      by (simp add: blake2b_increment_counter_def Let_def)
    have "blake2b_feed S d = S\<lparr>S_h := h', S_t := t', S_buf := memcpy_at b 0 r', S_buflen := length r'\<rparr>"
      using False by (auto simp: blake2b_feed_def rx_blake2b_update_def inv Let_def copy bufinc c
          blake2b_whole_blocks_absorb ab)
    moreover have full: "absorb_lazy 128 blake2b_step (S_h S, S_t S) (?r @ d) = ((h', t'), r')"
      using rest len by (simp add: split absorb_lazy_step st ab)
    moreover have "length r' \<le> 128" using absorb_lazy_rest [OF _ full] by simp
    moreover have "length h' = 8 \<and> (\<exists>m. t' = counter_words m)"
      using absorb_shape [OF full [unfolded n]] assms by (simp add: blake2b_inv_def)
    ultimately show ?thesis
      using inv len assms by (simp add: blake2b_inv_def blake2b_view_def blake2b_absorb.simps memcpy_at_zero)
  qed
  then show "blake2b_inv (blake2b_feed S d)"
    and "blake2b_view (blake2b_feed S d) = blake2b_absorb (blake2b_view S) d"
    by simp_all
qed

section \<open>RFC 7693\<close>

text \<open>
  The reference: the mixing function, the round over columns and diagonals with schedule row
  \<open>r mod 10\<close>, the compression with an unbounded byte count, and the hash of a data string
  (the padded key block, if any, and the message) as a fold over its zero-padded blocks.
\<close>

definition rfc_add :: "nat \<Rightarrow> nat \<Rightarrow> u64 \<Rightarrow> u64 list \<Rightarrow> u64 list" where
  "rfc_add i j x v = v[i := v ! i + v ! j + x]"

definition rfc_xor_rot :: "nat \<Rightarrow> nat \<Rightarrow> nat \<Rightarrow> u64 list \<Rightarrow> u64 list" where
  "rfc_xor_rot i j n v = v[i := word_rotr n (v ! i XOR v ! j)]"

definition rfc_G :: "u64 list \<Rightarrow> nat \<Rightarrow> nat \<Rightarrow> nat \<Rightarrow> nat \<Rightarrow> u64 \<Rightarrow> u64 \<Rightarrow> u64 list" where
  "rfc_G v a b c d x y =
     rfc_xor_rot b c 63 (rfc_add c d 0 (rfc_xor_rot d a 16 (rfc_add a b y
     (rfc_xor_rot b c 24 (rfc_add c d 0 (rfc_xor_rot d a 32 (rfc_add a b x v)))))))"

definition rfc_columns_diagonals :: "(nat \<times> nat \<times> nat \<times> nat) list" where
  "rfc_columns_diagonals =
     map (\<lambda>i. (i, 4 + i, 8 + i, 12 + i)) [0..<4] @
     map (\<lambda>i. (i, 4 + (i + 1) mod 4, 8 + (i + 2) mod 4, 12 + (i + 3) mod 4)) [0..<4]"

definition rfc_round :: "u64 list \<Rightarrow> u64 list \<Rightarrow> nat \<Rightarrow> u64 list" where
  "rfc_round m v r =
     foldl (\<lambda>v (i, a, b, c, d).
              rfc_G v a b c d (m ! (blake2b_sigma ! (r mod 10) ! (2 * i)))
                              (m ! (blake2b_sigma ! (r mod 10) ! (2 * i + 1))))
       v (zip [0..<8] rfc_columns_diagonals)"

definition rfc_local_vector :: "u64 list \<Rightarrow> nat \<Rightarrow> bool \<Rightarrow> u64 list" where
  "rfc_local_vector h bytes_so_far fl =
     (let v = h @ blake2b_IV;
          v = v[12 := v ! 12 XOR of_nat bytes_so_far, 13 := v ! 13 XOR of_nat (bytes_so_far div 2 ^ 64)]
      in if fl then v[14 := NOT (v ! 14)] else v)"

definition rfc_F :: "u64 list \<Rightarrow> bytes \<Rightarrow> nat \<Rightarrow> bool \<Rightarrow> u64 list" where
  "rfc_F h block bytes_so_far fl =
     (let m = map (\<lambda>i. le_dec (take 8 (drop (i * 8) block))) [0..<16];
          v = foldl (rfc_round m) (rfc_local_vector h bytes_so_far fl) [0..<12]
      in map (\<lambda>i. h ! i XOR v ! i XOR v ! (i + 8)) [0..<8])"

definition rfc_block :: "bytes \<Rightarrow> nat \<Rightarrow> bytes" where
  "rfc_block d i = (let b = take 128 (drop (128 * i) d) in b @ replicate (128 - length b) 0)"

definition rfc_h0 :: "nat \<Rightarrow> nat \<Rightarrow> u64 list" where
  "rfc_h0 nn kk =
     blake2b_IV[0 := blake2b_IV ! 0 XOR 0x01010000 XOR push_bit 8 (of_nat kk) XOR of_nat nn]"

definition rfc_blake2b :: "nat \<Rightarrow> nat \<Rightarrow> bytes \<Rightarrow> bytes" where
  "rfc_blake2b nn kk d =
     (let dd = max 1 ((length d + 127) div 128);
          h = foldl (\<lambda>h i. rfc_F h (rfc_block d i) (128 * (i + 1)) False) (rfc_h0 nn kk) [0..<dd - 1]
      in take nn (concat (map (le_enc 8) (rfc_F h (rfc_block d (dd - 1)) (length d) True))))"

lemma rotr64_word_rotr: "0 < n \<Longrightarrow> n < 64 \<Longrightarrow> rotr64 w n = word_rotr n w"
  using shifts_or_rotr [where 'a = 64, of n w] by (simp add: rotr64_def)

lemma G_rfc:
  assumes "distinct [a, b, c, d]" "a < length v" "b < length v" "c < length v" "d < length v"
  shows "blake2b_G m r i a b c d v =
    rfc_G v a b c d (m ! (blake2b_sigma ! r ! (2 * i))) (m ! (blake2b_sigma ! r ! (2 * i + 1)))"
proof -
  have rot: "rotr64 w 32 = word_rotr 32 w" "rotr64 w 24 = word_rotr 24 w"
      "rotr64 w 16 = word_rotr 16 w" "rotr64 w 63 = word_rotr 63 w" for w
    by (simp_all add: rotr64_word_rotr)
  have ne: "a \<noteq> b" "a \<noteq> c" "a \<noteq> d" "b \<noteq> c" "b \<noteq> d" "c \<noteq> d"
      "b \<noteq> a" "c \<noteq> a" "d \<noteq> a" "c \<noteq> b" "d \<noteq> b" "d \<noteq> c"
    using assms by auto
  have up: "v[a := a1, d := d1, c := c1, b := b1, a := a2, d := d2, c := c2, b := b2]
      = v[a := a2, b := b2, c := c2, d := d2]" for a1 d1 c1 b1 a2 d2 c2 b2
    using assms ne by (intro nth_equalityI) (simp_all add: nth_list_update)
  show ?thesis
    unfolding blake2b_G_def rfc_G_def rot
    using assms(2-5) by (simp only: up rfc_add_def rfc_xor_rot_def nth_list_update_eq nth_list_update_neq ne
        length_list_update not_False_eq_True add_0_right Let_def)
qed

lemma length_rfc_G [simp]: "length (rfc_G v a b c d x y) = length v"
  by (simp add: rfc_G_def rfc_add_def rfc_xor_rot_def)

lemma sigma_mod:
  assumes "r < 12"
  shows "blake2b_sigma ! (r mod 10) = blake2b_sigma ! r"
proof -
  consider "r < 10" | "r = 10" | "r = 11" using assms by linarith
  then show ?thesis by cases (simp_all add: blake2b_sigma_def)
qed

lemma columns_diagonals:
  "zip [0..<8] rfc_columns_diagonals =
     [(0, 0, 4, 8, 12), (1, 1, 5, 9, 13), (2, 2, 6, 10, 14), (3, 3, 7, 11, 15),
      (4, 0, 5, 10, 15), (5, 1, 6, 11, 12), (6, 2, 7, 8, 13), (7, 3, 4, 9, 14)]"
  by code_simp

lemma ROUND_rfc:
  assumes "length v = 16" and "r < 12"
  shows "blake2b_ROUND m v r = rfc_round m v r"
  by (simp add: blake2b_ROUND_def rfc_round_def columns_diagonals sigma_mod assms G_rfc)

lemma length_rfc_round [simp]: "length (rfc_round m v r) = length v"
  by (simp add: rfc_round_def columns_diagonals)

lemma rounds_rfc:
  "length v = 16 \<Longrightarrow> \<forall>r \<in> set rs. r < 12 \<Longrightarrow> foldl (blake2b_ROUND m) v rs = foldl (rfc_round m) v rs"
  by (induction rs arbitrary: v) (simp_all add: ROUND_rfc)

lemma core_rfc:
  assumes "length h = 8"
  shows "blake2b_core h (counter_words n) [if fl then - 1 else 0, 0] block = rfc_F h block n fl"
proof -
  have h: "map (\<lambda>i. h ! i) [0..<8] = h" using assms by (metis map_nth)
  have v: "h @ [blake2b_IV ! 0, blake2b_IV ! 1, blake2b_IV ! 2, blake2b_IV ! 3,
        blake2b_IV ! 4 XOR of_nat n, blake2b_IV ! 5 XOR of_nat (n div 2 ^ 64),
        blake2b_IV ! 6 XOR (if fl then - 1 else 0), blake2b_IV ! 7 XOR 0] = rfc_local_vector h n fl"
    using assms by (simp add: rfc_local_vector_def blake2b_IV_def Let_def nth_append list_update_append)
  have rounds: "foldl (blake2b_ROUND m) (rfc_local_vector h n fl) [0..<12] =
      foldl (rfc_round m) (rfc_local_vector h n fl) [0..<12]" for m
    using assms by (intro rounds_rfc) (simp_all add: rfc_local_vector_def Let_def blake2b_IV_def)
  define S where "S = blake2b_init0\<lparr>S_h := h, S_t := counter_words n, S_f := [if fl then - 1 else 0, 0]\<rparr>"
  have fields: "S_h S = h" "S_t S ! 0 = of_nat n" "S_t S ! 1 = of_nat (n div 2 ^ 64)"
      "S_f S ! 0 = (if fl then - 1 else 0)" "S_f S ! 1 = 0"
    by (simp_all add: S_def counter_words_def)
  show ?thesis
    unfolding blake2b_core_def S_def [symmetric] rx_blake2b_compress_integer_def fields h v rfc_F_def
    by (simp add: Let_def rounds load64_def del: upt_rec_numeral)
qed


lemma first_word:
  assumes "nn \<le> 64" and "kk \<le> 64"
  shows "load64 ([of_nat nn, of_nat kk, 1, 1, 0, 0, 0, 0] @ r) =
    0x01010000 XOR push_bit 8 (of_nat kk) XOR of_nat nn"
proof -
  have small: "ucast (of_nat n :: byte) = (of_nat n :: u64)" if "n \<le> 64" for n
    using that by (simp add: unsigned_of_nat take_bit_nat_eq_self)
  have or: "ucast a OR push_bit 8 (ucast b) OR push_bit 16 (w :: u64) =
      push_bit 16 w XOR push_bit 8 (ucast b) XOR ucast a" for a b :: byte and w
    by (rule bit_word_eqI) (auto simp: bit_simps dest: bit_imp_le_length)
  have "load64 ([a, b, 1, 1, 0, 0, 0, 0] @ r) = 0x01010000 XOR push_bit 8 (ucast b) XOR ucast a" for a b
    using or [of a b "0x101"] by (simp add: load64_def push_bit_push_bit)
  then show ?thesis by (simp add: small assms)
qed

lemma init_param_rfc:
  assumes "nn \<le> 64" and "kk \<le> 64"
  shows "rx_blake2b_init_param (blake2b_sequential_param nn kk) =
    (0, blake2b_init0\<lparr>S_h := rfc_h0 nn kk, S_outlen := nn\<rparr>)"
proof -
  let ?p = "param_bytes (blake2b_sequential_param nn kk)"
  have p: "?p = [of_nat nn, of_nat kk, 1, 1, 0, 0, 0, 0] @ replicate 56 0"
    by (simp add: param_bytes_def blake2b_sequential_param_def numeral_eq_Suc)
  have z: "load64 (drop (i * 8) ?p) = 0" if "0 < i" "i < 8" for i
  proof -
    have "drop (i * 8) ?p = replicate (64 - i * 8) 0"
      using that unfolding p by (subst drop_append) simp
    moreover have "8 \<le> 64 - i * 8" using that by simp
    ultimately show ?thesis by (simp add: load64_def min_def numeral_eq_Suc)
  qed
  have "map (\<lambda>i. blake2b_IV ! i XOR load64 (drop (i * 8) ?p)) [0..<8] = rfc_h0 nn kk"
  proof (rule nth_equalityI)
    fix i assume "i < length (map (\<lambda>i. blake2b_IV ! i XOR load64 (drop (i * 8) ?p)) [0..<8])"
    then have i: "i < 8" by simp
    show "map (\<lambda>i. blake2b_IV ! i XOR load64 (drop (i * 8) ?p)) [0..<8] ! i = rfc_h0 nn kk ! i"
    proof (cases "i = 0")
      case True
      then show ?thesis using first_word [OF assms, of "replicate 56 0"]
        by (simp add: rfc_h0_def p blake2b_IV_def xor.assoc)
    next
      case False
      then show ?thesis using i by (simp add: z rfc_h0_def del: upt_rec_numeral)
    qed
  qed (simp add: rfc_h0_def blake2b_IV_def)
  moreover have "unat (of_nat nn :: byte) = nn"
    using assms by (simp add: unat_of_nat)
  ultimately show ?thesis
    by (simp add: rx_blake2b_init_param_def Let_def blake2b_init0_def blake2b_sequential_param_def
        del: upt_rec_numeral)
qed

lemma length_rfc_F [simp]: "length (rfc_F h b n fl) = 8"
  by (simp add: rfc_F_def Let_def)

lemma rfc_block_drop: "rfc_block xs (Suc i) = rfc_block (drop 128 xs) i"
  by (simp add: rfc_block_def add.commute)

lemma rfc_block_0: "128 \<le> length xs \<Longrightarrow> rfc_block xs 0 = take 128 xs"
  by (simp add: rfc_block_def)

lemma foldl_upt_Suc: "foldl f a [0..<Suc k] = foldl (\<lambda>x i. f x (Suc i)) (f a 0) [0..<k]"
  by (simp add: upt_conv_Cons map_Suc_upt [symmetric] foldl_map del: upt_Suc)

lemma absorb_rfc:
  assumes "length h = 8"
  shows "absorb_lazy 128 blake2b_step (h, counter_words n) xs =
    (let k = (length xs - 1) div 128
     in ((foldl (\<lambda>h i. rfc_F h (rfc_block xs i) (n + 128 * (i + 1)) False) h [0..<k],
          counter_words (n + 128 * k)), drop (128 * k) xs))"
  using assms
proof (induction xs arbitrary: h n rule: length_induct)
  case (1 xs)
  show ?case
  proof (cases "length xs \<le> 128")
    case True
    then have "(length xs - 1) div 128 = 0" by simp
    then show ?thesis using True by simp
  next
    case False
    define k where "k = (length (drop 128 xs) - 1) div 128"
    have k: "(length xs - 1) div 128 = Suc k"
      using False by (simp add: k_def le_div_geq)
    let ?h = "rfc_F h (rfc_block xs 0) (n + 128) False"
    have "blake2b_step (h, counter_words n) (take 128 xs) = (?h, counter_words (n + 128))"
      using core_rfc [OF "1.prems", of "n + 128" False] False
      by (simp add: step_counter rfc_block_0)
    then have "absorb_lazy 128 blake2b_step (h, counter_words n) xs =
        absorb_lazy 128 blake2b_step (?h, counter_words (n + 128)) (drop 128 xs)"
      using False by (simp add: absorb_lazy.simps [of 128 blake2b_step _ xs])
    also have "\<dots> = ((foldl (\<lambda>h i. rfc_F h (rfc_block (drop 128 xs) i) (n + 128 + 128 * (i + 1)) False)
          ?h [0..<k], counter_words (n + 128 + 128 * k)), drop (128 * k) (drop 128 xs))"
      using "1.IH" False by (simp add: k_def Let_def del: drop_drop)
    finally show ?thesis unfolding k Let_def
      by (simp add: foldl_upt_Suc rfc_block_drop add.assoc add.commute [of 128] del: upt_Suc)
  qed
qed

definition blake2b_pad :: "bytes \<Rightarrow> bytes" where
  "blake2b_pad r = r @ replicate (128 - length r) 0"

fun blake2b_finish :: "(u64 list \<times> u64 list) \<times> bytes \<times> nat \<Rightarrow> bytes" where
  "blake2b_finish ((h, t), r, nn) =
     (let t' = S_t (blake2b_increment_counter (blake2b_init0\<lparr>S_t := t\<rparr>) (of_nat (length r)))
      in take nn (concat (map (le_enc 8) (blake2b_core h t' [- 1, 0] (blake2b_pad r)))))"

declare blake2b_finish.simps [simp del]

lemma final_finish:
  assumes "blake2b_inv S" and "S_outlen S \<le> outlen"
  shows "\<exists>S'. rx_blake2b_final S (Some dst) outlen =
      (0, S', Some (memcpy_at dst 0 (blake2b_finish (blake2b_view S)))) \<and> S_f S' ! 0 = - 1"
proof -
  let ?l = "S_buflen S"
  define t' where "t' = S_t (blake2b_increment_counter S (of_nat ?l))"
  have inc: "blake2b_increment_counter S (of_nat ?l) = S\<lparr>S_t := t'\<rparr>"
    by (metis t'_def increment_counter_S_t(2))
  have t: "t' = S_t (blake2b_increment_counter (blake2b_init0\<lparr>S_t := S_t S\<rparr>) (of_nat ?l))"
    by (metis t'_def increment_counter_S_t(1))
  have inv: "S_f S = [0, 0]" "length (S_buf S) = 128" "?l \<le> 128" "S_last_node S = 0"
    using assms by (simp_all add: blake2b_inv_def)
  have pad: "memcpy_at (S_buf S) ?l (replicate (128 - ?l) 0) = blake2b_pad (take ?l (S_buf S))"
    using inv by (simp add: memcpy_at_full blake2b_pad_def)
  have fin: "take (S_outlen S) (concat (map (le_enc 8) (blake2b_core (S_h S) t' [- 1, 0]
      (blake2b_pad (take ?l (S_buf S)))))) = blake2b_finish (blake2b_view S)"
    using inv by (simp add: blake2b_view_def blake2b_finish.simps t [symmetric] Let_def min_def)
  have words: "concat (map (\<lambda>i. store64 (h ! i)) [0..<8]) = concat (map (le_enc 8) h)" if "length h = 8" for h
    using that by (intro arg_cong [where f = concat] nth_equalityI) (simp_all add: store64_def)
  show ?thesis
    using assms(2) inv
    by (simp add: rx_blake2b_final_def inc blake2b_set_lastblock_def Let_def compress_core pad words fin
        del: upt_rec_numeral)
qed

lemma length_rfc_blake2b [simp]: "nn \<le> 64 \<Longrightarrow> length (rfc_blake2b nn kk d) = nn"
  by (simp add: rfc_blake2b_def Let_def length_concat comp_def sum_list_triv)

definition blake2b_fresh :: "nat \<Rightarrow> nat \<Rightarrow> blake2b_state" where
  "blake2b_fresh nn kk = blake2b_init0\<lparr>S_h := rfc_h0 nn kk, S_outlen := nn\<rparr>"

lemma fresh_inv: "nn \<le> 64 \<Longrightarrow> blake2b_inv (blake2b_fresh nn kk)"
  by (auto simp: blake2b_inv_def blake2b_fresh_def blake2b_init0_def rfc_h0_def blake2b_IV_def
      counter_words_def intro: exI [of _ 0])

lemma last_block_index: "max 1 ((n + 127) div 128) - 1 = (n - 1) div (128 :: nat)"
proof (cases n)
  case (Suc m)
  have "(n + 127) div 128 = m div 128 + 1" by (simp add: Suc)
  then show ?thesis by (simp add: Suc)
qed simp

lemma finish_fresh:
  "blake2b_finish (blake2b_absorb (blake2b_view (blake2b_fresh nn kk)) d) = rfc_blake2b nn kk d"
proof -
  define k where "k = (length d - 1) div 128"
  define h where "h = foldl (\<lambda>h i. rfc_F h (rfc_block d i) (128 * (i + 1)) False) (rfc_h0 nn kk) [0..<k]"
  have h8: "length h = 8"
    unfolding h_def by (cases k) (simp_all add: rfc_h0_def blake2b_IV_def)
  have v: "blake2b_view (blake2b_fresh nn kk) = ((rfc_h0 nn kk, counter_words 0), [], nn)"
    by (simp add: blake2b_view_def blake2b_fresh_def blake2b_init0_def counter_words_def)
  have a: "absorb_lazy 128 blake2b_step (rfc_h0 nn kk, counter_words 0) d =
      ((h, counter_words (128 * k)), drop (128 * k) d)"
    using absorb_rfc [of "rfc_h0 nn kk" 0 d]
    by (simp add: k_def h_def Let_def rfc_h0_def blake2b_IV_def)
  have le: "128 * k \<le> length d" "length d - 128 * k \<le> 128"
    unfolding k_def by (cases "length d"; simp; linarith)+
  have cnt: "S_t (blake2b_increment_counter (blake2b_init0\<lparr>S_t := counter_words (128 * k)\<rparr>)
      (of_nat (length d - 128 * k))) = counter_words (length d)"
    using blake2b_increment_counter_carry [of "blake2b_init0\<lparr>S_t := counter_words (128 * k)\<rparr>" "128 * k"
        "length d - 128 * k"] le by simp
  have pad: "blake2b_pad (drop (128 * k) d) = rfc_block d k"
    using le by (simp add: blake2b_pad_def rfc_block_def Let_def)
  have "blake2b_finish (blake2b_absorb (blake2b_view (blake2b_fresh nn kk)) d) =
      take nn (concat (map (le_enc 8) (rfc_F h (rfc_block d k) (length d) True)))"
    using core_rfc [OF h8, of "length d" True]
    by (simp add: v blake2b_absorb.simps a blake2b_finish.simps cnt pad)
  then show ?thesis
    unfolding rfc_blake2b_def Let_def last_block_index k_def [symmetric] h_def .
qed

definition blake2b_output :: "blake2b_state \<Rightarrow> int \<times> bytes option" where
  "blake2b_output S = (let (ret, S', out) = rx_blake2b_final S (Some (replicate 64 0)) 64 in (ret, out))"

lemma blake2b_absorb_view:
  assumes "blake2b_inv S"
  shows "blake2b_absorb (blake2b_view S) [] = blake2b_view S"
    and "blake2b_absorb (blake2b_absorb (blake2b_view S) d) e = blake2b_absorb (blake2b_view S) (d @ e)"
proof -
  let ?c = "(S_h S, S_t S)" and ?r = "take (S_buflen S) (S_buf S)"
  show "blake2b_absorb (blake2b_view S) [] = blake2b_view S"
    using assms by (simp add: blake2b_view_def blake2b_absorb.simps blake2b_inv_def)
  obtain c' r' where ab: "absorb_lazy 128 blake2b_step ?c (?r @ d) = (c', r')" by fastforce
  show "blake2b_absorb (blake2b_absorb (blake2b_view S) d) e = blake2b_absorb (blake2b_view S) (d @ e)"
    using absorb_lazy_append [OF _ ab, of e] by (simp add: blake2b_view_def blake2b_absorb.simps ab)
qed

interpretation b2b: stream_hash blake2b_inv blake2b_view blake2b_absorb blake2b_feed blake2b_output
proof
  show "blake2b_output S = blake2b_output S'"
    if "blake2b_inv S" "blake2b_inv S'" "blake2b_view S = blake2b_view S'" for S S'
    using that final_finish [of S 64 "replicate 64 0"] final_finish [of S' 64 "replicate 64 0"]
    by (auto simp: blake2b_output_def blake2b_inv_def)
qed (simp_all add: blake2b_feed_view blake2b_absorb_view)

lemma update_feed:
  assumes "blake2b_inv S" and "n \<le> length d"
  shows "rx_blake2b_update S (Some d) n = (0, blake2b_feed S (take n d))"
proof -
  have "rx_blake2b_update S (Some d) n = rx_blake2b_update S (Some (take n d)) (length (take n d))"
    using assms(2) by (simp add: rx_blake2b_update_def min_def)
  then show ?thesis
    using blake2b_feed_view(3) [OF assms(1)] by (metis blake2b_feed_def prod.collapse)
qed

lemma init_fresh: "0 < nn \<Longrightarrow> nn \<le> 64 \<Longrightarrow> rx_blake2b_init S nn = (0, blake2b_fresh nn 0)"
  by (simp add: rx_blake2b_init_def init_param_rfc blake2b_fresh_def)

lemma final_fresh:
  assumes "blake2b_inv S" and "blake2b_view S = blake2b_absorb (blake2b_view (blake2b_fresh nn kk)) d"
    and "nn \<le> outlen"
  shows "\<exists>S'. rx_blake2b_final S (Some dst) outlen = (0, S', Some (memcpy_at dst 0 (rfc_blake2b nn kk d)))
           \<and> S_f S' ! 0 = - 1"
proof -
  have "S_outlen S = nn"
    using assms(2) by (auto simp: blake2b_view_def blake2b_fresh_def blake2b_absorb.simps split: prod.splits)
  then show ?thesis
    using final_finish [OF assms(1), of outlen dst] assms(3) by (simp add: assms(2) finish_fresh)
qed

text \<open>A null pointer with length zero stands for the empty message.\<close>

definition blake2b_input :: "bytes option \<Rightarrow> nat \<Rightarrow> bytes" where
  "blake2b_input inp n = take n (case inp of Some d \<Rightarrow> d | None \<Rightarrow> [])"

lemma update_input:
  assumes "blake2b_inv S" and "case inp of Some d \<Rightarrow> n \<le> length d | None \<Rightarrow> n = 0"
  shows "rx_blake2b_update S inp n = (0, blake2b_feed S (blake2b_input inp n))"
proof (cases inp)
  case None
  then have "n = 0" using assms(2) by simp
  then show ?thesis by (simp add: blake2b_input_def blake2b_feed_def rx_blake2b_update_def)
next
  case (Some d)
  then show ?thesis using assms by (simp add: blake2b_input_def update_feed)
qed

lemma default_rfc:
  assumes "case inp of Some d \<Rightarrow> n \<le> length d | None \<Rightarrow> n = 0" and "0 < nn" "nn \<le> 64"
  shows "rx_blake2b_default stack (Some dst) nn inp n =
    (0, Some (memcpy_at dst 0 (rfc_blake2b nn 0 (blake2b_input inp n))))"
proof -
  let ?S = "blake2b_feed (blake2b_fresh nn 0) (blake2b_input inp n)"
  have i: "blake2b_inv (blake2b_fresh nn 0)" using assms by (simp add: fresh_inv)
  obtain S' where "rx_blake2b_final ?S (Some dst) nn =
      (0, S', Some (memcpy_at dst 0 (rfc_blake2b nn 0 (blake2b_input inp n))))"
    using final_fresh [OF b2b.inv_update [OF i] b2b.view_update [OF i]] by blast
  moreover have "\<not> (inp = None \<and> 0 < n)" using assms(1) by (auto split: option.splits)
  ultimately show ?thesis
    using assms by (simp add: rx_blake2b_default_def init_fresh update_input [OF i assms(1)])
qed


section \<open>The properties\<close>

lemma updates_fresh:
  assumes "nn \<le> 64"
  shows "blake2b_inv (foldl blake2b_feed (blake2b_fresh nn kk) ds)"
    and "blake2b_view (foldl blake2b_feed (blake2b_fresh nn kk) ds) =
      blake2b_absorb (blake2b_view (blake2b_fresh nn kk)) (concat ds)"
  using assms by (simp_all add: fresh_inv b2b.inv_updates b2b.view_updates)

lemma reuse_rejected:
  assumes "S_f S ! 0 = - 1"
  shows "0 < n \<Longrightarrow> rx_blake2b_update S inp n = (- 1, S)" and "rx_blake2b_final S out outlen = (- 1, S, out)"
  using assms by (auto simp: rx_blake2b_update_def rx_blake2b_final_def split: option.splits)

text \<open>
  C23. One call of \<open>rx_blake2b_default\<close>, whatever the uninitialised local state holds: a null
  input with a positive length, a null output and a digest length outside 1 to 64 return -1
  and leave the output alone; every other call returns 0 and writes exactly the unkeyed
  RFC 7693 digest of the input to the front of the output. The input buffer must hold the
  bytes its length announces.
\<close>

theorem rx_blake2b_default_correct:
  assumes "\<forall>d. inp = Some d \<longrightarrow> inlen \<le> length d"
  shows "rx_blake2b_default stack out outlen inp inlen =
    (if (inp = None \<and> 0 < inlen) \<or> out = None \<or> outlen = 0 \<or> 64 < outlen then (- 1, out)
     else (0, Some (memcpy_at (the out) 0 (rfc_blake2b outlen 0 (blake2b_input inp inlen)))))"
proof (cases "(inp = None \<and> 0 < inlen) \<or> out = None \<or> outlen = 0 \<or> 64 < outlen")
  case True
  then show ?thesis by (auto simp: rx_blake2b_default_def)
next
  case False
  then obtain dst where "out = Some dst" "0 < outlen" "outlen \<le> 64" by auto
  then show ?thesis
    using default_rfc [of inlen inp outlen stack dst] assms False by (auto split: option.splits)
qed

theorem rx_blake2b_default_correct_witness:
  "rx_blake2b_default blake2b_init0 (Some [9, 9, 9, 9]) 3 (Some [1, 2, 3]) 2 =
     (0, Some (rfc_blake2b 3 0 [1, 2] @ [9])) \<and>
   rx_blake2b_default blake2b_init0 (Some [9, 9, 9, 9]) 65 (Some [1, 2, 3]) 2 = (- 1, Some [9, 9, 9, 9])"
  using rx_blake2b_default_correct [of "Some [1, 2, 3]" 2 blake2b_init0 "Some [9, 9, 9, 9]"]
  by (simp add: blake2b_input_def memcpy_at_zero)

text \<open>
  C8. The incremental interface: from any state, \<open>rx_blake2b_init\<close> with a digest length of 1 to
  64 succeeds; then every update succeeds, however the message is cut into pieces, and
  \<open>rx_blake2b_final\<close> succeeds and writes the RFC 7693 digest of the concatenation. The finished
  state is dead: each further non-empty update and each further finish returns -1 and changes
  nothing.
\<close>

theorem rx_blake2b_streaming_correct:
  assumes "0 < nn" and "nn \<le> 64" and "nn \<le> outlen"
  shows "\<exists>S S'. rx_blake2b_init junk nn = (0, S) \<and>
     (\<forall>ds d. fst (rx_blake2b_update (foldl blake2b_feed S ds) (Some d) (length d)) = 0) \<and>
     rx_blake2b_final (foldl blake2b_feed S ds) (Some dst) outlen =
       (0, S', Some (memcpy_at dst 0 (rfc_blake2b nn 0 (concat ds)))) \<and>
     (\<forall>inp n. 0 < n \<longrightarrow> rx_blake2b_update S' inp n = (- 1, S')) \<and>
     (\<forall>out n. rx_blake2b_final S' out n = (- 1, S', out))"
proof -
  obtain S' where S': "rx_blake2b_final (foldl blake2b_feed (blake2b_fresh nn 0) ds) (Some dst) outlen =
      (0, S', Some (memcpy_at dst 0 (rfc_blake2b nn 0 (concat ds))))" "S_f S' ! 0 = - 1"
    using final_fresh [OF updates_fresh [OF assms(2)] assms(3)] by blast
  have "fst (rx_blake2b_update (foldl blake2b_feed (blake2b_fresh nn 0) ds) (Some d) (length d)) = 0" for ds d
    by (rule blake2b_feed_view(3) [OF updates_fresh(1) [OF assms(2)]])
  then show ?thesis
    using S' reuse_rejected init_fresh [OF assms(1,2)] by blast
qed

theorem rx_blake2b_streaming_correct_witness:
  "\<exists>S S'. rx_blake2b_init blake2b_init0 2 = (0, S) \<and>
     rx_blake2b_final (foldl blake2b_feed S [[1], [2, 3]]) (Some [0, 0, 7]) 3 =
       (0, S', Some (rfc_blake2b 2 0 [1, 2, 3] @ [7])) \<and> rx_blake2b_update S' (Some [4]) 1 = (- 1, S')"
  using rx_blake2b_streaming_correct [of 2 3 blake2b_init0 "[[1], [2, 3]]" "[0, 0, 7]"]
  by (auto simp: memcpy_at_zero)

text \<open>
  Keyed hashing: with a digest length of 1 to 64 and a key of 1 to 64 bytes,
  \<open>rx_blake2b_init_key\<close> succeeds and the digest of the pieces that follow is the RFC 7693
  keyed digest, whose first block is the key padded with zeros. A missing key or lengths out of
  range return -1 and leave a state that refuses every further input.
\<close>

theorem rx_blake2b_init_key_correct:
  assumes "keylen \<le> length k" and "length (S_f junk) = 2"
  shows "if 0 < nn \<and> nn \<le> 64 \<and> 0 < keylen \<and> keylen \<le> 64
    then \<exists>S S'. rx_blake2b_init_key junk nn (Some k) keylen = (0, S) \<and>
      rx_blake2b_final (foldl blake2b_feed S ds) (Some dst) nn =
        (0, S', Some (memcpy_at dst 0
           (rfc_blake2b nn keylen (take keylen k @ replicate (128 - keylen) 0 @ concat ds))))
    else \<exists>S. rx_blake2b_init_key junk nn (Some k) keylen = (- 1, S) \<and>
      (\<forall>inp n. 0 < n \<longrightarrow> rx_blake2b_update S inp n = (- 1, S)) \<and>
      (\<forall>out n. rx_blake2b_final S out n = (- 1, S, out))"
proof (cases "0 < nn \<and> nn \<le> 64 \<and> 0 < keylen \<and> keylen \<le> 64")
  case True
  define block where "block = take keylen k @ replicate (128 - keylen) (0 :: byte)"
  have len: "length block = 128" using assms True by (simp add: block_def)
  have "memcpy_at (replicate 128 0) 0 (take keylen k) = block"
    using assms True by (simp add: memcpy_at_zero block_def min_def)
  then have init: "rx_blake2b_init_key junk nn (Some k) keylen = (0, blake2b_feed (blake2b_fresh nn keylen) block)"
    using True len
    by (simp add: rx_blake2b_init_key_def init_param_rfc blake2b_fresh_def [symmetric] blake2b_feed_def)
  have "\<exists>S'. rx_blake2b_final (foldl blake2b_feed (blake2b_feed (blake2b_fresh nn keylen) block) ds)
      (Some dst) nn = (0, S', Some (memcpy_at dst 0 (rfc_blake2b nn keylen (block @ concat ds))))"
    using final_fresh [OF updates_fresh [of nn keylen "block # ds"]] True by auto
  then show ?thesis using True init by (simp add: block_def)
next
  case False
  have "S_f (blake2b_invalidate_state junk) ! 0 = - 1"
    using assms(2) by (simp add: blake2b_invalidate_state_def blake2b_set_lastblock_def blake2b_set_lastnode_def Let_def)
  then show ?thesis
    using False reuse_rejected [of "blake2b_invalidate_state junk"]
    by (auto simp: rx_blake2b_init_key_def)
qed

theorem rx_blake2b_init_key_correct_witness:
  "\<exists>S S'. rx_blake2b_init_key blake2b_init0 1 (Some [5, 6]) 2 = (0, S) \<and>
     rx_blake2b_final (foldl blake2b_feed S [[1], [2]]) (Some [0]) 1 =
       (0, S', Some (rfc_blake2b 1 2 ([5, 6] @ replicate 126 0 @ [1, 2])))"
  using rx_blake2b_init_key_correct [of 2 "[5, 6]" blake2b_init0 1 "[[1], [2]]" "[0]"]
  by (auto simp: memcpy_at_zero blake2b_init0_def)

section \<open>The variable-length hash function of RFC 9106\<close>

definition argon2_V :: "bytes \<Rightarrow> nat \<Rightarrow> bytes" where
  "argon2_V V1 i = (rfc_blake2b 64 0 ^^ (i - 1)) V1"

definition argon2_H' :: "nat \<Rightarrow> bytes \<Rightarrow> bytes" where
  "argon2_H' T A =
     (if T \<le> 64 then rfc_blake2b T 0 (le_enc 4 (of_nat T :: u32) @ A)
      else
        let r = (T + 31) div 32 - 2;
            V = argon2_V (rfc_blake2b 64 0 (le_enc 4 (of_nat T :: u32) @ A))
        in concat (map (\<lambda>i. take 32 (V i)) [1..<r + 1]) @ rfc_blake2b (T - 32 * r) 0 (V r))"

lemma default_same:
  assumes "length buf = 64" and "0 < n" and "n \<le> 64"
  shows "rx_blake2b_default stack (Some buf) n (Some buf) 64 =
    (0, Some (memcpy_at buf 0 (rfc_blake2b n 0 buf)))"
  using default_rfc [of 64 "Some buf" n stack buf] assms by (simp add: blake2b_input_def)

lemma long_loop_spec:
  assumes "length V = 64"
  shows "blake2b_long_loop stack done V n =
    (let q = (n - 64 + 31) div 32
     in (0, done @ concat (map (\<lambda>i. take 32 ((rfc_blake2b 64 0 ^^ Suc i) V)) [0..<q]),
         (rfc_blake2b 64 0 ^^ q) V, n - 32 * q))"
  using assms
proof (induction stack "done" V n rule: blake2b_long_loop.induct)
  case (1 stack "done" V n)
  show ?case
  proof (cases "64 < n")
    case True
    let ?V = "rfc_blake2b 64 0 V"
    define q where "q = (n - 32 - 64 + 31) div 32"
    have q: "(n - 64 + 31) div 32 = Suc q"
      using True by (cases "n < 96") (simp_all add: q_def le_div_geq)
    have d: "rx_blake2b_default stack (Some V) 64 (Some V) 64 = (0, Some ?V)"
      using default_same [OF "1.prems", of 64 stack] "1.prems" by (simp add: memcpy_at_zero)
    have "blake2b_long_loop stack done V n =
        blake2b_long_loop stack (done @ take 32 ?V) ?V (n - 32)"
      using True by (simp add: blake2b_long_loop.simps [of _ _ V n] d)
    also have "\<dots> = (0, (done @ take 32 ?V) @ concat (map (\<lambda>i. take 32 ((rfc_blake2b 64 0 ^^ Suc i) ?V)) [0..<q]),
         (rfc_blake2b 64 0 ^^ q) ?V, n - 32 - 32 * q)"
      using "1.IH" [of "(0, Some ?V)" 0 "Some ?V"] d True by (simp add: q_def Let_def)
    finally show ?thesis
      unfolding q Let_def
      by (simp add: upt_conv_Cons map_Suc_upt [symmetric] funpow_swap1 comp_def del: upt_Suc)
  next
    case False
    then have "(n - 64 + 31) div 32 = 0" by simp
    then show ?thesis using False by (simp add: blake2b_long_loop.simps [of _ _ V n])
  qed
qed

lemma long_head_spec:
  assumes "case inp of Some d \<Rightarrow> n \<le> length d | None \<Rightarrow> n = 0" and "0 < nn" and "nn \<le> 64"
  shows "blake2b_long_head stack nn p inp n out =
    (0, memcpy_at out 0 (rfc_blake2b nn 0 (p @ blake2b_input inp n)))"
proof -
  let ?S = "foldl blake2b_feed (blake2b_fresh nn 0) [p, blake2b_input inp n]"
  obtain S' where f: "rx_blake2b_final ?S (Some out) nn =
      (0, S', Some (memcpy_at out 0 (rfc_blake2b nn 0 (p @ blake2b_input inp n))))"
    using final_fresh [OF updates_fresh [OF assms(3)] order.refl, of 0 "[p, blake2b_input inp n]" out] by auto
  have u1: "rx_blake2b_update (blake2b_fresh nn 0) (Some p) (length p) = (0, blake2b_feed (blake2b_fresh nn 0) p)"
    using update_feed [OF fresh_inv [OF assms(3)], of "length p" p] by simp
  have u2: "rx_blake2b_update (blake2b_feed (blake2b_fresh nn 0) p) inp n = (0, ?S)"
    using update_input [OF b2b.inv_update [OF fresh_inv [OF assms(3)]] assms(1)] by simp
  show ?thesis
    using assms f by (simp add: blake2b_long_head_def init_fresh u1 u2)
qed

lemma long_spec:
  assumes "case inp of Some d \<Rightarrow> n \<le> length d | None \<Rightarrow> n = 0" and "0 < T" and "T < 2 ^ 32"
  shows "rxa2_blake2b_long stack out T inp n = (0, memcpy_at out 0 (argon2_H' T (blake2b_input inp n)))"
proof (cases "T \<le> 64")
  case True
  then show ?thesis
    using assms by (simp add: rxa2_blake2b_long_def long_head_spec argon2_H'_def store32_def)
next
  case False
  define A where "A = le_enc 4 (of_nat T :: u32) @ blake2b_input inp n"
  define V1 where "V1 = rfc_blake2b 64 0 A"
  define q where "q = (T - 32 - 64 + 31) div 32"
  have r: "(T + 31) div 32 - 2 = Suc q" and q: "T - 32 - 32 * q = T - 32 * Suc q"
    using False by (cases "T < 96"; simp add: q_def le_div_geq)+
  define m where "m = T - 32 * Suc q"
  have m: "0 < m" "m \<le> 64"
    using False unfolding q_def m_def by (cases "T < 96"; simp; linarith)+
  have v1: "length V1 = 64" by (simp add: V1_def)
  have lenV: "length ((rfc_blake2b 64 0 ^^ i) V1) = 64" for i
    by (cases i) (simp_all add: v1)
  have head: "blake2b_long_head stack 64 (store32 (of_nat T)) inp n (replicate 64 0) = (0, V1)"
    by (simp add: long_head_spec assms memcpy_at_zero store32_def V1_def A_def)
  have loop: "blake2b_long_loop stack (take 32 V1) V1 (T - 32) =
     (0, concat (map (\<lambda>i. take 32 (argon2_V V1 i)) [1..<Suc q + 1]), argon2_V V1 (Suc q), m)"
    unfolding m_def long_loop_spec [OF v1] q_def [symmetric] Let_def q
    by (simp add: upt_conv_Cons map_Suc_upt [symmetric] comp_def argon2_V_def del: upt_Suc)
  have lenVq: "length (argon2_V V1 (Suc q)) = 64" by (simp add: argon2_V_def lenV)
  have fin: "take m (memcpy_at (argon2_V V1 (Suc q)) 0 (rfc_blake2b m 0 (argon2_V V1 (Suc q)))) =
      rfc_blake2b m 0 (argon2_V V1 (Suc q))"
    using m by (simp add: memcpy_at_zero)
  have "argon2_H' T (blake2b_input inp n) = concat (map (\<lambda>i. take 32 (argon2_V V1 i)) [1..<Suc q + 1]) @
      rfc_blake2b m 0 (argon2_V V1 (Suc q))"
    using False by (simp add: argon2_H'_def r A_def V1_def m_def Let_def)
  then show ?thesis
    using False assms(3)
    by (simp add: rxa2_blake2b_long_def head loop default_same [OF lenVq m] fin del: upt_Suc)
qed

text \<open>
  C24. \<open>rxa2_blake2b_long\<close> is the variable-length hash H' of Argon2 (RFC 9106, section 3.3): for
  every output length from 1 to 2^32 - 1 it returns 0 and writes H' of the input, prefixed with
  the length, to the front of the output; the loop of 64-byte digests ends with between 33 and
  64 bytes left to produce. The lengths 0 and 2^32 and above return -1 and write nothing.
\<close>

theorem rxa2_blake2b_long_correct:
  assumes "\<forall>d. inp = Some d \<longrightarrow> inlen \<le> length d" and "inp = None \<longrightarrow> inlen = 0"
  shows "rxa2_blake2b_long stack out outlen inp inlen =
    (if outlen = 0 \<or> 2 ^ 32 \<le> outlen then (- 1, out)
     else (0, memcpy_at out 0 (argon2_H' outlen (blake2b_input inp inlen))))"
proof (cases "outlen = 0 \<or> 2 ^ 32 \<le> outlen")
  case True
  then show ?thesis
    by (auto simp: rxa2_blake2b_long_def blake2b_long_head_def rx_blake2b_init_def)
next
  case False
  then show ?thesis
    using long_spec [of inlen inp outlen stack out] assms by (auto split: option.splits)
qed

theorem rxa2_blake2b_long_correct_witness:
  "rxa2_blake2b_long blake2b_init0 (replicate 100 0) 100 (Some [1]) 1 =
     (0, memcpy_at (replicate 100 0) 0 (argon2_H' 100 [1]))"
  using rxa2_blake2b_long_correct [of "Some [1]" 1 blake2b_init0 "replicate 100 0" 100]
  by (simp add: blake2b_input_def)

end
