(* ===== verification/Job_Boundary.thy ===== *)
theory Job_Boundary
  imports MoM_Prelude
begin

text \<open>
  The boundary between pool jobs and workers: \<^verbatim>\<open>native/job-boundary.h\<close>, with the one method of
  \<^verbatim>\<open>native/core.h\<close> that drives its nonce batches. The C++ templates over an unsigned type are
  definitions over \<open>'a::len word\<close>; a \<open>bool\<close> result with an output reference is an option
  (\<open>None\<close> is \<open>false\<close>, which leaves the reference alone).
\<close>

section \<open>Numbers and pairs in text\<close>

text \<open>The value of a digit character, for every radix up to 36.\<close>

definition digit_of :: "char \<Rightarrow> nat option" where
  "digit_of c =
     (let character = (of_char c :: nat)
      in if 48 \<le> character \<and> character \<le> 57 then Some (character - 48)
         else if 97 \<le> character \<and> character \<le> 122 then Some (character - 97 + 10)
         else if 65 \<le> character \<and> character \<le> 90 then Some (character - 65 + 10)
         else None)"

fun parse_digits :: "nat \<Rightarrow> 'a::len word \<Rightarrow> string \<Rightarrow> 'a word option" where
  "parse_digits base value [] = Some value"
| "parse_digits base value (c # text) =
     (case digit_of c of
        None \<Rightarrow> None
      | Some digit \<Rightarrow>
          if base \<le> digit then None
          else
            let radix = (of_nat base :: 'a word);
                maximum = (- 1 :: 'a word);
                digit_value = (of_nat digit :: 'a word)
            in if (maximum - digit_value) div radix < value then None
               else parse_digits base (value * radix + digit_value) text)"

definition skip_hex_prefix :: "string \<Rightarrow> nat \<Rightarrow> bool \<Rightarrow> string" where
  "skip_hex_prefix text base allow_hex_prefix =
     (if allow_hex_prefix \<and> base = 16 \<and> 2 \<le> length text \<and> text ! 0 = CHR ''0'' \<and>
         (text ! 1 = CHR ''x'' \<or> text ! 1 = CHR ''X'')
      then drop 2 text else text)"

definition parse_unsigned :: "string \<Rightarrow> nat \<Rightarrow> bool \<Rightarrow> 'a::len word option" where
  "parse_unsigned text base allow_hex_prefix =
     (if base < 2 \<or> 36 < base then None
      else
        let digits = skip_hex_prefix text base allow_hex_prefix
        in if digits = [] then None else parse_digits base 0 digits)"

text \<open>\<^verbatim>\<open>std::string_view::find\<close>: the first position at or after \<open>from\<close>.\<close>

fun find_char :: "char \<Rightarrow> string \<Rightarrow> nat \<Rightarrow> nat option" where
  "find_char c [] i = None"
| "find_char c (x # xs) i = (if x = c then Some i else find_char c xs (i + 1))"

definition split_once :: "string \<Rightarrow> char \<Rightarrow> (string \<times> string) option" where
  "split_once text delimiter =
     (case find_char delimiter text 0 of
        None \<Rightarrow> None
      | Some position \<Rightarrow>
          if position = 0 \<or> position + 1 = length text then None
          else if find_char delimiter (drop (position + 1) text) (position + 1) \<noteq> None then None
          else Some (take position text, drop (position + 1) text))"

section \<open>Layouts\<close>

definition nonce_big_endian :: "string \<Rightarrow> nat \<Rightarrow> bool" where
  "nonce_big_endian algo blob_size \<longleftrightarrow>
     (algo = ''fishhash'' \<and> blob_size = 180) \<or> algo = ''xelishashv3'' \<or>
     algo = ''nexapow'' \<or> algo = ''beamhash3''"

definition fishhash_nonce_offset :: "nat \<Rightarrow> nat" where
  "fishhash_nonce_offset blob_size =
     (if blob_size = 40 then 32 else if blob_size = 180 then 172 else 2 ^ 64 - 1)"

definition valid_fishhash_layout :: "nat \<Rightarrow> nat \<Rightarrow> bool" where
  "valid_fishhash_layout blob_size offset \<longleftrightarrow>
     (let expected = fishhash_nonce_offset blob_size in expected \<noteq> 2 ^ 64 - 1 \<and> offset = expected)"

definition valid_karlsenhashv2_layout :: "nat \<Rightarrow> nat \<Rightarrow> bool" where
  "valid_karlsenhashv2_layout blob_size offset \<longleftrightarrow> blob_size = 80 \<and> offset = 72"

definition valid_nexapow_layout :: "nat \<Rightarrow> nat \<Rightarrow> bool" where
  "valid_nexapow_layout blob_size offset \<longleftrightarrow>
     (blob_size = 40 \<and> offset = 32) \<or> (blob_size = 44 \<and> offset = 36) \<or>
     (blob_size = 48 \<and> offset = 40)"

definition valid_cn_gpu_input :: "nat \<Rightarrow> bool" where
  "valid_cn_gpu_input size_in \<longleftrightarrow> 0 < size_in \<and> size_in \<le> 135"

definition valid_beamhash3_input :: "nat \<Rightarrow> bool" where
  "valid_beamhash3_input size_in \<longleftrightarrow> size_in = 44"

definition padded_u32_range_fits :: "u32 \<Rightarrow> u32 \<Rightarrow> bool" where
  "padded_u32_range_fits count alignment \<longleftrightarrow>
     alignment \<noteq> 0 \<and> count \<le> - 1 - (alignment - 1)"

definition valid_pearlhash_shape :: "u64 \<Rightarrow> u64 \<Rightarrow> u64 \<Rightarrow> u64 \<Rightarrow> bool" where
  "valid_pearlhash_shape m n k rank =
     (let rank_power_of_two = (rank \<noteq> 0 \<and> rank AND (rank - 1) = 0);
          max_dimension = push_bit 24 1;
          max_k = push_bit 16 1
      in if m < 128 \<or> max_dimension < m \<or> m mod 32 \<noteq> 0 \<or>
            n < 128 \<or> max_dimension < n \<or> n mod 32 \<noteq> 0 \<or>
            k < 1024 \<or> max_k < k \<or> k mod 64 \<noteq> 0 \<or> rank < 128 \<or> 1024 < rank \<or>
            \<not> rank_power_of_two \<or> k < 16 * rank \<or> 4 * rank * rank < k
         then False
         else
           let tile_rows = m div 16;
               tile_columns = n div 16;
               maximum = (- 1 :: u64);
               signed_max = 2147483647
           in m \<le> signed_max div rank \<and> n \<le> signed_max div rank \<and> m \<le> signed_max div k \<and>
              tile_rows \<le> signed_max div tile_columns \<and> n \<le> maximum div m \<and> m * n \<le> maximum div k)"

definition c29_completed_graphs :: "int \<Rightarrow> u64" where
  "c29_completed_graphs result = (if result = 0 then 1 else 0)"

section \<open>Nonce arithmetic\<close>

definition nonce_overflowed :: "u64 \<Rightarrow> u64 \<Rightarrow> u64 \<Rightarrow> bool" where
  "nonce_overflowed previous next_nonce protected_mask \<longleftrightarrow>
     next_nonce < previous \<or> (previous AND protected_mask) \<noteq> (next_nonce AND protected_mask)"

definition nonce_with_offset ::
  "'a::len word \<Rightarrow> u64 \<Rightarrow> u64 \<Rightarrow> 'a word \<Rightarrow> 'a word option" where
  "nonce_with_offset base index stride protected_mask =
     (if index \<noteq> 0 \<and> - 1 div index < stride then None
      else
        let offset = index * stride;
            maximum = (- 1 :: 'a word)
        in if ucast (maximum - base) < offset then None
           else
             let candidate = base + ucast offset
             in if protected_mask \<noteq> 0 \<and> (base AND protected_mask) \<noteq> (candidate AND protected_mask)
                then None else Some candidate)"

definition pearl_seed_start :: "u32 \<Rightarrow> u32 \<Rightarrow> u32 \<Rightarrow> u32 \<Rightarrow> u32 option" where
  "pearl_seed_start slot thread_id thread_num stride =
     (if thread_num = 0 \<or> thread_num \<le> thread_id \<or> stride = 0 then None
      else nonce_with_offset slot (ucast thread_id) (ucast stride) 0)"

definition pearl_seed_next :: "u32 \<Rightarrow> u64 \<Rightarrow> u32 option" where
  "pearl_seed_next current step =
     (let maximum = (4294967295 :: u64)
      in if step = 0 \<or> maximum < step \<or> maximum - step < ucast current then None
         else Some (ucast (ucast current + step :: u64)))"

text \<open>
  \<open>next_nonce_batch\<close> also writes its references when it fails half-way: \<open>last\<close> once the
  current batch fits, \<open>next\<close> once its successor starts in range. The result is the pair of
  written values and the verdict.
\<close>

definition next_nonce_batch ::
  "'a::len word \<Rightarrow> u64 \<Rightarrow> u64 \<Rightarrow> u64 \<Rightarrow> 'a word \<Rightarrow> 'a word option \<times> 'a word option \<times> bool" where
  "next_nonce_batch first_nonce count lane_stride batch_stride protected_mask =
     (if count = 0 then (None, None, False)
      else case nonce_with_offset first_nonce (count - 1) lane_stride protected_mask of
        None \<Rightarrow> (None, None, False)
      | Some last_nonce \<Rightarrow>
          (case nonce_with_offset first_nonce 1 batch_stride protected_mask of
             None \<Rightarrow> (Some last_nonce, None, False)
           | Some next_nonce \<Rightarrow>
               (Some last_nonce, Some next_nonce,
                nonce_with_offset next_nonce (count - 1) lane_stride protected_mask \<noteq> None)))"

text \<open>
  \<^verbatim>\<open>Core::next_nonce_after_batch\<close>: the nonce the worker goes on with and whether it raises
  \<^verbatim>\<open>m_nonce_exhausted\<close>.
\<close>

definition next_nonce_after_batch ::
  "u64 \<Rightarrow> 'a::len word \<Rightarrow> u64 \<Rightarrow> u64 \<Rightarrow> u64 \<Rightarrow> 'a word \<Rightarrow> 'a word \<times> bool" where
  "next_nonce_after_batch m_target first_nonce count lane_stride batch_stride protected_mask =
     (if m_target = 0 then (first_nonce + ucast batch_stride, False)
      else case next_nonce_batch first_nonce count lane_stride batch_stride protected_mask of
        (last_nonce, next_nonce, ok) \<Rightarrow>
          if \<not> ok then (case last_nonce of Some l \<Rightarrow> l | None \<Rightarrow> first_nonce, True)
          else (case next_nonce of Some n \<Rightarrow> n | None \<Rightarrow> first_nonce, False))"

section \<open>Nonces in memory\<close>

definition load_nonce :: "bytes \<Rightarrow> bool \<Rightarrow> 'a::len word" where
  "load_nonce data big_endian =
     (if big_endian
      then foldl (\<lambda>value i. push_bit 8 value OR ucast (data ! i)) 0 [0..<LENGTH('a) div 8]
      else foldl (\<lambda>value i. value OR push_bit (i * 8) (ucast (data ! i))) 0 [0..<LENGTH('a) div 8])"

definition store_nonce :: "bytes \<Rightarrow> 'a::len word \<Rightarrow> bool \<Rightarrow> bytes" where
  "store_nonce data value big_endian =
     (if big_endian
      then foldl (\<lambda>d i. d[i := ucast (drop_bit ((LENGTH('a) div 8 - 1 - i) * 8) value)]) data
             [0..<LENGTH('a) div 8]
      else foldl (\<lambda>d i. d[i := ucast (drop_bit (i * 8) value)]) data [0..<LENGTH('a) div 8])"

section \<open>Parsing\<close>

definition digits_value :: "nat \<Rightarrow> nat \<Rightarrow> string \<Rightarrow> nat" where
  "digits_value base acc ds = foldl (\<lambda>a c. a * base + the (digit_of c)) acc ds"

definition digits_valid :: "nat \<Rightarrow> string \<Rightarrow> bool" where
  "digits_valid base ds \<longleftrightarrow> list_all (\<lambda>c. case digit_of c of Some d \<Rightarrow> d < base | None \<Rightarrow> False) ds"

lemma digits_value_mono: "0 < base \<Longrightarrow> acc \<le> digits_value base acc ds"
proof (induction ds arbitrary: acc)
  case (Cons c ds)
  have "acc \<le> acc * base + the (digit_of c)" using Cons.prems by (simp add: trans_le_add1)
  also have "\<dots> \<le> digits_value base acc (c # ds)" using Cons by (simp add: digits_value_def)
  finally show ?case .
qed (simp add: digits_value_def)

lemma digit_guard:
  fixes val :: "'a::len word"
  assumes "0 < base" "base < 2 ^ LENGTH('a)" "d < base"
  shows "(- 1 - of_nat d) div of_nat base < val \<longleftrightarrow> 2 ^ LENGTH('a) \<le> unat val * base + d"
proof -
  have d: "unat (of_nat d :: 'a word) = d" and b: "unat (of_nat base :: 'a word) = base"
    using assms by (simp_all add: unat_of_nat)
  have "unat (- 1 - of_nat d :: 'a word) = 2 ^ LENGTH('a) - 1 - d"
    by (subst unat_sub) (simp_all add: unsigned_minus_1_eq_mask d mask_eq_exp_minus_1)
  then have "(- 1 - of_nat d) div of_nat base < val \<longleftrightarrow> (2 ^ LENGTH('a) - 1 - d) div base < unat val"
    by (simp add: word_less_nat_alt unat_div b)
  also have "\<dots> \<longleftrightarrow> 2 ^ LENGTH('a) \<le> unat val * base + d"
    using assms by (auto simp: div_less_iff_less_mult)
  finally show ?thesis .
qed

lemma digit_step:
  fixes val :: "'a::len word"
  assumes "unat val * base + d < 2 ^ LENGTH('a)"
  shows "unat (val * of_nat base + of_nat d) = unat val * base + d"
proof -
  have "val * of_nat base + of_nat d = (of_nat (unat val * base + d) :: 'a word)" by simp
  then show ?thesis using assms by (simp only: unat_of_nat mod_less)
qed

lemma parse_digits_value:
  fixes val :: "'a::len word"
  assumes "2 \<le> base" "base < 2 ^ LENGTH('a)"
  shows "parse_digits base val ds =
    (if digits_valid base ds \<and> digits_value base (unat val) ds < 2 ^ LENGTH('a)
     then Some (of_nat (digits_value base (unat val) ds)) else None)"
proof (induction ds arbitrary: val)
  case Nil
  then show ?case by (simp add: digits_valid_def digits_value_def)
next
  case (Cons c ds)
  show ?case
  proof (cases "\<exists>d. digit_of c = Some d \<and> d < base")
    case False
    then show ?thesis by (auto simp: digits_valid_def split: option.splits)
  next
    case True
    then obtain d where d: "digit_of c = Some d" "d < base" by blast
    let ?v = "unat val * base + d"
    have rec: "digits_value base (unat val) (c # ds) = digits_value base ?v ds"
      and valid: "digits_valid base (c # ds) = digits_valid base ds"
      by (simp_all add: digits_value_def digits_valid_def d)
    have g: "(- 1 - of_nat d) div of_nat base < val \<longleftrightarrow> 2 ^ LENGTH('a) \<le> ?v"
      using assms d by (intro digit_guard) auto
    show ?thesis
    proof (cases "2 ^ LENGTH('a) \<le> ?v")
      case True
      then have "2 ^ LENGTH('a) \<le> digits_value base ?v ds"
        using digits_value_mono [of base ?v ds] assms by linarith
      then show ?thesis using True g d unfolding rec valid by (simp add: Let_def)
    next
      case False
      then have "unat (val * of_nat base + of_nat d) = ?v" by (intro digit_step) simp
      then show ?thesis using False g d Cons.IH unfolding rec valid by (simp add: Let_def)
    qed
  qed
qed

text \<open>
  C32. Parsing unsigned numbers: \<open>parse_unsigned\<close> accepts exactly the non-empty strings of digits
  below a radix of 2 to 36, after an optional hexadecimal prefix when that is allowed, whose value
  fits the type, and returns that value; every other input is refused. No input makes the
  accumulator wrap around. The type must be able to hold the radix.
\<close>

theorem parse_unsigned_correct:
  assumes "(36 :: nat) < 2 ^ LENGTH('a)"
  shows "(parse_unsigned text base allow_hex_prefix :: 'a::len word option) =
    (let ds = skip_hex_prefix text base allow_hex_prefix
     in if 2 \<le> base \<and> base \<le> 36 \<and> ds \<noteq> [] \<and> digits_valid base ds \<and>
           digits_value base 0 ds < 2 ^ LENGTH('a)
        then Some (of_nat (digits_value base 0 ds)) else None)"
proof (cases "2 \<le> base \<and> base \<le> 36")
  case True
  then have "base < 2 ^ LENGTH('a)" using assms by linarith
  then show ?thesis using True by (simp add: parse_unsigned_def parse_digits_value Let_def)
next
  case False
  then show ?thesis by (auto simp: parse_unsigned_def Let_def)
qed

theorem parse_unsigned_correct_witness:
  "(parse_unsigned ''0xfF'' 16 True :: byte option) = Some 255 \<and>
   (parse_unsigned ''256'' 10 False :: byte option) = None \<and>
   (parse_unsigned ''0x'' 16 True :: byte option) = None"
  using parse_unsigned_correct [where 'a = 8, of "''0xfF''" 16 True]
    parse_unsigned_correct [where 'a = 8, of "''256''" 10 False]
    parse_unsigned_correct [where 'a = 8, of "''0x''" 16 True]
  by (simp add: skip_hex_prefix_def digits_valid_def digits_value_def digit_of_def)

lemma find_char_correct:
  "find_char c xs i = (if c \<in> set xs then Some (i + length (takeWhile (\<lambda>x. x \<noteq> c) xs)) else None)"
  by (induction xs arbitrary: i) auto

text \<open>
  \<open>split_once\<close> succeeds exactly on texts with a single delimiter and something on both sides
  of it, and returns the two sides.
\<close>

theorem split_once_correct:
  "split_once text delimiter = Some (left, right) \<longleftrightarrow>
     text = left @ [delimiter] @ right \<and> left \<noteq> [] \<and> right \<noteq> [] \<and>
     delimiter \<notin> set left \<and> delimiter \<notin> set right"
proof
  assume s: "split_once text delimiter = Some (left, right)"
  then have mem: "delimiter \<in> set text" by (auto simp: split_once_def find_char_correct split: if_splits)
  let ?p = "length (takeWhile (\<lambda>x. x \<noteq> delimiter) text)"
  have d: "left = take ?p text" "right = drop (?p + 1) text" "?p \<noteq> 0" "?p + 1 \<noteq> length text"
      "delimiter \<notin> set (drop (?p + 1) text)"
    using s mem by (auto simp: split_once_def find_char_correct split: if_splits)
  obtain ys zs where t: "text = ys @ delimiter # zs" "delimiter \<notin> set ys"
    using mem by (meson split_list_first)
  then have "?p = length ys" by (simp add: takeWhile_append)
  with d t show "text = left @ [delimiter] @ right \<and> left \<noteq> [] \<and> right \<noteq> [] \<and>
     delimiter \<notin> set left \<and> delimiter \<notin> set right" by auto
next
  assume r: "text = left @ [delimiter] @ right \<and> left \<noteq> [] \<and> right \<noteq> [] \<and>
     delimiter \<notin> set left \<and> delimiter \<notin> set right"
  then have "takeWhile (\<lambda>x. x \<noteq> delimiter) text = left"
    by (auto simp: takeWhile_append)
  with r show "split_once text delimiter = Some (left, right)"
    by (simp add: split_once_def find_char_correct)
qed

section \<open>Nonce arithmetic\<close>

lemma pred_less_iff: "0 < n \<Longrightarrow> n - Suc 0 < p \<longleftrightarrow> n \<le> (p :: nat)"
  by arith

lemma product_guard:
  fixes a b :: "'a::len word"
  shows "(a \<noteq> 0 \<and> - 1 div a < b) \<longleftrightarrow> 2 ^ LENGTH('a) \<le> unat a * unat b"
proof (cases "a = 0")
  case False
  then have a: "0 < unat a" by (simp add: unat_gt_0)
  have "- 1 div a < b \<longleftrightarrow> (2 ^ LENGTH('a) - 1) div unat a < unat b"
    by (simp add: word_less_nat_alt unat_div unsigned_minus_1_eq_mask mask_eq_exp_minus_1)
  also have "\<dots> \<longleftrightarrow> 2 ^ LENGTH('a) \<le> unat a * unat b"
    using a by (simp add: div_less_iff_less_mult mult.commute pred_less_iff)
  finally show ?thesis using False by simp
qed simp

lemma headroom: "unat (- 1 - base :: 'a::len word) = 2 ^ LENGTH('a) - 1 - unat base"
  by (subst unat_sub) (simp_all add: unsigned_minus_1_eq_mask mask_eq_exp_minus_1)

lemma unat_ucast_up: "LENGTH('a) \<le> LENGTH('b) \<Longrightarrow> unat (ucast (w :: 'a::len word) :: 'b::len word) = unat w"
  by (simp add: unsigned_ucast_eq take_bit_nat_eq_self less_le_trans [OF unsigned_less])

lemma unat_ucast_small:
  "unat w < 2 ^ LENGTH('b) \<Longrightarrow> unat (ucast (w :: 'a::len word) :: 'b::len word) = unat w"
  by (simp add: unsigned_ucast_eq take_bit_nat_eq_self)

text \<open>The offset is accepted exactly when neither the product nor the sum leaves the type.\<close>

lemma nonce_with_offset_iff:
  fixes base :: "'a::len word"
  assumes "LENGTH('a) \<le> 64"
  shows "nonce_with_offset base index stride protected_mask =
    (let n = unat base + unat index * unat stride
     in if n < 2 ^ LENGTH('a) \<and> base AND protected_mask = of_nat n AND protected_mask
        then Some (of_nat n) else None)"
proof (cases "2 ^ 64 \<le> unat index * unat stride")
  case True
  moreover have "(2::nat) ^ LENGTH('a) \<le> 2 ^ 64" using assms by (rule power_increasing) simp
  ultimately show ?thesis
    using product_guard [of index stride] by (auto simp: nonce_with_offset_def Let_def)
next
  case False
  define n where "n = unat base + unat index * unat stride"
  have off: "unat (index * stride) = unat index * unat stride"
    using False by (simp add: unat_word_ariths)
  have ub: "unat base < 2 ^ LENGTH('a)" by (rule unsigned_less)
  have fit: "ucast (- 1 - base) < index * stride \<longleftrightarrow> 2 ^ LENGTH('a) \<le> n"
    using assms
    by (simp add: word_less_nat_alt off unat_ucast_up headroom n_def) (use ub in linarith)
  have "ucast (index * stride) = (of_nat (unat index * unat stride) :: 'a word)"
    by (metis off of_nat_unat)
  then have cand: "base + ucast (index * stride) = (of_nat n :: 'a word)"
    by (simp add: n_def)
  show ?thesis
    using False product_guard [of index stride]
    by (auto simp: nonce_with_offset_def Let_def fit cand n_def [symmetric])
qed

text \<open>Adding a carry-free amount, seen on numbers: protected high bits are a quotient, low bits a remainder.\<close>

lemma and_not_mask_eq_iff:
  fixes x y :: "'a::len word"
  shows "x AND NOT (mask k) = y AND NOT (mask k) \<longleftrightarrow> unat x div 2 ^ k = unat y div 2 ^ k"
proof -
  have "x AND NOT (mask k) = y AND NOT (mask k) \<longleftrightarrow> drop_bit k x = drop_bit k y"
  proof
    assume e: "x AND NOT (mask k) = y AND NOT (mask k)"
    have "bit (drop_bit k x) i = bit (drop_bit k y) i" for i
      using arg_cong [OF e, of "\<lambda>w. bit w (k + i)"]
      by (auto simp: bit_simps add.commute dest: bit_imp_le_length)
    then show "drop_bit k x = drop_bit k y" by (simp add: bit_eq_iff)
  next
    assume e: "drop_bit k x = drop_bit k y"
    have "bit (x AND NOT (mask k)) i = bit (y AND NOT (mask k)) i" for i
      using arg_cong [OF e, of "\<lambda>w. bit w (i - k)"]
      by (cases "k \<le> i") (auto simp: bit_simps)
    then show "x AND NOT (mask k) = y AND NOT (mask k)" by (simp add: bit_eq_iff)
  qed
  also have "\<dots> \<longleftrightarrow> unat x div 2 ^ k = unat y div 2 ^ k"
    unfolding word_unat_eq_iff unat_drop_bit_eq by (simp add: drop_bit_eq_div)
  finally show ?thesis .
qed

lemma and_mask_eq_iff:
  fixes x y :: "'a::len word"
  shows "x AND mask k = y AND mask k \<longleftrightarrow> unat x mod 2 ^ k = unat y mod 2 ^ k"
  unfolding take_bit_eq_mask [symmetric] word_unat_eq_iff unsigned_take_bit_eq by (simp add: take_bit_eq_mod)


text \<open>
  Every nonce a batch hands out lies between its first and its last one, so protected high bits
  that agree at the ends agree throughout; protected low bits are kept by a stride that is a
  multiple of their weight.
\<close>

lemma protected_between:
  fixes first_nonce :: "'a::len word"
  assumes fit: "unat first_nonce + i * s < 2 ^ LENGTH('a)" and "j \<le> i"
    and prot: "first_nonce AND m = of_nat (unat first_nonce + i * s) AND m"
    and m: "m = NOT (mask k) \<or> m = mask k \<and> 2 ^ k dvd s"
  shows "unat first_nonce + j * s < 2 ^ LENGTH('a)"
    and "first_nonce AND m = of_nat (unat first_nonce + j * s) AND m"
proof -
  have le: "unat first_nonce + j * s \<le> unat first_nonce + i * s" using assms(2) by simp
  then show lt: "unat first_nonce + j * s < 2 ^ LENGTH('a)" using fit by linarith
  have u: "unat (of_nat (unat first_nonce + j * s) :: 'a word) = unat first_nonce + j * s"
      "unat (of_nat (unat first_nonce + i * s) :: 'a word) = unat first_nonce + i * s"
    using lt fit by (simp_all only: unat_of_nat mod_less)
  from m show "first_nonce AND m = of_nat (unat first_nonce + j * s) AND m"
  proof
    assume h: "m = NOT (mask k)"
    have "unat first_nonce div 2 ^ k \<le> (unat first_nonce + j * s) div 2 ^ k"
      "(unat first_nonce + j * s) div 2 ^ k \<le> (unat first_nonce + i * s) div 2 ^ k"
      using le by (intro div_le_mono; simp)+
    then show ?thesis using prot unfolding h and_not_mask_eq_iff u by linarith
  next
    assume h: "m = mask k \<and> 2 ^ k dvd s"
    then show ?thesis unfolding h [THEN conjunct1] and_mask_eq_iff u
      by (auto elim!: dvdE simp: mult.left_commute [of j])
  qed
qed

text \<open>A batch is in range with all its nonces.\<close>

definition batch_in_range :: "'a::len word \<Rightarrow> nat \<Rightarrow> nat \<Rightarrow> 'a word \<Rightarrow> bool" where
  "batch_in_range first_nonce count stride m \<longleftrightarrow>
     (\<forall>j < count. unat first_nonce + j * stride < 2 ^ LENGTH('a) \<and>
        first_nonce AND m = of_nat (unat first_nonce + j * stride) AND m)"

lemma with_offset_batch:
  fixes first_nonce :: "'a::len word"
  assumes "LENGTH('a) \<le> 64" and "count \<noteq> 0"
    and m: "m = NOT (mask k) \<or> m = mask k \<and> 2 ^ k dvd unat stride"
  shows "nonce_with_offset first_nonce (count - 1) stride m =
    (if batch_in_range first_nonce (unat count) (unat stride) m
     then Some (of_nat (unat first_nonce + (unat count - 1) * unat stride)) else None)"
proof -
  have c: "unat (count - 1) = unat count - 1" using assms(2) by (rule unat_minus_one)
  have pos: "0 < unat count" using assms(2) by (simp add: unat_gt_0)
  let ?n = "unat first_nonce + (unat count - 1) * unat stride"
  have "batch_in_range first_nonce (unat count) (unat stride) m \<longleftrightarrow>
      ?n < 2 ^ LENGTH('a) \<and> first_nonce AND m = of_nat ?n AND m"
  proof
    assume "batch_in_range first_nonce (unat count) (unat stride) m"
    then show "?n < 2 ^ LENGTH('a) \<and> first_nonce AND m = of_nat ?n AND m"
      using pos by (simp only: batch_in_range_def) (metis diff_less zero_less_one)
  next
    assume n: "?n < 2 ^ LENGTH('a) \<and> first_nonce AND m = of_nat ?n AND m"
    show "batch_in_range first_nonce (unat count) (unat stride) m"
      unfolding batch_in_range_def
    proof (intro allI impI)
      fix j assume "j < unat count"
      then have "j \<le> unat count - 1" by simp
      then show "unat first_nonce + j * unat stride < 2 ^ LENGTH('a) \<and>
          first_nonce AND m = of_nat (unat first_nonce + j * unat stride) AND m"
        using protected_between n m by blast
    qed
  qed
  then show ?thesis using nonce_with_offset_iff [OF assms(1), of first_nonce "count - 1" stride m]
    by (simp only: c Let_def)
qed

lemma batch_in_range_two:
  "batch_in_range x 2 s m \<longleftrightarrow>
     unat x + s < 2 ^ LENGTH('a) \<and> x AND m = of_nat (unat x + s) AND (m :: 'a::len word)"
proof -
  have "unat x < 2 ^ LENGTH('a)" by (rule unsigned_less)
  then show ?thesis by (auto simp: batch_in_range_def less_Suc_eq numeral_2_eq_2)
qed

lemma all_less_4: "(\<forall>j < (4 :: nat). P j) \<longleftrightarrow> P 0 \<and> P 1 \<and> P 2 \<and> P 3"
  by (auto simp: less_Suc_eq numeral_eq_Suc)

text \<open>
  C1. Advancing a mining batch (a job with a target). Let the protected bits be high bits, or low
  bits whose weight divides the lane stride. The worker moves on exactly when every nonce of
  the current batch and every nonce of the next batch is below the end of the nonce space and
  carries the protected bits of the first one; then the new nonce is the old one plus the batch
  stride and nothing wrapped. Otherwise it flags exhaustion and reports the last nonce of the
  current batch if that batch was in range, and the first nonce if not.
\<close>

theorem next_nonce_after_batch_correct:
  fixes first_nonce :: "'a::len word"
  assumes "LENGTH('a) \<le> 64" and "m_target \<noteq> 0" and "count \<noteq> 0"
    and m: "m = NOT (mask k) \<or> m = mask k \<and> 2 ^ k dvd unat lane_stride"
  shows "next_nonce_after_batch m_target first_nonce count lane_stride batch_stride m =
    (let next_nonce = of_nat (unat first_nonce + unat batch_stride);
         this_fits = batch_in_range first_nonce (unat count) (unat lane_stride) m;
         step_fits = batch_in_range first_nonce 2 (unat batch_stride) m;
         next_fits = batch_in_range next_nonce (unat count) (unat lane_stride) m
     in if this_fits \<and> step_fits \<and> next_fits then (next_nonce, False)
        else if this_fits
             then (of_nat (unat first_nonce + (unat count - 1) * unat lane_stride), True)
             else (first_nonce, True))"
proof -
  have "nonce_with_offset first_nonce 1 batch_stride m =
    (if batch_in_range first_nonce 2 (unat batch_stride) m
     then Some (of_nat (unat first_nonce + unat batch_stride)) else None)"
    unfolding nonce_with_offset_iff [OF assms(1)] batch_in_range_two by (simp add: Let_def)
  then show ?thesis
    using assms(2,3) unfolding next_nonce_after_batch_def next_nonce_batch_def
    by (simp add: with_offset_batch [OF assms(1,3) m] Let_def)
qed

theorem next_nonce_after_batch_correct_witness:
  "next_nonce_after_batch 1 (0x12fffff0 :: u32) 4 1 8 (NOT (mask 24)) = (0x12fffff8, False) \<and>
   next_nonce_after_batch 1 (0x12fffff8 :: u32) 4 1 8 (NOT (mask 24)) = (0x12fffffb, True)"
proof -
  have r: "batch_in_range (0x12fffff0 :: u32) 4 1 (NOT (mask 24))" "batch_in_range (0x12fffff0 :: u32) 2 8 (NOT (mask 24))"
      "batch_in_range (0x12fffff8 :: u32) 4 1 (NOT (mask 24))" "\<not> batch_in_range (0x12fffff8 :: u32) 2 8 (NOT (mask 24))"
    by (simp_all add: batch_in_range_two, simp_all add: batch_in_range_def all_less_4 and_not_mask_eq_iff)
  show ?thesis
    using next_nonce_after_batch_correct [of 1 4 "NOT (mask 24)" 24 1 "0x12fffff0 :: u32" 8]
      next_nonce_after_batch_correct [of 1 4 "NOT (mask 24)" 24 1 "0x12fffff8 :: u32" 8]
    by (simp add: r [simplified] Let_def)
qed

text \<open>The seeds a PearlHash worker goes through, the step as \<^verbatim>\<open>Core::Execute\<close> computes it.\<close>

fun pearl_seed_run :: "u32 \<Rightarrow> u32 \<Rightarrow> u32 \<Rightarrow> u32 \<Rightarrow> nat \<Rightarrow> u32 option" where
  "pearl_seed_run slot thread_id thread_num stride 0 = pearl_seed_start slot thread_id thread_num stride"
| "pearl_seed_run slot thread_id thread_num stride (Suc i) =
     (case pearl_seed_run slot thread_id thread_num stride i of
        None \<Rightarrow> None
      | Some seed \<Rightarrow> pearl_seed_next seed (ucast thread_num * ucast stride))"

lemma pearl_seed_next_iff:
  "pearl_seed_next x step =
    (if 0 < unat step \<and> unat x + unat step < 2 ^ 32 then Some (of_nat (unat x + unat step)) else None)"
proof -
  have c: "unat (ucast x :: u64) = unat x" by (rule unat_ucast_up) simp
  have ub: "unat x < 2 ^ 32" using unsigned_less [of x] by simp
  have g: "4294967295 < step \<longleftrightarrow> 4294967295 < unat step" by (simp add: word_less_nat_alt)
  have sub: "unat (4294967295 - step :: u64) = 4294967295 - unat step" if "\<not> 4294967295 < step"
    using that by (subst unat_sub) (simp_all add: not_less)
  have val: "ucast (ucast x + step) = (of_nat (unat x + unat step) :: u32)" if "unat x + unat step < 2 ^ 32"
  proof -
    have "unat (ucast x + step :: u64) = unat x + unat step"
      using that c by (simp add: unat_word_ariths)
    then show ?thesis by (metis of_nat_unat)
  qed
  show ?thesis
  proof (cases "4294967295 < step")
    case True
    then show ?thesis using g by (simp add: pearl_seed_next_def)
  next
    case False
    then have "4294967295 - step < ucast x \<longleftrightarrow> \<not> unat x + unat step < 2 ^ 32"
      using g ub by (simp add: word_less_nat_alt sub c) linarith
    then show ?thesis using False val by (simp add: pearl_seed_next_def Let_def unat_eq_0 unat_gt_0)
  qed
qed


lemma pearl_seed_run_closed:
  assumes "unat thread_id < unat thread_num" and "0 < unat stride"
  shows "pearl_seed_run slot thread_id thread_num stride i =
    (let n = unat slot + (unat thread_id + i * unat thread_num) * unat stride
     in if n < 2 ^ 32 then Some (of_nat n) else None)"
proof (induction i)
  case 0
  have nz: "thread_num \<noteq> 0" "stride \<noteq> 0" "\<not> thread_num \<le> thread_id"
    using assms by (auto simp: word_le_nat_alt)
  then show ?case
    unfolding pearl_seed_run.simps pearl_seed_start_def
    by (simp add: nonce_with_offset_iff unat_ucast_up)
next
  case (Suc i)
  let ?n = "\<lambda>i. unat slot + (unat thread_id + i * unat thread_num) * unat stride"
  have "unat thread_num * unat stride < 2 ^ 32 * 2 ^ 32"
    using unsigned_less [of thread_num] unsigned_less [of stride] by (intro mult_strict_mono) simp_all
  then have st: "unat (ucast thread_num * ucast stride :: u64) = unat thread_num * unat stride"
    by (simp add: unat_word_ariths unat_ucast_up)
  have pos: "0 < unat thread_num * unat stride" using assms by simp
  have n: "?n (Suc i) = ?n i + unat thread_num * unat stride" by (simp add: algebra_simps)
  show ?case
  proof (cases "?n i < 2 ^ 32")
    case True
    then have "unat (of_nat (?n i) :: u32) = ?n i" by (simp only: unat_of_nat len_num0 mod_less) simp
    then show ?thesis
      using True pos unfolding pearl_seed_run.simps Suc.IH Let_def n
      by (simp add: pearl_seed_next_iff st)
  next
    case False
    then have "\<not> ?n (Suc i) < 2 ^ 32" unfolding n by linarith
    then show ?thesis using False unfolding pearl_seed_run.simps Suc.IH Let_def by simp
  qed
qed

lemma pearl_seed_run_value:
  assumes "pearl_seed_run slot t T stride i = Some x" and "unat t < unat T" and "0 < unat stride"
  shows "unat x = unat slot + (unat t + i * unat T) * unat stride"
proof -
  define n where "n = unat slot + (unat t + i * unat T) * unat stride"
  have "pearl_seed_run slot t T stride i = (if n < 2 ^ 32 then Some (of_nat n) else None)"
    using pearl_seed_run_closed [OF assms(2,3)] by (simp add: n_def Let_def)
  then have "x = of_nat n \<and> n < 2 ^ 32" using assms(1) by (simp split: if_splits)
  then show ?thesis by (simp add: n_def [symmetric] unat_of_nat)
qed

text \<open>
  C6. The PearlHash seed partition. With a valid thread index and a positive stride, worker
  \<open>t\<close> of \<open>T\<close> reaches its \<open>i\<close>-th seed exactly when slot + (t + i T) stride fits 32 bits, and
  the seed is that number; so no two steps of the workers of one job ever use the same seed.
\<close>

theorem pearl_seed_partition:
  assumes "unat t < unat T" and "unat t' < unat T" and "0 < unat stride"
  shows "pearl_seed_run slot t T stride i =
      (let n = unat slot + (unat t + i * unat T) * unat stride
       in if n < 2 ^ 32 then Some (of_nat n) else None) \<and>
    (pearl_seed_run slot t T stride i = Some x \<and> pearl_seed_run slot t' T stride i' = Some x \<longrightarrow>
      t = t' \<and> i = i')"
proof (intro conjI impI)
  show c: "pearl_seed_run slot t T stride i =
      (let n = unat slot + (unat t + i * unat T) * unat stride
       in if n < 2 ^ 32 then Some (of_nat n) else None)"
    using assms by (intro pearl_seed_run_closed)
  assume eq: "pearl_seed_run slot t T stride i = Some x \<and> pearl_seed_run slot t' T stride i' = Some x"
  have "unat x = unat slot + (unat t + i * unat T) * unat stride"
      "unat x = unat slot + (unat t' + i' * unat T) * unat stride"
    using eq assms by (auto dest!: pearl_seed_run_value)
  then have eq': "unat t + i * unat T = unat t' + i' * unat T" using assms(3) by simp
  have "(unat t + i * unat T) mod unat T = unat t" "(unat t' + i' * unat T) mod unat T = unat t'"
    using assms by simp_all
  then have "unat t = unat t'" using eq' by simp
  then show "t = t'" and "i = i'" using eq' assms by (simp_all add: word_unat_eq_iff)
qed

theorem pearl_seed_partition_witness:
  "pearl_seed_run 7 1 4 256 3 = Some 3335 \<and> pearl_seed_run 4294967000 1 4 256 1 = None"
  using pearl_seed_partition [of 1 4 1 256 7 3] pearl_seed_partition [of 1 4 1 256 4294967000 1]
  by simp

section \<open>Shapes and layouts\<close>

lemma not_power_of_two:
  fixes x :: "'a::len word"
  assumes "2 ^ j < unat x" and "unat x < 2 ^ Suc j"
  shows "x AND (x - 1) \<noteq> 0"
proof -
  have x1: "unat (x - 1) = unat x - 1"
    using assms by (intro unat_minus_one) auto
  have "unat x div 2 ^ j = 1" "(unat x - 1) div 2 ^ j = 1"
    using assms by (intro div_nat_eqI; simp)+
  then have "bit (unat x) j" "bit (unat (x - 1)) j"
    by (simp_all add: bit_iff_odd x1)
  then have "bit x j" "bit (x - 1) j" by (simp_all add: bit_unsigned_iff)
  then have "bit (x AND (x - 1)) j" by (simp add: bit_and_iff)
  then show ?thesis by (metis bit_0_eq bot_apply bot_bool_def)
qed

definition pearl_shape :: "nat \<Rightarrow> nat \<Rightarrow> nat \<Rightarrow> nat \<Rightarrow> bool" where
  "pearl_shape m n k r \<longleftrightarrow>
     128 \<le> m \<and> m \<le> 2 ^ 24 \<and> 32 dvd m \<and> 128 \<le> n \<and> n \<le> 2 ^ 24 \<and> 32 dvd n \<and>
     1024 \<le> k \<and> k \<le> 2 ^ 16 \<and> 64 dvd k \<and> r \<in> {128, 256, 512, 1024} \<and> 16 * r \<le> k \<and> k \<le> 4 * r * r \<and>
     m * r < 2 ^ 31 \<and> n * r < 2 ^ 31 \<and> m * k < 2 ^ 31 \<and> (m div 16) * (n div 16) < 2 ^ 31 \<and> m * n * k < 2 ^ 64"

lemma le_div_iff_mult: "0 < b \<Longrightarrow> a \<le> c div b \<longleftrightarrow> a * b \<le> (c :: nat)"
  by (simp add: less_eq_div_iff_mult_less_eq)

lemma power_of_two_rank:
  fixes r :: u64
  assumes "128 \<le> unat r" and "unat r \<le> 1024"
  shows "r AND (r - 1) = 0 \<longleftrightarrow> unat r \<in> {128, 256, 512, 1024}"
proof
  assume z: "r AND (r - 1) = 0"
  then have "\<not> (2 ^ j < unat r \<and> unat r < 2 ^ Suc j)" for j
    using not_power_of_two [of j r] by blast
  from this [of 7] this [of 8] this [of 9] show "unat r \<in> {128, 256, 512, 1024}"
    using assms by simp linarith
next
  assume "unat r \<in> {128, 256, 512, 1024}"
  then have "r \<in> {128, 256, 512, 1024}"
    by (auto simp: word_unat_eq_iff)
  then show "r AND (r - 1) = 0" by auto
qed

lemma valid_pearlhash_shape_iff:
  "valid_pearlhash_shape m n k rank \<longleftrightarrow> pearl_shape (unat m) (unat n) (unat k) (unat rank)"
proof -
  define m' n' k' r where "m' = unat m" and "n' = unat n" and "k' = unat k" and "r = unat rank"
  note d = m'_def [symmetric] n'_def [symmetric] k'_def [symmetric] r_def [symmetric]
  have basic: "m < 128 \<longleftrightarrow> m' < 128" "push_bit 24 1 < m \<longleftrightarrow> 2 ^ 24 < m'" "m mod 32 \<noteq> 0 \<longleftrightarrow> \<not> 32 dvd m'"
     "n < 128 \<longleftrightarrow> n' < 128" "push_bit 24 1 < n \<longleftrightarrow> 2 ^ 24 < n'" "n mod 32 \<noteq> 0 \<longleftrightarrow> \<not> 32 dvd n'"
     "k < 1024 \<longleftrightarrow> k' < 1024" "push_bit 16 1 < k \<longleftrightarrow> 2 ^ 16 < k'" "k mod 64 \<noteq> 0 \<longleftrightarrow> \<not> 64 dvd k'"
     "rank < 128 \<longleftrightarrow> r < 128" "1024 < rank \<longleftrightarrow> 1024 < r"
    by (simp_all add: m'_def n'_def k'_def r_def word_less_nat_alt word_unat_eq_iff unat_mod dvd_eq_mod_eq_0)
  show ?thesis
  proof (cases "128 \<le> m' \<and> m' \<le> 2 ^ 24 \<and> 32 dvd m' \<and> 128 \<le> n' \<and> n' \<le> 2 ^ 24 \<and> 32 dvd n' \<and>
      1024 \<le> k' \<and> k' \<le> 2 ^ 16 \<and> 64 dvd k' \<and> 128 \<le> r \<and> r \<le> 1024")
    case False
    then have "\<not> valid_pearlhash_shape m n k rank"
      unfolding valid_pearlhash_shape_def Let_def basic by auto
    moreover have "\<not> pearl_shape m' n' k' r" using False by (auto simp: pearl_shape_def)
    ultimately show ?thesis by (simp add: d)
  next
    case True
    have rank: "rank \<noteq> 0 \<and> rank AND (rank - 1) = 0 \<longleftrightarrow> r \<in> {128, 256, 512, 1024}"
      using True power_of_two_rank [of rank] by (auto simp: r_def)
    have "r * r \<le> 1024 * 1024" using True by (intro mult_le_mono) simp_all
    then have "4 * r * r < 2 ^ 64" "16 * r < 2 ^ 64" using True by simp_all
    then have w: "k < 16 * rank \<longleftrightarrow> k' < 16 * r" "4 * rank * rank < k \<longleftrightarrow> 4 * r * r < k'"
      by (simp_all add: word_less_nat_alt unat_word_ariths k'_def r_def mod_less_eq_dividend)
    have pos: "0 < m'" "0 < k'" "0 < r" "0 < n' div 16" using True by auto
    have "m' * n' \<le> 2 ^ 24 * 2 ^ 24" using True by (intro mult_le_mono) simp_all
    then have mn: "unat (m * n) = m' * n'" by (simp add: unat_word_ariths m'_def n'_def)
    have q: "m \<le> 2147483647 div rank \<longleftrightarrow> m' * r < 2 ^ 31" "n \<le> 2147483647 div rank \<longleftrightarrow> n' * r < 2 ^ 31"
        "m \<le> 2147483647 div k \<longleftrightarrow> m' * k' < 2 ^ 31"
        "m div 16 \<le> 2147483647 div (n div 16) \<longleftrightarrow> (m' div 16) * (n' div 16) < 2 ^ 31"
        "n \<le> - 1 div m \<longleftrightarrow> m' * n' < 2 ^ 64" "m * n \<le> - 1 div k \<longleftrightarrow> m' * n' * k' < 2 ^ 64"
      using pos
      by (auto simp: word_le_nat_alt unat_div mn unsigned_minus_1_eq_mask mask_eq_exp_minus_1
          le_div_iff_mult d mult.commute)
    have "m' * n' < 2 ^ 64" using \<open>m' * n' \<le> _\<close> by simp
    then show ?thesis
      using True unfolding valid_pearlhash_shape_def Let_def basic rank w q d pearl_shape_def by auto
  qed
qed


text \<open>
  The accepted PearlHash shapes are exactly those of the arithmetic specification over the
  natural numbers: dimensions within bounds and aligned, the rank one of 128, 256, 512 and 1024,
  the inner dimension between 16 r and 4 r^2, and every size the kernels compute with in 32-bit
  signed arithmetic below 2^31, the total work below 2^64. The checks themselves never overflow.
\<close>

theorem valid_pearlhash_shape_correct:
  "valid_pearlhash_shape m n k rank \<longleftrightarrow> pearl_shape (unat m) (unat n) (unat k) (unat rank)"
  by (rule valid_pearlhash_shape_iff)

text \<open>
  C33. The layouts a job may have leave room for the 8-byte nonce: an accepted fishhash,
  karlsenhashv2 or nexapow layout puts the nonce at the very end of the blob.
\<close>

theorem accepted_layouts_end_with_nonce:
  "valid_fishhash_layout blob_size offset \<or> valid_karlsenhashv2_layout blob_size offset \<or>
     valid_nexapow_layout blob_size offset \<Longrightarrow> offset + 8 = blob_size"
  by (auto simp: valid_fishhash_layout_def fishhash_nonce_offset_def valid_karlsenhashv2_layout_def
      valid_nexapow_layout_def Let_def split: if_splits)

theorem accepted_layouts_end_with_nonce_witness: "valid_fishhash_layout 180 172 \<and> (172 + 8 = (180 :: nat))"
  using accepted_layouts_end_with_nonce [of 180 172]
  by (simp add: valid_fishhash_layout_def fishhash_nonce_offset_def)

lemma padded_u32_range_iff:
  "padded_u32_range_fits count alignment \<longleftrightarrow>
     0 < unat alignment \<and> unat count + (unat alignment - 1) < 2 ^ 32"
proof (cases "alignment = 0")
  case False
  have ub: "unat alignment < 2 ^ 32" using unsigned_less [of alignment] by simp
  have "unat (- 1 - (alignment - 1)) = 2 ^ 32 - 1 - (unat alignment - 1)"
    unfolding headroom using False by (simp add: unat_minus_one)
  then show ?thesis
    using False ub by (simp add: padded_u32_range_fits_def word_le_nat_alt unat_gt_0) linarith
qed (simp add: padded_u32_range_fits_def)

text \<open>
  When \<open>padded_u32_range_fits\<close> holds, rounding the count up to the alignment in 32-bit
  arithmetic, as the launch code does, does not wrap: the result is the least multiple of the
  alignment that is at least the count.
\<close>

theorem padded_u32_range_correct:
  assumes "padded_u32_range_fits count alignment"
  shows "unat ((count + alignment - 1) div alignment * alignment) =
      (unat count + unat alignment - 1) div unat alignment * unat alignment \<and>
    unat count \<le> unat ((count + alignment - 1) div alignment * alignment) \<and>
    unat ((count + alignment - 1) div alignment * alignment) < unat count + unat alignment"
proof -
  define a c where "a = unat alignment" and "c = unat count"
  have a: "0 < a" and fit: "c + (a - 1) < 2 ^ 32"
    using assms unfolding padded_u32_range_iff a_def c_def by blast+
  have "count + alignment - 1 = of_nat (c + (a - 1))"
    using a by (simp add: a_def c_def of_nat_diff)
  then have "unat (count + alignment - 1) = c + (a - 1)"
    using fit by (simp only: unat_of_nat) simp
  then have s: "unat (count + alignment - 1) = c + a - 1" using a by simp
  define q where "q = (c + a - 1) div a * a"
  have q: "q \<le> c + a - 1" by (simp add: q_def)
  have "unat ((count + alignment - 1) div alignment * alignment) = q"
    using q fit a
    by (simp add: unat_word_ariths(2) unat_div s a_def [symmetric] q_def [symmetric] q_def [simplified, symmetric])
  moreover have "c + a - 1 < q + a"
    unfolding q_def by (metis a div_mult_mod_eq mod_less_divisor nat_add_left_cancel_less)
  ultimately show ?thesis
    using q a unfolding a_def [symmetric] c_def [symmetric] q_def [symmetric] by linarith
qed

theorem padded_u32_range_correct_witness:
  "unat ((1000 + 128 - 1 :: u32) div 128 * 128) = 1024 \<and> padded_u32_range_fits 1000 128"
  using padded_u32_range_correct [of 1000 128] by (simp add: padded_u32_range_iff)

section \<open>Nonces in memory\<close>

lemma foldl_update_upt:
  "n \<le> length d \<Longrightarrow> foldl (\<lambda>d i. d[i := g i]) d [0..<n] = map g [0..<n] @ drop n d"
proof (induction n)
  case (Suc n)
  then show ?case by (simp add: list_update_append Cons_nth_drop_Suc [symmetric, of n d])
qed simp

lemma le_enc_map: "le_enc n w = map (\<lambda>i. ucast (drop_bit (i * 8) w)) [0..<n]"
  by (rule nth_equalityI) (simp_all add: nth_le_enc mult.commute)

lemma store_nonce_enc:
  fixes v :: "'a::len word"
  assumes "LENGTH('a) div 8 \<le> length data"
  shows "store_nonce data v be =
    memcpy_at data 0 ((if be then rev else id) (le_enc (LENGTH('a) div 8) v))"
proof -
  have "rev (map f [0..<n]) = map (\<lambda>i. f (n - 1 - i)) [0..<n]" for f :: "nat \<Rightarrow> byte" and n
    by (rule nth_equalityI) (simp_all add: rev_nth)
  then show ?thesis
    using assms by (simp add: store_nonce_def foldl_update_upt memcpy_at_zero le_enc_map)
qed


lemma le_dec_snoc: "le_dec (xs @ [b]) = le_dec xs OR push_bit (length xs * 8) (ucast b)"
  by (induction xs) (simp_all add: push_bit_or push_bit_push_bit or.assoc add.commute)

lemma load_nonce_dec:
  assumes "LENGTH('a::len) div 8 \<le> length data"
  shows "(load_nonce data be :: 'a word) =
    le_dec ((if be then rev else id) (take (LENGTH('a) div 8) data))"
proof -
  have le: "foldl (\<lambda>value i. value OR push_bit (i * 8) (ucast (data ! i))) (0 :: 'a word) [0..<n] =
      le_dec (take n data)" if "n \<le> length data" for n
    using that by (induction n) (simp_all add: take_Suc_conv_app_nth le_dec_snoc min_def)
  have be: "foldl (\<lambda>value i. push_bit 8 value OR ucast (data ! i)) (0 :: 'a word) [0..<n] =
      le_dec (rev (take n data))" if "n \<le> length data" for n
    using that by (induction n) (simp_all add: take_Suc_conv_app_nth or.commute)
  show ?thesis using assms by (simp add: load_nonce_def le be)
qed

text \<open>
  C34. Nonces survive memory: for a type of whole bytes and a buffer that has room, loading what
  was stored gives the nonce back, storing what was loaded changes nothing, and a store leaves
  every byte behind the nonce alone; the big-endian form is the byte reversal of the
  little-endian one.
\<close>

theorem nonce_memory_round_trip:
  fixes v :: "'a::len word"
  assumes "8 dvd LENGTH('a)" and "LENGTH('a) div 8 \<le> length data"
  shows "load_nonce (store_nonce data v be) be = v \<and>
    store_nonce data (load_nonce data be :: 'a word) be = data \<and>
    drop (LENGTH('a) div 8) (store_nonce data v be) = drop (LENGTH('a) div 8) data \<and>
    take (LENGTH('a) div 8) (store_nonce data v True) = rev (take (LENGTH('a) div 8) (store_nonce data v False))"
proof -
  let ?n = "LENGTH('a) div 8"
  have whole: "take_bit (8 * ?n) v = v" using assms(1) by (intro take_bit_whole_word) simp
  have len: "length (store_nonce data v be) = length data" for be
    using assms(2) by (simp add: store_nonce_enc)
  have "length (take ?n data) = ?n" using assms(2) by simp
  then have enc: "le_enc ?n (le_dec (take ?n data) :: 'a word) = take ?n data"
      "le_enc ?n (le_dec (rev (take ?n data)) :: 'a word) = rev (take ?n data)"
    using le_enc_le_dec [where 'a = 'a, of "take ?n data"]
      le_enc_le_dec [where 'a = 'a, of "rev (take ?n data)"] by simp_all
  show ?thesis
    using assms(2) whole len enc
    by (auto simp: load_nonce_dec store_nonce_enc memcpy_at_zero le_dec_le_enc)
qed

theorem nonce_memory_round_trip_witness:
  "(load_nonce (store_nonce [9, 9, 9, 9, 7] (0x01020304 :: u32) True) True :: u32) = 0x01020304 \<and>
   drop 4 (store_nonce [9, 9, 9, 9, 7] (0x01020304 :: u32) True) = [7]"
  using nonce_memory_round_trip [of "[9, 9, 9, 9, 7]" "0x01020304 :: u32" True] by simp

end
