(* ===== verification/Cycle_Search.thy ===== *)
theory Cycle_Search
  imports MoM_Prelude "HOL-Library.Multiset"
begin

text \<open>
  The host side of the Cuckaroo solvers: \<^verbatim>\<open>sycl/c29/cycle.h\<close>. Edges of the trimmed bipartite
  graph get dense vertex numbers, a parent forest grows edge by edge, and an edge whose ends
  already share a tree closes a cycle. Dense numbers are naturals below 2^32 - 1, the value of
  the sentinel \<open>kNoParent\<close>; an edge is its pair of raw endpoints.
\<close>

section \<open>The program\<close>

definition kNoParent :: nat where
  "kNoParent = 2 ^ 32 - 1"

definition kNumEdges :: u32 where
  "kNumEdges = push_bit 29 1"

definition is_valid_nonce :: "u32 \<Rightarrow> bool" where
  "is_valid_nonce nonce \<longleftrightarrow> nonce < kNumEdges"

type_synonym edge = "u32 \<times> u32"
type_synonym dense_edge = "nat \<times> nat"

function create_path_loop :: "nat list \<Rightarrow> nat \<Rightarrow> nat list \<Rightarrow> nat list" where
  "create_path_loop parent max_path_length path =
     (if length path < max_path_length then
        let next_node = parent ! last path
        in if next_node = kNoParent then path
           else create_path_loop parent max_path_length (path @ [next_node])
      else path)"
  by pat_completeness auto
termination
  by (relation "measure (\<lambda>(parent, max_path_length, path). max_path_length - length path)") auto

declare create_path_loop.simps [simp del]

definition create_path :: "nat list \<Rightarrow> nat \<Rightarrow> nat list" where
  "create_path parent start = create_path_loop parent 8192 [start]"

definition reverse_path :: "nat list \<Rightarrow> nat list \<Rightarrow> nat list" where
  "reverse_path parent path =
     foldl (\<lambda>p i. p[path ! i := kNoParent, path ! (i + 1) := path ! i]) parent
       (rev [0..<length path - 1])"

text \<open>The dictionary and the raw number of each dense vertex.\<close>

type_synonym interned = "(u64 \<rightharpoonup> nat) \<times> u32 list"

definition vertex_key :: "u32 \<Rightarrow> u32 \<Rightarrow> u64" where
  "vertex_key side raw_id = push_bit 32 (ucast side) OR ucast raw_id"

fun intern :: "interned \<Rightarrow> u32 \<Rightarrow> u32 \<Rightarrow> nat \<times> interned" where
  "intern (dict, raws) side raw_id =
     (case dict (vertex_key side raw_id) of
        Some dense \<Rightarrow> (dense, (dict, raws))
      | None \<Rightarrow> (length raws, (dict(vertex_key side raw_id \<mapsto> length raws), raws @ [raw_id])))"

fun intern_edges :: "interned \<Rightarrow> edge list \<Rightarrow> dense_edge list \<times> interned" where
  "intern_edges st [] = ([], st)"
| "intern_edges st ((x, y) # es) =
     (let (a, st) = intern st 0 x;
          (b, st) = intern st 1 y;
          (ds, st) = intern_edges st es
      in ((a, b) # ds, st))"

text \<open>The common end of two complete paths, walked back from their roots.\<close>

function join_back :: "nat list \<Rightarrow> nat list \<Rightarrow> int \<Rightarrow> int \<Rightarrow> int \<Rightarrow> int \<Rightarrow> int \<times> int" where
  "join_back pf ps i j join_first join_second =
     (if 0 \<le> i \<and> 0 \<le> j \<and> pf ! nat i = ps ! nat j
      then join_back pf ps (i - 1) (j - 1) i j
      else (join_first, join_second))"
  by pat_completeness auto
termination
  by (relation "measure (\<lambda>(pf, ps, i, j, _). nat (i + 1))") auto

declare join_back.simps [simp del]

text \<open>The first match of capped paths, in the order of the nested loops.\<close>

fun join_scan :: "nat list \<Rightarrow> nat list \<Rightarrow> nat list \<Rightarrow> int \<times> int" where
  "join_scan pf ps [] = (- 1, - 1)"
| "join_scan pf ps (i # is) =
     (case find (\<lambda>j. i mod 2 \<noteq> j mod 2 \<and> pf ! i = ps ! j) [0..<length ps] of
        Some j \<Rightarrow> (int i, int j)
      | None \<Rightarrow> join_scan pf ps is)"

definition find_join :: "nat list \<Rightarrow> nat list \<Rightarrow> int \<times> int" where
  "find_join pf ps =
     (if length pf < 8192 \<and> length ps < 8192
      then join_back pf ps (int (length pf) - 1) (int (length ps) - 1) (- 1) (- 1)
      else join_scan pf ps [0..<length pf])"

text \<open>The edges along the first \<open>n\<close> steps of a path, each from the first to the second side.\<close>

fun append_path :: "u32 list \<Rightarrow> nat list \<Rightarrow> nat \<Rightarrow> nat \<Rightarrow> bool \<Rightarrow> edge list" where
  "append_path raws path i 0 current_in_first = []"
| "append_path raws path i (Suc n) current_in_first =
     (if current_in_first then (raws ! (path ! i), raws ! (path ! (i + 1)))
      else (raws ! (path ! (i + 1)), raws ! (path ! i))) #
     append_path raws path (i + 1) n (\<not> current_in_first)"

definition cycle_edges ::
  "u32 list \<Rightarrow> nat \<Rightarrow> nat \<Rightarrow> nat list \<Rightarrow> nat list \<Rightarrow> nat \<Rightarrow> nat \<Rightarrow> edge list" where
  "cycle_edges raws node_first node_second pf ps join_first join_second =
     (raws ! node_first, raws ! node_second) #
     append_path raws pf 0 join_first True @ append_path raws ps 0 join_second False"

text \<open>One iteration of the main loop on the forest and the solutions found so far.\<close>

fun cycle_step ::
  "u32 list \<Rightarrow> nat \<Rightarrow> nat list \<times> edge list list \<Rightarrow> dense_edge \<Rightarrow> nat list \<times> edge list list" where
  "cycle_step raws target (parent, solutions) (node_first, node_second) =
     (if parent ! node_first = node_second \<or> parent ! node_second = node_first
      then (parent, solutions)
      else
        let pf = create_path parent node_first;
            ps = create_path parent node_second;
            (join_first, join_second) = find_join pf ps
        in if 0 \<le> join_first then
             (parent,
              if 1 + join_first + join_second = int target
              then solutions @ [cycle_edges raws node_first node_second pf ps (nat join_first) (nat join_second)]
              else solutions)
           else if length ps < length pf
             then ((reverse_path parent ps)[node_second := node_first], solutions)
             else ((reverse_path parent pf)[node_first := node_second], solutions))"

definition find_cycles :: "edge list \<Rightarrow> nat \<Rightarrow> edge list list" where
  "find_cycles trimmed_edges target_cycle_length =
     (let (dense_edges, (dict, raws)) = intern_edges (Map.empty, []) trimmed_edges
      in snd (foldl (cycle_step raws target_cycle_length)
                (replicate (length raws) kNoParent, []) dense_edges))"

section \<open>Paths of the forest\<close>

primrec walk :: "nat list \<Rightarrow> nat \<Rightarrow> nat \<Rightarrow> nat list" where
  "walk p v 0 = []"
| "walk p v (Suc k) = v # (if p ! v = kNoParent then [] else walk p (p ! v) k)"

lemma create_path_loop_walk:
  assumes "path \<noteq> []" and "length path \<le> n"
  shows "create_path_loop p n path = butlast path @ walk p (last path) (n - length path + 1)"
  using assms
proof (induction p n path rule: create_path_loop.induct)
  case (1 p n path)
  show ?case
  proof (cases "length path < n \<and> p ! last path \<noteq> kNoParent")
    case True
    then have "n - length path = Suc (n - Suc (length path))" by (simp add: Suc_diff_Suc)
    then show ?thesis
      using True 1 by (simp add: create_path_loop.simps [of p n path] Let_def butlast_append)
  next
    case False
    then show ?thesis
      using 1 by (cases "n - length path") (auto simp: create_path_loop.simps [of p _ path])
  qed
qed

lemma create_path_walk: "create_path p v = walk p v 8192"
  by (simp add: create_path_def create_path_loop_walk)

lemma walk_nonempty [simp]: "walk p v k = [] \<longleftrightarrow> k = 0"
  by (cases k) auto

lemma length_walk: "length (walk p v k) \<le> k"
  by (induction k arbitrary: v) auto

lemma walk_hd: "0 < k \<Longrightarrow> walk p v k ! 0 = v"
  by (cases k) auto

lemma walk_step:
  "Suc i < length (walk p v k) \<Longrightarrow>
   p ! (walk p v k ! i) = walk p v k ! Suc i \<and> p ! (walk p v k ! i) \<noteq> kNoParent"
proof (induction k arbitrary: v i)
  case (Suc k)
  then have c: "p ! v \<noteq> kNoParent" "i < length (walk p (p ! v) k)" by (auto split: if_splits)
  show ?case
  proof (cases i)
    case 0
    then show ?thesis using c by (simp add: walk_hd)
  next
    case (Suc i')
    then show ?thesis using c Suc.IH [of i' "p ! v"] by simp
  qed
qed simp

lemma walk_drop:
  "i < length (walk p v k) \<Longrightarrow> drop i (walk p v k) = walk p (walk p v k ! i) (k - i)"
proof (induction k arbitrary: v i)
  case (Suc k)
  then show ?case by (cases i) (auto split: if_splits)
qed simp

text \<open>A walk that ends before the cap ends in a root, and its length depends on the start only.\<close>

lemma walk_complete:
  "length (walk p v k) < k \<Longrightarrow> length (walk p v k) \<le> k' \<Longrightarrow> walk p v k' = walk p v k"
proof (induction k arbitrary: v k')
  case (Suc k)
  then obtain l where l: "k' = Suc l" by (cases k') (auto simp: Suc_le_eq)
  show ?case
  proof (cases "p ! v = kNoParent")
    case False
    then have "length (walk p (p ! v) k) < k" "length (walk p (p ! v) k) \<le> l" using Suc.prems l by simp_all
    then have "walk p (p ! v) l = walk p (p ! v) k" by (rule Suc.IH)
    then show ?thesis using False l by simp
  qed (simp add: l)
qed simp

lemma walk_complete_suffix:
  assumes "length (walk p v k) < k" and "length (walk p w l) < l"
    and "i < length (walk p v k)" and "j < length (walk p w l)" and "walk p v k ! i = walk p w l ! j"
  shows "drop i (walk p v k) = drop j (walk p w l)"
proof -
  let ?x = "walk p v k ! i"
  have d: "drop i (walk p v k) = walk p ?x (k - i)" "drop j (walk p w l) = walk p ?x (l - j)"
    using assms(3-5) by (simp_all add: walk_drop)
  have l: "length (walk p ?x (k - i)) < k - i" "length (walk p ?x (l - j)) < l - j"
    unfolding d [symmetric] using assms(1-4) by (simp_all add: diff_less_mono)
  show ?thesis unfolding d
  proof (cases "k - i \<le> l - j")
    case True
    then show "walk p ?x (k - i) = walk p ?x (l - j)" using walk_complete [OF l(1), of "l - j"] l(1) by simp
  next
    case False
    then show "walk p ?x (k - i) = walk p ?x (l - j)" using walk_complete [OF l(2), of "k - i"] l(2) by simp
  qed
qed

lemma walk_complete_distinct:
  assumes "length (walk p v k) < k"
  shows "distinct (walk p v k)"
  unfolding distinct_conv_nth
proof (intro allI impI)
  fix i j assume ij: "i < length (walk p v k)" "j < length (walk p v k)" "i \<noteq> j"
  show "walk p v k ! i \<noteq> walk p v k ! j"
  proof
    assume "walk p v k ! i = walk p v k ! j"
    then have "drop i (walk p v k) = drop j (walk p v k)"
      using walk_complete_suffix [OF assms assms] ij by blast
    then have "length (drop i (walk p v k)) = length (drop j (walk p v k))" by simp
    then show False using ij by simp
  qed
qed

section \<open>Joining two paths\<close>

text \<open>What the search needs of a join: the paths meet there and nowhere before.\<close>

definition good_join :: "nat list \<Rightarrow> nat list \<Rightarrow> nat \<Rightarrow> nat \<Rightarrow> bool" where
  "good_join f s i j \<longleftrightarrow> i < length f \<and> j < length s \<and> f ! i = s ! j \<and>
     distinct (take (Suc i) f) \<and> distinct (take (Suc j) s) \<and>
     set (take i f) \<inter> set (take j s) = {}"

lemma join_back_suffix:
  assumes "join_back f s i j a b = (i', j')" and "i < int (length f)" "j < int (length s)"
    and "(a = - 1 \<and> b = - 1 \<and> i = int (length f) - 1 \<and> j = int (length s) - 1) \<or>
      (a = i + 1 \<and> b = j + 1 \<and> 0 \<le> a \<and> 0 \<le> b \<and> a < int (length f) \<and> b < int (length s) \<and>
       drop (nat a) f = drop (nat b) s)"
  shows "(i' = - 1 \<and> j' = - 1) \<or>
    (0 \<le> i' \<and> 0 \<le> j' \<and> i' < int (length f) \<and> j' < int (length s) \<and>
     drop (nat i') f = drop (nat j') s \<and>
     \<not> (0 < i' \<and> 0 < j' \<and> f ! (nat i' - 1) = s ! (nat j' - 1)))"
  using assms
proof (induction f s i j a b rule: join_back.induct)
  case (1 f s i j a b)
  show ?case
  proof (cases "0 \<le> i \<and> 0 \<le> j \<and> f ! nat i = s ! nat j")
    case True
    have "nat i < length f" "nat j < length s" using True "1.prems"(2,3) by (simp_all add: nat_less_iff)
    then have "drop (nat i) f = f ! nat i # drop (Suc (nat i)) f" "drop (nat j) s = s ! nat j # drop (Suc (nat j)) s"
      by (simp_all only: Cons_nth_drop_Suc)
    moreover have "drop (Suc (nat i)) f = drop (Suc (nat j)) s"
    proof (cases "a = - 1")
      case True
      then show ?thesis using "1.prems" by auto
    next
      case False
      then have "nat a = Suc (nat i)" "nat b = Suc (nat j)" using "1.prems" True by auto
      then show ?thesis using "1.prems" False by auto
    qed
    ultimately have "drop (nat i) f = drop (nat j) s" using True by simp
    then show ?thesis
      using True "1.prems" by (intro "1.IH") (simp_all add: join_back.simps [of f s i j])
  next
    case False
    then have r: "i' = a" "j' = b" using "1.prems"(1) by (simp_all add: join_back.simps [of f s i j] split: if_splits)
    show ?thesis
    proof (cases "a = - 1 \<and> b = - 1")
      case True
      then show ?thesis by (simp add: r)
    next
      case nn: False
      then have ab: "a = i + 1" "b = j + 1" "0 \<le> a" "0 \<le> b" using "1.prems"(4) by auto
      have "\<not> (0 < a \<and> 0 < b \<and> f ! (nat a - 1) = s ! (nat b - 1))"
        using False ab by (auto simp: nat_add_distrib)
      then show ?thesis using "1.prems"(4) nn by (auto simp: r)
    qed
  qed
qed

lemma join_back_good:
  assumes f: "f = walk p v k" "length f < k" and s: "s = walk p w k" "length s < k"
    and j: "join_back f s (int (length f) - 1) (int (length s) - 1) (- 1) (- 1) = (a, b)" "0 \<le> a"
  shows "0 \<le> b \<and> good_join f s (nat a) (nat b)"
proof -
  have "(a = - 1 \<and> b = - 1) \<or>
    (0 \<le> a \<and> 0 \<le> b \<and> a < int (length f) \<and> b < int (length s) \<and> drop (nat a) f = drop (nat b) s \<and>
     \<not> (0 < a \<and> 0 < b \<and> f ! (nat a - 1) = s ! (nat b - 1)))"
    using join_back_suffix [OF j(1)] by simp
  then have ab: "0 \<le> b" "nat a < length f" "nat b < length s" "drop (nat a) f = drop (nat b) s"
      "\<not> (0 < nat a \<and> 0 < nat b \<and> f ! (nat a - 1) = s ! (nat b - 1))"
    using j(2) by auto
  have dist: "distinct f" "distinct s" using walk_complete_distinct f s by auto
  have len: "length f - nat a = length s - nat b" using ab(4) by (metis length_drop)
  have "f ! x \<noteq> s ! y" if lt: "x < nat a" "y < nat b" for x y
  proof
    assume e: "f ! x = s ! y"
    have xy: "x < length f" "y < length s" using lt ab by simp_all
    have d: "drop x f = drop y s"
      using walk_complete_suffix [of p v k w k x y] f s xy e by blast
    then have l: "length f - x = length s - y" by (metis length_drop)
    have "length f + y = length s + x" using l xy by linarith
    moreover have "length f + nat b = length s + nat a" using len ab(2,3) by linarith
    ultimately have off: "nat b + x = nat a + y" by linarith
    obtain z where z: "nat a = Suc (x + z)" using less_imp_Suc_add [OF lt(1)] by blast
    then have z': "nat b = Suc (y + z)" using off by linarith
    have "f ! (nat a - 1) = s ! (nat b - 1)"
      using arg_cong [OF d, of "\<lambda>l. l ! z"] xy by (simp add: z z')
    moreover have "0 < nat a" "0 < nat b" using z z' by simp_all
    ultimately show False using ab(5) by blast
  qed
  then have "set (take (nat a) f) \<inter> set (take (nat b) s) = {}"
    by (auto simp: in_set_conv_nth) metis
  moreover have "f ! nat a = s ! nat b"
    using ab by (metis hd_drop_conv_nth)
  ultimately show ?thesis using ab dist by (simp add: good_join_def)
qed


text \<open>
  Capped paths may run in circles, but the first match still meets nowhere before: an earlier
  repetition would have given an earlier match, the parities of positions following the sides.
\<close>

definition first_match :: "nat list \<Rightarrow> nat list \<Rightarrow> nat list \<Rightarrow> nat \<Rightarrow> nat \<Rightarrow> bool" where
  "first_match f s is i j \<longleftrightarrow> i \<in> set is \<and> j < length s \<and> i mod 2 \<noteq> j mod 2 \<and> f ! i = s ! j \<and>
    (\<forall>j' < j. i mod 2 = j' mod 2 \<or> f ! i \<noteq> s ! j') \<and>
    (\<forall>i' \<in> set is. i' < i \<longrightarrow> (\<forall>j' < length s. i' mod 2 = j' mod 2 \<or> f ! i' \<noteq> s ! j'))"

lemma join_scan_first:
  assumes "join_scan f s is = (a, b)" and "0 \<le> a" and "sorted is"
  shows "\<exists>i j. a = int i \<and> b = int j \<and> first_match f s is i j"
  using assms
proof (induction f s "is" rule: join_scan.induct)
  case (2 f s i "is")
  show ?case
  proof (cases "find (\<lambda>j. i mod 2 \<noteq> j mod 2 \<and> f ! i = s ! j) [0..<length s]")
    case None
    have none: "\<forall>j' < length s. i mod 2 = j' mod 2 \<or> f ! i \<noteq> s ! j'"
      using None by (auto simp: find_None_iff)
    obtain i' j where m: "a = int i'" "b = int j" "first_match f s is i' j"
      using "2.IH" [OF None] "2.prems" None by auto
    have "first_match f s (i # is) i' j"
      using m(3) none unfolding first_match_def by auto
    then show ?thesis using m by blast
  next
    case (Some j)
    then have n: "j < length s" "i mod 2 \<noteq> j mod 2" "f ! i = s ! j"
        "\<forall>m < j. \<not> (i mod 2 \<noteq> m mod 2 \<and> f ! i = s ! m)"
      by (auto simp: find_Some_iff)
    have "a = int i" "b = int j" using "2.prems" Some by simp_all
    moreover have "\<forall>i' \<in> set (i # is). \<not> i' < i" using "2.prems"(3) by auto
    ultimately show ?thesis using n by (auto simp: first_match_def)
  qed
qed simp

lemma walk_repeat:
  assumes "walk p v k ! x = walk p v k ! y" and "x < y" and "y + z < length (walk p v k)"
  shows "walk p v k ! (x + z) = walk p v k ! (y + z)"
  using assms(3)
proof (induction z)
  case (Suc z)
  have "Suc (x + z) < length (walk p v k)" "Suc (y + z) < length (walk p v k)" using Suc.prems assms(2) by simp_all
  then show ?case using Suc walk_step by (metis Suc_lessD add_Suc_right)
qed (simp add: assms(1))


lemma walk_distinct_prefix:
  assumes "i < length (walk p v k)" and "\<And>x. x < i \<Longrightarrow> walk p v k ! x \<noteq> walk p v k ! i"
  shows "distinct (take (Suc i) (walk p v k))"
proof -
  have ne: "walk p v k ! x \<noteq> walk p v k ! y" if "x < y" "y \<le> i" for x y
  proof
    assume "walk p v k ! x = walk p v k ! y"
    then have "walk p v k ! (x + (i - y)) = walk p v k ! (y + (i - y))"
      using that assms(1) by (intro walk_repeat) simp_all
    moreover have "x + (i - y) < i" "y + (i - y) = i" using that by linarith+
    ultimately show False using assms(2) by metis
  qed
  have "walk p v k ! x \<noteq> walk p v k ! y" if "x \<le> i" "y \<le> i" "x \<noteq> y" for x y
    using ne [of x y] ne [of y x] that by (cases "x < y") auto
  then show ?thesis by (simp add: distinct_conv_nth less_Suc_eq_le)
qed

lemma first_match_good:
  assumes f: "f = walk p v k" and s: "s = walk p w k"
    and sf: "\<And>i. i < length f \<Longrightarrow> side (f ! i) = i mod 2"
    and ss: "\<And>j. j < length s \<Longrightarrow> side (s ! j) = (j + 1) mod 2"
    and m: "first_match f s [0..<length f] i j"
  shows "good_join f s i j"
proof -
  have ij: "i < length f" "j < length s" "f ! i = s ! j" using m by (auto simp: first_match_def)
  have par: "x mod 2 \<noteq> y mod 2" if "x < length f" "y < length s" "f ! x = s ! y" for x y
    using sf [OF that(1)] ss [OF that(2)] that(3) by (simp add: mod_Suc split: if_splits)
  have early: "f ! x \<noteq> s ! y" if "x < i" "y < length s" for x y
  proof
    assume e: "f ! x = s ! y"
    have x: "x \<in> set [0..<length f]" using that ij by simp
    then have "x mod 2 = y mod 2 \<or> f ! x \<noteq> s ! y" using m that unfolding first_match_def by blast
    then show False using e par [of x y] that x by simp
  qed
  have late: "f ! i \<noteq> s ! y" if "y < j" for y
    using m that par [of i y] ij unfolding first_match_def by auto
  have "distinct (take (Suc i) f)"
    unfolding f by (rule walk_distinct_prefix) (use ij early [of _ j] in \<open>simp_all add: f\<close>)
  moreover have "distinct (take (Suc j) s)"
    unfolding s by (rule walk_distinct_prefix) (use ij late in \<open>simp_all add: s, metis\<close>)
  moreover have "set (take i f) \<inter> set (take j s) = {}"
    using early by (auto simp: in_set_conv_nth) metis
  ultimately show ?thesis using ij by (simp add: good_join_def)
qed

lemma find_join_good:
  assumes f: "f = walk p v 8192" and s: "s = walk p w 8192"
    and sf: "\<And>i. i < length f \<Longrightarrow> side (f ! i) = i mod 2"
    and ss: "\<And>j. j < length s \<Longrightarrow> side (s ! j) = (j + 1) mod 2"
    and "find_join f s = (a, b)" "0 \<le> a"
  shows "\<exists>i j. a = int i \<and> b = int j \<and> good_join f s i j"
proof (cases "length f < 8192 \<and> length s < 8192")
  case True
  then have "join_back f s (int (length f) - 1) (int (length s) - 1) (- 1) (- 1) = (a, b)"
    using assms(5) by (simp only: find_join_def) simp
  then have "0 \<le> b \<and> good_join f s (nat a) (nat b)"
    using join_back_good [OF f _ s] True assms(6) by blast
  then show ?thesis using assms(6) by (intro exI [of _ "nat a"] exI [of _ "nat b"]) simp
next
  case False
  then have "join_scan f s [0..<length f] = (a, b)" using assms(5) by (auto simp only: find_join_def if_False)
  then obtain i j where "a = int i" "b = int j" "first_match f s [0..<length f] i j"
    using join_scan_first assms(6) by fastforce
  then show ?thesis using first_match_good [OF f s sf ss] by blast
qed

section \<open>Dense vertex numbers\<close>

fun interned_ok :: "interned \<Rightarrow> bool" where
  "interned_ok (dict, raws) \<longleftrightarrow>
     (\<forall>k d. dict k = Some d \<longrightarrow> d < length raws \<and> raws ! d = ucast k) \<and>
     (\<forall>k k' d. dict k = Some d \<and> dict k' = Some d \<longrightarrow> k = k') \<and>
     (\<forall>d < length raws. \<exists>k. dict k = Some d)"

fun dense_of :: "(u64 \<rightharpoonup> nat) \<Rightarrow> dense_edge \<Rightarrow> edge \<Rightarrow> bool" where
  "dense_of dict (a, b) (x, y) \<longleftrightarrow> dict (vertex_key 0 x) = Some a \<and> dict (vertex_key 1 y) = Some b"

lemma vertex_key_raw: "ucast (vertex_key side raw_id) = raw_id"
  unfolding vertex_key_def by (rule bit_word_eqI) (auto simp: bit_simps)

lemma vertex_key_side: "drop_bit 32 (vertex_key side raw_id) = ucast side"
  unfolding vertex_key_def
  by (rule bit_word_eqI) (auto simp: bit_simps dest: bit_imp_le_length)

lemma key_determined:
  fixes k k' :: u64
  assumes "drop_bit 32 k = drop_bit 32 k'" and "(ucast k :: u32) = ucast k'"
  shows "k = k'"
proof (rule bit_word_eqI)
  fix n assume n: "n < LENGTH(64)"
  show "bit k n = bit k' n"
  proof (cases "n < 32")
    case True
    then show ?thesis using arg_cong [OF assms(2), of "\<lambda>w. bit w n"] by (simp add: bit_simps)
  next
    case False
    then show ?thesis using arg_cong [OF assms(1), of "\<lambda>w. bit w (n - 32)"] n by (simp add: bit_simps)
  qed
qed

lemma intern_ok:
  assumes "interned_ok (dict, raws)" and "intern (dict, raws) side raw_id = (d, dict', raws')"
  shows "interned_ok (dict', raws') \<and> dict \<subseteq>\<^sub>m dict' \<and> dict' (vertex_key side raw_id) = Some d \<and>
    length raws' \<le> length raws + 1"
proof (cases "dict (vertex_key side raw_id)")
  case (Some e)
  then show ?thesis using assms by auto
next
  case None
  let ?k = "vertex_key side raw_id"
  have r: "d = length raws" "dict' = dict(?k \<mapsto> length raws)" "raws' = raws @ [raw_id]"
    using assms(2) None by auto
  have fresh: "dict k \<noteq> Some (length raws)" for k using assms(1) by auto
  have c1: "d' < length raws' \<and> raws' ! d' = ucast k" if "dict' k = Some d'" for k d'
    using assms(1) that by (cases "k = ?k") (auto simp: r nth_append vertex_key_raw less_Suc_eq)
  have c2: "k = k'" if "dict' k = Some d'" "dict' k' = Some d'" for k k' d'
    using assms(1) that fresh by (cases "k = ?k"; cases "k' = ?k") (auto simp: r)
  have c3: "\<exists>k. dict' k = Some d'" if "d' < length raws'" for d'
  proof (cases "d' = length raws")
    case False
    then obtain k where "dict k = Some d'" using assms(1) \<open>d' < length raws'\<close> by (auto simp: r less_Suc_eq)
    moreover then have "k \<noteq> ?k" using None by auto
    ultimately show ?thesis by (auto simp: r)
  qed (auto simp: r)
  have "interned_ok (dict', raws')"
    unfolding interned_ok.simps
    by (intro conjI allI impI) (use c1 in blast, use c1 in blast, use c2 in blast, use c3 in blast)
  moreover have "dict \<subseteq>\<^sub>m dict'" using None by (auto simp: r map_le_def)
  ultimately show ?thesis by (simp add: r del: interned_ok.simps)
qed

lemma intern_edges_ok:
  assumes "interned_ok (dict, raws)" and "intern_edges (dict, raws) es = (ds, dict', raws')"
  shows "interned_ok (dict', raws') \<and> dict \<subseteq>\<^sub>m dict' \<and> list_all2 (dense_of dict') ds es \<and>
    length raws' \<le> length raws + 2 * length es"
  using assms
proof (induction es arbitrary: dict raws ds)
  case (Cons e es)
  obtain x y where e: "e = (x, y)" by fastforce
  obtain a d1 r1 where i1: "intern (dict, raws) 0 x = (a, d1, r1)" by (metis prod_cases3)
  obtain b d2 r2 where i2: "intern (d1, r1) 1 y = (b, d2, r2)" by (metis prod_cases3)
  obtain ds' where i3: "intern_edges (d2, r2) es = (ds', dict', raws')" and ds: "ds = (a, b) # ds'"
    using Cons.prems(2) i1 i2 unfolding e by (auto simp: Let_def split: prod.splits)
  have o1: "interned_ok (d1, r1) \<and> dict \<subseteq>\<^sub>m d1 \<and> d1 (vertex_key 0 x) = Some a \<and> length r1 \<le> length raws + 1"
    using intern_ok [OF Cons.prems(1) i1] .
  then have o2: "interned_ok (d2, r2) \<and> d1 \<subseteq>\<^sub>m d2 \<and> d2 (vertex_key 1 y) = Some b \<and> length r2 \<le> length r1 + 1"
    using intern_ok [OF _ i2] by blast
  then have o3: "interned_ok (dict', raws') \<and> d2 \<subseteq>\<^sub>m dict' \<and> list_all2 (dense_of dict') ds' es \<and>
      length raws' \<le> length r2 + 2 * length es"
    using Cons.IH [OF _ i3] by blast
  have keep: "g k = Some v" if "h \<subseteq>\<^sub>m g" "h k = Some v" for g h :: "u64 \<rightharpoonup> nat" and k v
    using that by (metis domI map_le_def)
  have "dict' (vertex_key 0 x) = Some a" "dict' (vertex_key 1 y) = Some b"
    using o1 o2 o3 keep by blast+
  then have "dense_of dict' (a, b) e" by (simp add: e)
  moreover have "dict \<subseteq>\<^sub>m dict'" using o1 o2 o3 map_le_trans by blast
  ultimately show ?case using o1 o2 o3 by (simp add: ds)
qed simp

text \<open>
  The dense graph: vertex numbers below \<open>n\<close>, a side for each, and the pair of side and raw number
  determining the vertex.
\<close>

definition dense_graph :: "edge list \<Rightarrow> dense_edge list \<Rightarrow> u32 list \<Rightarrow> (nat \<Rightarrow> nat) \<Rightarrow> bool" where
  "dense_graph es ds raws side \<longleftrightarrow>
     (\<forall>(a, b) \<in> set ds. a < length raws \<and> b < length raws \<and> side a = 0 \<and> side b = 1 \<and>
        (raws ! a, raws ! b) \<in> set es) \<and>
     inj_on (\<lambda>d. (side d, raws ! d)) {..<length raws} \<and> length raws \<le> 2 * length es"

lemma intern_edges_dense_graph:
  assumes "intern_edges (Map.empty, []) es = (ds, dict, raws)"
  shows "\<exists>side. dense_graph es ds raws side"
proof -
  have ok: "interned_ok (dict, raws)" "list_all2 (dense_of dict) ds es" "length raws \<le> 2 * length es"
    using intern_edges_ok [OF _ assms] by auto
  define key where "key = (\<lambda>d. SOME k. dict k = Some d)"
  have key: "dict (key d) = Some d" if "d < length raws" for d
    unfolding key_def by (rule someI_ex) (use ok(1) that in simp)
  have key_eq: "key d = k" if "dict k = Some d" for k d
    using ok(1) that key by (metis interned_ok.simps)
  define side where "side = (\<lambda>d. unat (drop_bit 32 (key d)))"
  have "a < length raws \<and> b < length raws \<and> side a = 0 \<and> side b = 1 \<and> (raws ! a, raws ! b) \<in> set es"
    if "(a, b) \<in> set ds" for a b
  proof -
    obtain x y where xy: "(x, y) \<in> set es" "dict (vertex_key 0 x) = Some a" "dict (vertex_key 1 y) = Some b"
      using ok(2) \<open>(a, b) \<in> set ds\<close> by (auto simp: list_all2_iff in_set_zip in_set_conv_nth set_zip) 
         (metis dense_of.simps nth_mem surj_pair)
    have "raws ! a = x" "raws ! b = y" "a < length raws" "b < length raws"
      using ok(1) xy by (auto simp: vertex_key_raw)
    moreover have "side a = 0" "side b = 1"
      using key_eq [OF xy(2)] key_eq [OF xy(3)] by (simp_all add: side_def vertex_key_side)
    ultimately show ?thesis using xy(1) by simp
  qed
  moreover have "inj_on (\<lambda>d. (side d, raws ! d)) {..<length raws}"
  proof (rule inj_onI)
    fix d e assume de: "d \<in> {..<length raws}" "e \<in> {..<length raws}" "(side d, raws ! d) = (side e, raws ! e)"
    have "raws ! i = ucast (key i)" if "i < length raws" for i
      using key [OF that] ok(1) by simp
    then have u: "(ucast (key d) :: u32) = ucast (key e)" using de by fastforce
    have "unat (drop_bit 32 (key d)) = unat (drop_bit 32 (key e))"
      using de(3) unfolding side_def by blast
    then have "drop_bit 32 (key d) = drop_bit 32 (key e)" by (rule unsigned_word_eqI)
    then have "key d = key e" using u by (rule key_determined)
    moreover have "dict (key d) = Some d" "dict (key e) = Some e" using de(1,2) key by simp_all
    ultimately show "d = e" by (metis option.inject)
  qed
  ultimately show ?thesis using ok(3) by (auto simp: dense_graph_def)
qed

section \<open>The forest\<close>

definition adjacent :: "dense_edge set \<Rightarrow> nat \<Rightarrow> nat \<Rightarrow> bool" where
  "adjacent E u v \<longleftrightarrow> (u, v) \<in> E \<or> (v, u) \<in> E"

definition forest_ok :: "nat \<Rightarrow> dense_edge set \<Rightarrow> nat list \<Rightarrow> bool" where
  "forest_ok n E p \<longleftrightarrow> length p = n \<and> n \<le> kNoParent \<and>
     (\<forall>v < n. p ! v \<noteq> kNoParent \<longrightarrow> p ! v < n \<and> adjacent E v (p ! v))"

lemma forest_update:
  assumes "forest_ok n E p" and "v < n" and "x = kNoParent \<or> x < n \<and> adjacent E v x"
  shows "forest_ok n E (p[v := x])"
  using assms by (auto simp: forest_ok_def nth_list_update)

lemma walk_forest:
  assumes "forest_ok n E p" and "v < n" and "i < length (walk p v k)"
  shows "walk p v k ! i < n"
  using assms(2,3)
proof (induction k arbitrary: v i)
  case (Suc k)
  show ?case
  proof (cases i)
    case (Suc i')
    then have "p ! v \<noteq> kNoParent" "i' < length (walk p (p ! v) k)" using Suc.prems by (auto split: if_splits)
    moreover then have "p ! v < n" using assms(1) Suc.prems by (auto simp: forest_ok_def)
    ultimately show ?thesis using Suc.IH Suc by simp
  qed (use Suc in simp)
qed simp

lemma walk_adjacent:
  assumes "forest_ok n E p" and "v < n" and "Suc i < length (walk p v k)"
  shows "adjacent E (walk p v k ! i) (walk p v k ! Suc i)"
proof -
  have "walk p v k ! i < n" using assms by (intro walk_forest) auto
  then show ?thesis using assms(1) walk_step [OF assms(3)] by (auto simp: forest_ok_def)
qed

lemma reverse_path_forest:
  assumes "forest_ok n E p" and in_range: "\<And>i. i < length path \<Longrightarrow> path ! i < n"
    and adj: "\<And>i. Suc i < length path \<Longrightarrow> adjacent E (path ! i) (path ! Suc i)"
  shows "forest_ok n E (reverse_path p path)"
proof -
  have fold: "forest_ok n E (foldl (\<lambda>p i. p[path ! i := kNoParent, path ! (i + 1) := path ! i]) p is)"
    if "\<forall>i \<in> set is. Suc i < length path" "forest_ok n E p" for "is" p
    using that
  proof (induction "is" arbitrary: p)
    case (Cons i "is")
    have "adjacent E (path ! Suc i) (path ! i)" using adj [of i] Cons.prems by (auto simp: adjacent_def)
    moreover have "path ! i < n" "path ! Suc i < n" using in_range Cons.prems by auto
    ultimately have "forest_ok n E (p[path ! i := kNoParent, path ! (i + 1) := path ! i])"
      using Cons.prems(2) by (intro forest_update) auto
    then show ?case using Cons by simp
  qed simp
  show ?thesis unfolding reverse_path_def by (rule fold [OF _ assms(1)]) auto
qed

section \<open>Cycles\<close>

text \<open>A vertex is its side and its raw number; an edge is written from side 0 to side 1.\<close>

type_synonym vertex = "nat \<times> u32"

definition oriented :: "vertex \<Rightarrow> vertex \<Rightarrow> edge" where
  "oriented v w = (if fst v = 0 then (snd v, snd w) else (snd w, snd v))"

fun edges_along :: "vertex list \<Rightarrow> edge list" where
  "edges_along (v # w # vs) = oriented v w # edges_along (w # vs)"
| "edges_along _ = []"

definition simple_cycle :: "edge list \<Rightarrow> vertex list \<Rightarrow> bool" where
  "simple_cycle c vs \<longleftrightarrow> 4 \<le> length vs \<and> distinct vs \<and> (\<forall>v \<in> set vs. fst v < 2) \<and>
     successively (\<lambda>v w. fst v \<noteq> fst w) vs \<and> fst (last vs) \<noteq> fst (hd vs) \<and>
     mset c = mset (oriented (last vs) (hd vs) # edges_along vs)"

lemma edges_along_append:
  "xs \<noteq> [] \<Longrightarrow> ys \<noteq> [] \<Longrightarrow> edges_along (xs @ ys) = edges_along xs @ oriented (last xs) (hd ys) # edges_along ys"
  by (induction xs rule: edges_along.induct) (auto simp: neq_Nil_conv)

lemma length_edges_along: "length (edges_along vs) = length vs - 1"
  by (induction vs rule: edges_along.induct) auto

lemma oriented_commute: "fst v < 2 \<Longrightarrow> fst w < 2 \<Longrightarrow> fst v \<noteq> fst w \<Longrightarrow> oriented v w = oriented w v"
  by (auto simp: oriented_def)

lemma edges_along_rev:
  assumes "successively (\<lambda>v w. fst v \<noteq> fst w) vs" and "\<forall>v \<in> set vs. fst v < 2"
  shows "mset (edges_along (rev vs)) = mset (edges_along vs)"
  using assms
proof (induction vs rule: edges_along.induct)
  case (1 v w vs)
  have "edges_along (rev (v # w # vs)) = edges_along (rev (w # vs)) @ [oriented w v]"
    by (simp add: edges_along_append [of "rev (w # vs)" "[v]", simplified])
  then show ?case using 1 oriented_commute [of v w] by simp
qed auto

text \<open>The raw edges the program writes down for a stretch of a path.\<close>

lemma append_path_edges:
  assumes "i + n < length path" and "\<And>j. j < length path \<Longrightarrow> side (path ! j) = (j + s) mod 2"
  shows "append_path raws path i n (side (path ! i) = 0) =
    edges_along (map (\<lambda>d. (side d, raws ! d)) (take (Suc n) (drop i path)))"
  using assms(1)
proof (induction n arbitrary: i)
  case 0
  then show ?case by (simp add: take_Suc_conv_app_nth)
next
  case (Suc n)
  have d: "drop i path = path ! i # path ! Suc i # drop (Suc (Suc i)) path"
    using Suc.prems by (simp add: Cons_nth_drop_Suc)
  have d': "drop (Suc i) path = path ! Suc i # drop (Suc (Suc i)) path"
    using Suc.prems by (simp add: Cons_nth_drop_Suc)
  have "side (path ! Suc i) = 0 \<longleftrightarrow> \<not> side (path ! i) = 0"
    using assms(2) [of i] assms(2) [of "Suc i"] Suc.prems by (simp add: mod_Suc)
  then show ?case using Suc.IH [of "Suc i"] Suc.prems by (simp add: d d' oriented_def)
qed


text \<open>Two paths that end in the same vertex, joined there.\<close>

lemma joined_path:
  assumes "F \<noteq> []" and "successively (\<lambda>v w. fst v \<noteq> fst w) F"
    and S: "successively (\<lambda>v w. fst v \<noteq> fst w) (S @ [last F])" and "\<forall>v \<in> set (F @ rev S). fst v < 2"
  shows "successively (\<lambda>v w. fst v \<noteq> fst w) (F @ rev S) \<and>
    mset (edges_along (F @ rev S)) = mset (edges_along F @ edges_along (S @ [last F]))"
proof (cases "S = []")
  case False
  have two: "\<forall>v \<in> set S. fst v < 2" "fst (last F) < 2" "fst (last S) < 2" using assms False by auto
  have "successively (\<lambda>v w. fst v \<noteq> fst w) S" "fst (last S) \<noteq> fst (last F)"
    using S False by (simp_all add: successively_append_iff)
  then show ?thesis
    using assms(1,2) False two edges_along_rev [of S] oriented_commute [of "last S" "last F"]
    by (simp add: successively_append_iff edges_along_append hd_rev) (metis (mono_tags, lifting) successively_mono)
qed (use assms in simp)

lemma good_join_cycle:
  assumes j: "good_join f s i j"
    and sf: "\<And>i. i < length f \<Longrightarrow> side (f ! i) = i mod 2"
    and ss: "\<And>j. j < length s \<Longrightarrow> side (s ! j) = (j + 1) mod 2"
    and inj: "inj_on (\<lambda>d. (side d, raws ! d)) (set f \<union> set s)"
    and ends: "f \<noteq> []" "s \<noteq> []" "3 \<le> i + j"
  shows "\<exists>vs. length vs = 1 + i + j \<and> simple_cycle (cycle_edges raws (f ! 0) (s ! 0) f s i j) vs"
proof -
  define vert where "vert = (\<lambda>d. (side d, raws ! d))"
  define F S where "F = map vert (take (Suc i) f)" and "S = map vert (take j s)"
  have ij: "i < length f" "j < length s" "f ! i = s ! j" and
    dist: "distinct (take (Suc i) f)" "distinct (take (Suc j) s)" and
    disj: "set (take i f) \<inter> set (take j s) = {}"
    using j by (auto simp: good_join_def)
  have F: "F \<noteq> []" "length F = Suc i" "last F = vert (s ! j)" "hd F = vert (f ! 0)"
    using ij ends by (simp_all add: F_def last_conv_nth hd_conv_nth)
  have fj: "f ! i \<notin> set (take j s)" using dist(2) ij by (simp add: take_Suc_conv_app_nth)
  have "distinct (take (Suc i) f @ rev (take j s))"
    using dist disj fj ij by (auto simp: take_Suc_conv_app_nth)
  moreover have "inj_on vert (set (take (Suc i) f @ rev (take j s)))"
    unfolding vert_def by (rule inj_on_subset [OF inj]) (auto dest: in_set_takeD)
  ultimately have "distinct (map vert (take (Suc i) f @ rev (take j s)))" unfolding distinct_map by blast
  then have d: "distinct (F @ rev S)" by (simp add: F_def S_def rev_map)
  have two: "\<forall>v \<in> set (F @ rev S). fst v < 2"
    using sf ss by (auto simp: F_def S_def vert_def in_set_conv_nth)
  have altF: "successively (\<lambda>v w. fst v \<noteq> fst w) F"
    using ij sf by (auto simp: F_def successively_conv_nth vert_def mod_Suc)
  have altS: "successively (\<lambda>v w. fst v \<noteq> fst w) (S @ [vert (s ! j)])"
    using ij ss by (auto simp: S_def successively_conv_nth vert_def mod_Suc nth_append less_Suc_eq)
  have last_vs: "last (F @ rev S) = vert (s ! 0)"
  proof (cases "j = 0")
    case False
    then have "S \<noteq> []" "hd S = vert (s ! 0)" using ij ends by (auto simp: S_def hd_map hd_conv_nth)
    then show ?thesis by (simp add: last_rev)
  qed (use F in \<open>simp add: S_def\<close>)
  have hd_vs: "hd (F @ rev S) = vert (f ! 0)" using F by simp
  have "side (f ! 0) = 0" "side (s ! 0) = 1" using sf [of 0] ss [of 0] ends by simp_all
  then have c: "cycle_edges raws (f ! 0) (s ! 0) f s i j =
      oriented (last (F @ rev S)) (hd (F @ rev S)) # edges_along F @ edges_along (S @ [vert (s ! j)])"
    using append_path_edges [of 0 i f side 0 raws] append_path_edges [of 0 j s side 1 raws] ij sf ss
    unfolding last_vs hd_vs cycle_edges_def
    by (simp add: F_def S_def vert_def oriented_def take_Suc_conv_app_nth)
  have alt: "successively (\<lambda>v w. fst v \<noteq> fst w) (F @ rev S) \<and>
      mset (edges_along (F @ rev S)) = mset (edges_along F @ edges_along (S @ [vert (s ! j)]))"
    using altF altS two F joined_path [of F S] by simp
  show ?thesis
    unfolding c simple_cycle_def
    using d two alt last_vs hd_vs ends ij F \<open>side (f ! 0) = 0\<close> \<open>side (s ! 0) = 1\<close>
    by (intro exI [of _ "F @ rev S"]) (simp add: S_def vert_def)
qed


section \<open>The search\<close>

definition solution_ok :: "edge list \<Rightarrow> nat \<Rightarrow> edge list \<Rightarrow> bool" where
  "solution_ok es target c \<longleftrightarrow>
     length c = target \<and> set c \<subseteq> set es \<and> (\<exists>vs. length vs = target \<and> simple_cycle c vs)"

lemma length_append_path [simp]: "length (append_path raws path i n b) = n"
  by (induction n arbitrary: i b) auto

lemma append_path_subset:
  fixes side :: "nat \<Rightarrow> nat"
  assumes "\<And>j. i \<le> j \<Longrightarrow> j < i + n \<Longrightarrow> adjacent E (path ! j) (path ! Suc j)"
    and "\<And>j. i \<le> j \<Longrightarrow> j \<le> i + n \<Longrightarrow> b = (side (path ! j) = 0) \<longleftrightarrow> even (j - i)"
    and E: "\<And>a b. (a, b) \<in> E \<Longrightarrow> side a = 0 \<and> side b = 1 \<and> (raws ! a, raws ! b) \<in> X"
  shows "set (append_path raws path i n b) \<subseteq> X"
  using assms(1,2)
proof (induction n arbitrary: i b)
  case (Suc n)
  have "adjacent E (path ! i) (path ! Suc i)" "b = (side (path ! i) = 0)"
    using Suc.prems(1) [of i] Suc.prems(2) [of i] by auto
  then have "(if b then (raws ! (path ! i), raws ! (path ! (i + 1)))
      else (raws ! (path ! (i + 1)), raws ! (path ! i))) \<in> X"
    using E by (auto simp: adjacent_def)
  moreover have "set (append_path raws path (i + 1) n (\<not> b)) \<subseteq> X"
  proof (rule Suc.IH)
    show "adjacent E (path ! j) (path ! Suc j)" if "i + 1 \<le> j" "j < i + 1 + n" for j
      using Suc.prems(1) that by simp
    show "(\<not> b) = (side (path ! j) = 0) \<longleftrightarrow> even (j - (i + 1))" if "i + 1 \<le> j" "j \<le> i + 1 + n" for j
      using Suc.prems(2) [of j] that by (auto simp: even_diff_nat)
  qed
  ultimately show ?case by auto
qed simp


text \<open>The two paths of an edge of the dense graph.\<close>

lemma walk_sides:
  assumes ok: "forest_ok n E p" and "v < n"
    and E: "\<And>a b. (a, b) \<in> E \<Longrightarrow> side a = 0 \<and> side b = (1 :: nat)" and "side v = s" "s < 2"
  shows "i < length (walk p v k) \<Longrightarrow> side (walk p v k ! i) = (i + s) mod 2"
proof (induction i)
  case 0
  have "0 < k" using 0 by (cases k) auto
  then show ?case using assms(4,5) by (simp add: walk_hd)
next
  case (Suc i)
  have "adjacent E (walk p v k ! i) (walk p v k ! Suc i)" using walk_adjacent [OF ok assms(2) Suc.prems] .
  then show ?case using Suc E by (auto simp: adjacent_def mod_Suc)
qed


lemma join_solution:
  assumes G: "dense_graph es ds raws side" and ok: "forest_ok (length raws) (set ds) p"
    and ab: "(a, b) \<in> set ds" and new: "p ! a \<noteq> b" "p ! b \<noteq> a"
    and join: "find_join (create_path p a) (create_path p b) = (ja, jb)" "0 \<le> ja"
    and target: "1 + ja + jb = int target"
  shows "solution_ok es target (cycle_edges raws a b (create_path p a) (create_path p b) (nat ja) (nat jb))"
proof -
  define f s where "f = walk p a 8192" and "s = walk p b 8192"
  have E: "side x = 0 \<and> side y = 1 \<and> (raws ! x, raws ! y) \<in> set es \<and> x < length raws \<and> y < length raws"
    if "(x, y) \<in> set ds" for x y using G that by (auto simp: dense_graph_def)
  have ends: "f ! 0 = a" "s ! 0 = b" "f \<noteq> []" "s \<noteq> []" by (simp_all add: f_def s_def walk_hd)
  have sf: "side (f ! i) = i mod 2" if "i < length f" for i
    using walk_sides [OF ok, of a side 0 i 8192] E ab that by (auto simp: f_def)
  have ss: "side (s ! i) = (i + 1) mod 2" if "i < length s" for i
    using walk_sides [OF ok, of b side 1 i 8192] E ab that by (auto simp: s_def)
  obtain i j where ij: "ja = int i" "jb = int j" "good_join f s i j"
    using find_join_good [OF f_def s_def, of side ja jb] sf ss join
    by (auto simp: f_def [symmetric] s_def [symmetric] create_path_walk)
  have lt: "i < length f" "j < length s" "f ! i = s ! j" using ij(3) by (auto simp: good_join_def)
  have "i mod 2 = (j + 1) mod 2" using sf [OF lt(1)] ss [OF lt(2)] lt(3) by simp
  moreover have "\<not> (i = 1 \<and> j = 0)"
    using new(1) lt ends walk_step [of 0 p a 8192]
    by (auto simp: f_def [symmetric] intro!: gr0I)
  moreover have "\<not> (i = 0 \<and> j = 1)"
    using new(2) lt ends walk_step [of 0 p b 8192]
    by (auto simp: s_def [symmetric] intro!: gr0I)
  ultimately have "3 \<le> i + j" by presburger
  moreover have "inj_on (\<lambda>d. (side d, raws ! d)) (set f \<union> set s)"
  proof (rule inj_on_subset)
    show "inj_on (\<lambda>d. (side d, raws ! d)) {..<length raws}" using G by (simp add: dense_graph_def)
    show "set f \<union> set s \<subseteq> {..<length raws}"
      using walk_forest [OF ok] E [OF ab] by (auto simp: f_def s_def in_set_conv_nth)
  qed
  ultimately have "\<exists>vs. length vs = 1 + i + j \<and> simple_cycle (cycle_edges raws a b f s i j) vs"
    using good_join_cycle [OF ij(3), of side raws] sf ss ends by simp
  moreover have "set (cycle_edges raws a b f s i j) \<subseteq> set es"
  proof -
    have "set (append_path raws f 0 i True) \<subseteq> set es"
      using walk_adjacent [OF ok] E ab lt sf
      by (intro append_path_subset [where E = "set ds" and side = side]) (auto simp: f_def)
    moreover have "set (append_path raws s 0 j False) \<subseteq> set es"
      using walk_adjacent [OF ok] E ab lt ss
      by (intro append_path_subset [where E = "set ds" and side = side]) (auto simp: s_def mod_Suc)
    ultimately show ?thesis using E [OF ab] by (simp add: cycle_edges_def)
  qed
  moreover have "target = 1 + i + j" using target ij by simp
  ultimately show ?thesis
    by (simp add: solution_ok_def create_path_walk f_def [symmetric] s_def [symmetric] ij cycle_edges_def)
qed


lemma create_path_forest:
  assumes "forest_ok n E p" and "v < n"
  shows "forest_ok n E (reverse_path p (create_path p v))"
  unfolding create_path_walk
  using assms walk_forest walk_adjacent by (intro reverse_path_forest) auto

lemma cycle_step_ok:
  assumes G: "dense_graph es ds raws side" and ok: "forest_ok (length raws) (set ds) p"
    and ab: "(a, b) \<in> set ds" and sols: "\<forall>c \<in> set sols. solution_ok es target c"
    and step: "cycle_step raws target (p, sols) (a, b) = (p', sols')"
  shows "forest_ok (length raws) (set ds) p' \<and> (\<forall>c \<in> set sols'. solution_ok es target c)"
proof (cases "p ! a = b \<or> p ! b = a")
  case True
  then show ?thesis using step ok sols by simp
next
  case False
  obtain ja jb where j: "find_join (create_path p a) (create_path p b) = (ja, jb)" by fastforce
  have lt: "a < length raws" "b < length raws" using G ab by (auto simp: dense_graph_def)
  have adj: "adjacent (set ds) a b" "adjacent (set ds) b a" using ab by (simp_all add: adjacent_def)
  show ?thesis
  proof (cases "0 \<le> ja")
    case True
    then show ?thesis
      using join_solution [OF G ok ab _ _ j True] False step ok sols j by (auto split: if_splits)
  next
    case no: False
    then show ?thesis
      using False step sols j lt adj create_path_forest [OF ok]
      by (auto simp: Let_def split: if_splits intro!: forest_update)
  qed
qed

text \<open>
  C2. Soundness of the cycle search. Whatever trimmed graph it gets (with fewer than 2^31 - 1
  edges, so that vertex numbers stay below the sentinel), every solution that
  \<open>find_cycles\<close> reports has exactly the target number of edges, all of them edges of the graph, and they
  form a simple cycle: a closed walk through pairwise different vertices that alternates
  between the two sides, of length at least four. This holds for complete and for capped
  paths alike.
\<close>

theorem find_cycles_sound:
  assumes "2 * length es < 2 ^ 32" and "c \<in> set (find_cycles es target)"
  shows "length c = target \<and> set c \<subseteq> set es \<and> (\<exists>vs. length vs = target \<and> simple_cycle c vs)"
proof -
  obtain ds dict raws where i: "intern_edges (Map.empty, []) es = (ds, dict, raws)" by (metis prod_cases3)
  obtain side where G: "dense_graph es ds raws side" using intern_edges_dense_graph [OF i] by blast
  have n: "length raws \<le> kNoParent" using G assms(1) by (auto simp: dense_graph_def kNoParent_def)
  have fold: "forest_ok (length raws) (set ds) (fst (foldl (cycle_step raws target) st xs)) \<and>
      (\<forall>c \<in> set (snd (foldl (cycle_step raws target) st xs)). solution_ok es target c)"
    if "set xs \<subseteq> set ds" "forest_ok (length raws) (set ds) (fst st)"
      "\<forall>c \<in> set (snd st). solution_ok es target c" for xs st
    using that
  proof (induction xs arbitrary: st)
    case (Cons x xs)
    obtain a b p sols p' sols' where eqs: "x = (a, b)" "st = (p, sols)" "cycle_step raws target st x = (p', sols')"
      by (metis surj_pair)
    have "forest_ok (length raws) (set ds) p' \<and> (\<forall>c \<in> set sols'. solution_ok es target c)"
      using cycle_step_ok [OF G, of p a b sols target p' sols'] Cons.prems eqs by simp
    then show ?case using Cons.IH [of "(p', sols')"] Cons.prems(1) eqs by simp
  qed simp
  have "forest_ok (length raws) (set ds) (replicate (length raws) kNoParent)"
    using n by (simp add: forest_ok_def)
  then show ?thesis
    using fold [of ds "(replicate (length raws) kNoParent, [])"] assms(2)
    by (simp add: find_cycles_def i solution_ok_def)
qed


theorem find_cycles_sound_witness:
  "find_cycles [(1, 5), (2, 5), (2, 6), (7, 6), (1, 6)] 4 = [[(1, 6), (1, 5), (2, 6), (2, 5)]] \<and>
   (\<exists>vs. length vs = 4 \<and> simple_cycle [(1, 6), (1, 5), (2, 6), (2, 5)] vs)"
proof -
  have r: "find_cycles [(1, 5), (2, 5), (2, 6), (7, 6), (1, 6)] 4 = [[(1, 6), (1, 5), (2, 6), (2, 5)]]"
    by (simp add: find_cycles_def vertex_key_def create_path_def create_path_loop.simps kNoParent_def
        find_join_def join_back.simps reverse_path_def cycle_edges_def Let_def)
      (simp add: numeral_2_eq_2)
  then show ?thesis
    using find_cycles_sound [of "[(1, 5), (2, 5), (2, 6), (7, 6), (1, 6)]" "[(1, 6), (1, 5), (2, 6), (2, 5)]" 4]
    by simp
qed

end
