(* ===== verification/Sph_Types.thy ===== *)
theory Sph_Types
  imports MoM_Prelude
begin

text \<open>
  The word primitives of the sphlib hashes: \<^verbatim>\<open>xmrig/crypto/ghostrider/sph_types.h\<close>. The header
  selects between three ways to access memory with preprocessor symbols: a plain word access
  when the platform allows unaligned pointers, a test of the address, and single bytes. The
  symbols are a record here and every codec is a function of it, so that one theorem covers
  all builds. The \<^verbatim>\<open>bswapl\<close> and SPARC inline assembly is left out; the byte swaps are the
  portable ones.
\<close>

section \<open>Platforms\<close>

datatype sph_endian = Little_Endian | Big_Endian | Unknown_Endian

record sph_platform =
  sph_uptr :: bool
  sph_unaligned :: bool
  sph_endian :: sph_endian

text \<open>The header refuses to compile when \<^verbatim>\<open>SPH_UPTR\<close> is defined and the byte order is unknown.\<close>

definition platform_ok :: "sph_platform \<Rightarrow> bool" where
  "platform_ok P \<longleftrightarrow> (sph_uptr P \<longrightarrow> sph_endian P \<noteq> Unknown_Endian)"

text \<open>
  The architectures the header tells apart by predefined compiler macros, in the order of its
  tests. PowerPC and Itanium builds are refined by the byte order macros (PowerPC may define
  neither), Itanium also by the pointer width, which does not matter here: any
  \<^verbatim>\<open>SPH_UPTR\<close> type enables the address test.
\<close>

datatype sph_arch =
    I386 | Amd64 | Sparc64 | Sparc32 | Arm_EL | Mips_EL | Mips_EB
  | PowerPC sph_endian | Itanium (big_endian_macro: bool) | Other_Arch

fun sph_detect :: "sph_arch \<Rightarrow> sph_platform" where
  "sph_detect I386 = \<lparr>sph_uptr = True, sph_unaligned = True, sph_endian = Little_Endian\<rparr>"
| "sph_detect Amd64 = \<lparr>sph_uptr = True, sph_unaligned = True, sph_endian = Little_Endian\<rparr>"
| "sph_detect Sparc64 = \<lparr>sph_uptr = True, sph_unaligned = False, sph_endian = Big_Endian\<rparr>"
| "sph_detect Sparc32 = \<lparr>sph_uptr = True, sph_unaligned = False, sph_endian = Big_Endian\<rparr>"
| "sph_detect Arm_EL = \<lparr>sph_uptr = False, sph_unaligned = False, sph_endian = Little_Endian\<rparr>"
| "sph_detect Mips_EL = \<lparr>sph_uptr = False, sph_unaligned = False, sph_endian = Little_Endian\<rparr>"
| "sph_detect Mips_EB = \<lparr>sph_uptr = False, sph_unaligned = False, sph_endian = Big_Endian\<rparr>"
| "sph_detect (PowerPC e) = \<lparr>sph_uptr = False, sph_unaligned = False, sph_endian = e\<rparr>"
| "sph_detect (Itanium big) =
     \<lparr>sph_uptr = True, sph_unaligned = False, sph_endian = (if big then Big_Endian else Little_Endian)\<rparr>"
| "sph_detect Other_Arch = \<lparr>sph_uptr = False, sph_unaligned = False, sph_endian = Unknown_Endian\<rparr>"

text \<open>The detected settings of an x86-64 build.\<close>

definition host :: sph_platform where
  "host = sph_detect Amd64"

text \<open>The detection never reaches the \<^verbatim>\<open>#error\<close>.\<close>

lemma sph_detect_ok: "platform_ok (sph_detect a)"
  by (cases a) (simp_all add: platform_ok_def)

text \<open>A word store \<^verbatim>\<open>*(sph_u32 *)dst = val\<close> and a word load in the byte order of the machine.\<close>

definition native_store :: "sph_platform \<Rightarrow> nat \<Rightarrow> 'a::len word \<Rightarrow> bytes" where
  "native_store P n v = (if sph_endian P = Big_Endian then rev (le_enc n v) else le_enc n v)"

definition native_load :: "sph_platform \<Rightarrow> nat \<Rightarrow> bytes \<Rightarrow> 'a::len word" where
  "native_load P n src = (if sph_endian P = Big_Endian then le_dec (rev (take n src)) else le_dec (take n src))"

section \<open>Rotations and byte swaps\<close>

definition SPH_ROTL32 :: "u32 \<Rightarrow> nat \<Rightarrow> u32" where
  "SPH_ROTL32 x n = push_bit n x OR drop_bit (32 - n) x"

definition SPH_ROTR32 :: "u32 \<Rightarrow> nat \<Rightarrow> u32" where
  "SPH_ROTR32 x n = SPH_ROTL32 x (32 - n)"

definition SPH_ROTL64 :: "u64 \<Rightarrow> nat \<Rightarrow> u64" where
  "SPH_ROTL64 x n = push_bit n x OR drop_bit (64 - n) x"

definition SPH_ROTR64 :: "u64 \<Rightarrow> nat \<Rightarrow> u64" where
  "SPH_ROTR64 x n = SPH_ROTL64 x (64 - n)"

definition sph_bswap32 :: "u32 \<Rightarrow> u32" where
  "sph_bswap32 x =
     (let x = push_bit 16 x OR drop_bit 16 x
      in drop_bit 8 (x AND 0xFF00FF00) OR push_bit 8 (x AND 0x00FF00FF))"

definition sph_bswap64 :: "u64 \<Rightarrow> u64" where
  "sph_bswap64 x =
     (let x = push_bit 32 x OR drop_bit 32 x;
          x = drop_bit 16 (x AND 0xFFFF0000FFFF0000) OR push_bit 16 (x AND 0x0000FFFF0000FFFF)
      in drop_bit 8 (x AND 0xFF00FF00FF00FF00) OR push_bit 8 (x AND 0x00FF00FF00FF00FF))"

section \<open>Codecs\<close>

text \<open>
  An encoder returns the bytes it writes at \<^verbatim>\<open>dst\<close>; a decoder reads the front of \<open>src\<close>. The
  argument \<open>addr\<close> is the address, which only the alignment test reads.
\<close>

definition sph_enc16be :: "u32 \<Rightarrow> bytes" where
  "sph_enc16be val = [ucast (drop_bit 8 val), ucast val]"

definition sph_dec16be :: "bytes \<Rightarrow> u32" where
  "sph_dec16be src = push_bit 8 (ucast (src ! 0)) OR ucast (src ! 1)"

definition sph_enc16le :: "u32 \<Rightarrow> bytes" where
  "sph_enc16le val = [ucast val, ucast (drop_bit 8 val)]"

definition sph_dec16le :: "bytes \<Rightarrow> u32" where
  "sph_dec16le src = ucast (src ! 0) OR push_bit 8 (ucast (src ! 1))"

definition sph_enc32be :: "sph_platform \<Rightarrow> nat \<Rightarrow> u32 \<Rightarrow> bytes" where
  "sph_enc32be P addr val =
     (if sph_uptr P \<and> (sph_unaligned P \<or> addr mod 4 = 0) then
        let val = (if sph_endian P = Little_Endian then sph_bswap32 val else val)
        in native_store P 4 val
      else
        [ucast (drop_bit 24 val), ucast (drop_bit 16 val), ucast (drop_bit 8 val), ucast val])"

definition sph_enc32be_aligned :: "sph_platform \<Rightarrow> u32 \<Rightarrow> bytes" where
  "sph_enc32be_aligned P val =
     (case sph_endian P of
        Little_Endian \<Rightarrow> native_store P 4 (sph_bswap32 val)
      | Big_Endian \<Rightarrow> native_store P 4 val
      | Unknown_Endian \<Rightarrow>
        [ucast (drop_bit 24 val), ucast (drop_bit 16 val), ucast (drop_bit 8 val), ucast val])"

definition sph_dec32be :: "sph_platform \<Rightarrow> nat \<Rightarrow> bytes \<Rightarrow> u32" where
  "sph_dec32be P addr src =
     (if sph_uptr P \<and> (sph_unaligned P \<or> addr mod 4 = 0) then
        (if sph_endian P = Little_Endian then sph_bswap32 (native_load P 4 src) else native_load P 4 src)
      else
        push_bit 24 (ucast (src ! 0)) OR push_bit 16 (ucast (src ! 1)) OR
         push_bit 8 (ucast (src ! 2)) OR ucast (src ! 3))"

definition sph_dec32be_aligned :: "sph_platform \<Rightarrow> bytes \<Rightarrow> u32" where
  "sph_dec32be_aligned P src =
     (case sph_endian P of
        Little_Endian \<Rightarrow> sph_bswap32 (native_load P 4 src)
      | Big_Endian \<Rightarrow> native_load P 4 src
      | Unknown_Endian \<Rightarrow>
        push_bit 24 (ucast (src ! 0)) OR push_bit 16 (ucast (src ! 1)) OR
         push_bit 8 (ucast (src ! 2)) OR ucast (src ! 3))"

definition sph_enc32le :: "sph_platform \<Rightarrow> nat \<Rightarrow> u32 \<Rightarrow> bytes" where
  "sph_enc32le P addr val =
     (if sph_uptr P \<and> (sph_unaligned P \<or> addr mod 4 = 0) then
        let val = (if sph_endian P = Big_Endian then sph_bswap32 val else val)
        in native_store P 4 val
      else
        [ucast val, ucast (drop_bit 8 val), ucast (drop_bit 16 val), ucast (drop_bit 24 val)])"

definition sph_enc32le_aligned :: "sph_platform \<Rightarrow> u32 \<Rightarrow> bytes" where
  "sph_enc32le_aligned P val =
     (case sph_endian P of
        Little_Endian \<Rightarrow> native_store P 4 val
      | Big_Endian \<Rightarrow> native_store P 4 (sph_bswap32 val)
      | Unknown_Endian \<Rightarrow>
        [ucast val, ucast (drop_bit 8 val), ucast (drop_bit 16 val), ucast (drop_bit 24 val)])"

definition sph_dec32le :: "sph_platform \<Rightarrow> nat \<Rightarrow> bytes \<Rightarrow> u32" where
  "sph_dec32le P addr src =
     (if sph_uptr P \<and> (sph_unaligned P \<or> addr mod 4 = 0) then
        (if sph_endian P = Big_Endian then sph_bswap32 (native_load P 4 src) else native_load P 4 src)
      else
        ucast (src ! 0) OR push_bit 8 (ucast (src ! 1)) OR push_bit 16 (ucast (src ! 2)) OR
         push_bit 24 (ucast (src ! 3)))"

definition sph_dec32le_aligned :: "sph_platform \<Rightarrow> bytes \<Rightarrow> u32" where
  "sph_dec32le_aligned P src =
     (case sph_endian P of
        Little_Endian \<Rightarrow> native_load P 4 src
      | Big_Endian \<Rightarrow> sph_bswap32 (native_load P 4 src)
      | Unknown_Endian \<Rightarrow>
        ucast (src ! 0) OR push_bit 8 (ucast (src ! 1)) OR push_bit 16 (ucast (src ! 2)) OR
         push_bit 24 (ucast (src ! 3)))"

definition sph_enc64be :: "sph_platform \<Rightarrow> nat \<Rightarrow> u64 \<Rightarrow> bytes" where
  "sph_enc64be P addr val =
     (if sph_uptr P \<and> (sph_unaligned P \<or> addr mod 8 = 0) then
        let val = (if sph_endian P = Little_Endian then sph_bswap64 val else val)
        in native_store P 8 val
      else
        [ucast (drop_bit 56 val), ucast (drop_bit 48 val), ucast (drop_bit 40 val),
         ucast (drop_bit 32 val), ucast (drop_bit 24 val), ucast (drop_bit 16 val),
         ucast (drop_bit 8 val), ucast val])"

definition sph_enc64be_aligned :: "sph_platform \<Rightarrow> u64 \<Rightarrow> bytes" where
  "sph_enc64be_aligned P val =
     (case sph_endian P of
        Little_Endian \<Rightarrow> native_store P 8 (sph_bswap64 val)
      | Big_Endian \<Rightarrow> native_store P 8 val
      | Unknown_Endian \<Rightarrow>
        [ucast (drop_bit 56 val), ucast (drop_bit 48 val), ucast (drop_bit 40 val),
         ucast (drop_bit 32 val), ucast (drop_bit 24 val), ucast (drop_bit 16 val),
         ucast (drop_bit 8 val), ucast val])"

definition sph_dec64be :: "sph_platform \<Rightarrow> nat \<Rightarrow> bytes \<Rightarrow> u64" where
  "sph_dec64be P addr src =
     (if sph_uptr P \<and> (sph_unaligned P \<or> addr mod 8 = 0) then
        (if sph_endian P = Little_Endian then sph_bswap64 (native_load P 8 src) else native_load P 8 src)
      else
        push_bit 56 (ucast (src ! 0)) OR push_bit 48 (ucast (src ! 1)) OR
         push_bit 40 (ucast (src ! 2)) OR push_bit 32 (ucast (src ! 3)) OR
         push_bit 24 (ucast (src ! 4)) OR push_bit 16 (ucast (src ! 5)) OR
         push_bit 8 (ucast (src ! 6)) OR ucast (src ! 7))"

definition sph_dec64be_aligned :: "sph_platform \<Rightarrow> bytes \<Rightarrow> u64" where
  "sph_dec64be_aligned P src =
     (case sph_endian P of
        Little_Endian \<Rightarrow> sph_bswap64 (native_load P 8 src)
      | Big_Endian \<Rightarrow> native_load P 8 src
      | Unknown_Endian \<Rightarrow>
        push_bit 56 (ucast (src ! 0)) OR push_bit 48 (ucast (src ! 1)) OR
         push_bit 40 (ucast (src ! 2)) OR push_bit 32 (ucast (src ! 3)) OR
         push_bit 24 (ucast (src ! 4)) OR push_bit 16 (ucast (src ! 5)) OR
         push_bit 8 (ucast (src ! 6)) OR ucast (src ! 7))"

definition sph_enc64le :: "sph_platform \<Rightarrow> nat \<Rightarrow> u64 \<Rightarrow> bytes" where
  "sph_enc64le P addr val =
     (if sph_uptr P \<and> (sph_unaligned P \<or> addr mod 8 = 0) then
        let val = (if sph_endian P = Big_Endian then sph_bswap64 val else val)
        in native_store P 8 val
      else
        [ucast val, ucast (drop_bit 8 val), ucast (drop_bit 16 val), ucast (drop_bit 24 val),
         ucast (drop_bit 32 val), ucast (drop_bit 40 val), ucast (drop_bit 48 val),
         ucast (drop_bit 56 val)])"

definition sph_enc64le_aligned :: "sph_platform \<Rightarrow> u64 \<Rightarrow> bytes" where
  "sph_enc64le_aligned P val =
     (case sph_endian P of
        Little_Endian \<Rightarrow> native_store P 8 val
      | Big_Endian \<Rightarrow> native_store P 8 (sph_bswap64 val)
      | Unknown_Endian \<Rightarrow>
        [ucast val, ucast (drop_bit 8 val), ucast (drop_bit 16 val), ucast (drop_bit 24 val),
         ucast (drop_bit 32 val), ucast (drop_bit 40 val), ucast (drop_bit 48 val),
         ucast (drop_bit 56 val)])"

definition sph_dec64le :: "sph_platform \<Rightarrow> nat \<Rightarrow> bytes \<Rightarrow> u64" where
  "sph_dec64le P addr src =
     (if sph_uptr P \<and> (sph_unaligned P \<or> addr mod 8 = 0) then
        (if sph_endian P = Big_Endian then sph_bswap64 (native_load P 8 src) else native_load P 8 src)
      else
        ucast (src ! 0) OR push_bit 8 (ucast (src ! 1)) OR push_bit 16 (ucast (src ! 2)) OR
         push_bit 24 (ucast (src ! 3)) OR push_bit 32 (ucast (src ! 4)) OR
         push_bit 40 (ucast (src ! 5)) OR push_bit 48 (ucast (src ! 6)) OR
         push_bit 56 (ucast (src ! 7)))"

definition sph_dec64le_aligned :: "sph_platform \<Rightarrow> bytes \<Rightarrow> u64" where
  "sph_dec64le_aligned P src =
     (case sph_endian P of
        Little_Endian \<Rightarrow> native_load P 8 src
      | Big_Endian \<Rightarrow> sph_bswap64 (native_load P 8 src)
      | Unknown_Endian \<Rightarrow>
        ucast (src ! 0) OR push_bit 8 (ucast (src ! 1)) OR push_bit 16 (ucast (src ! 2)) OR
         push_bit 24 (ucast (src ! 3)) OR push_bit 32 (ucast (src ! 4)) OR
         push_bit 40 (ucast (src ! 5)) OR push_bit 48 (ucast (src ! 6)) OR
         push_bit 56 (ucast (src ! 7)))"

section \<open>Byte swaps reverse the bytes\<close>

lemma bit_sph_bswap32:
  assumes "n < 32"
  shows "bit (sph_bswap32 x) n \<longleftrightarrow> bit x (8 * (3 - n div 8) + n mod 8)"
proof -
  have "\<forall>n \<in> {..<32}. bit (sph_bswap32 x) n \<longleftrightarrow> bit x (8 * (3 - n div 8) + n mod 8)"
    unfolding lessThan_nat_numeral lessThan_0 pred_numeral_simps ball_simps Num.arith_simps semiring_norm
    by (intro conjI) (simp_all add: sph_bswap32_def bit_simps,
        (auto simp: numeral_2_eq_2 [symmetric] dest: bit_imp_le_length))
  then show ?thesis using assms by simp
qed

lemma bit_sph_bswap64:
  assumes "n < 64"
  shows "bit (sph_bswap64 x) n \<longleftrightarrow> bit x (8 * (7 - n div 8) + n mod 8)"
proof -
  have "\<forall>n \<in> {..<64}. bit (sph_bswap64 x) n \<longleftrightarrow> bit x (8 * (7 - n div 8) + n mod 8)"
    unfolding lessThan_nat_numeral lessThan_0 pred_numeral_simps ball_simps Num.arith_simps semiring_norm
    by (intro conjI) (simp_all add: sph_bswap64_def bit_simps,
        (auto simp: numeral_2_eq_2 [symmetric] dest: bit_imp_le_length))
  then show ?thesis using assms by simp
qed

lemma le_enc_bswap:
  fixes x y :: "'a::len word"
  assumes "LENGTH('a) = 8 * n"
    and "\<And>k. k < 8 * n \<Longrightarrow> bit y k \<longleftrightarrow> bit x (8 * (n - 1 - k div 8) + k mod 8)"
  shows "le_enc n y = rev (le_enc n x)"
proof (rule nth_equalityI)
  fix i assume "i < length (le_enc n y)"
  then have i: "i < n" by simp
  have "ucast (drop_bit (8 * i) y) = (ucast (drop_bit (8 * (n - Suc i)) x) :: byte)"
  proof (rule bit_word_eqI)
    fix j assume "j < LENGTH(8)"
    then have j: "j < 8" by simp
    have "8 * i + j < 8 * n" "(8 * i + j) div 8 = i" "(8 * i + j) mod 8 = j" using i j by simp_all
    then show "bit (ucast (drop_bit (8 * i) y) :: byte) j \<longleftrightarrow> bit (ucast (drop_bit (8 * (n - Suc i)) x) :: byte) j"
      using assms(2) [of "8 * i + j"] j by (simp add: bit_simps)
  qed
  then show "le_enc n y ! i = rev (le_enc n x) ! i"
    using i by (simp add: nth_le_enc rev_nth)
qed simp

lemma le_enc_sph_bswap:
  "le_enc 4 (sph_bswap32 x) = rev (le_enc 4 x)" "le_enc 8 (sph_bswap64 y) = rev (le_enc 8 y)"
  by (rule le_enc_bswap, simp, simp add: bit_sph_bswap32) (rule le_enc_bswap, simp, simp add: bit_sph_bswap64)

lemma sph_bswap_le_dec:
  "length bs = 4 \<Longrightarrow> sph_bswap32 (le_dec bs) = le_dec (rev bs)"
  "length cs = 8 \<Longrightarrow> sph_bswap64 (le_dec cs) = le_dec (rev cs)"
proof -
  assume l: "length bs = 4"
  have "le_dec (le_enc 4 (sph_bswap32 (le_dec bs))) = (le_dec (rev bs) :: u32)"
    unfolding le_enc_sph_bswap using le_enc_le_dec [of bs, where ?'a = 32] l by simp
  then show "sph_bswap32 (le_dec bs) = le_dec (rev bs)" by (simp add: le_dec_le_enc take_bit_whole_word)
next
  assume l: "length cs = 8"
  have "le_dec (le_enc 8 (sph_bswap64 (le_dec cs))) = (le_dec (rev cs) :: u64)"
    unfolding le_enc_sph_bswap using le_enc_le_dec [of cs, where ?'a = 64] l by simp
  then show "sph_bswap64 (le_dec cs) = le_dec (rev cs)" by (simp add: le_dec_le_enc take_bit_whole_word)
qed

section \<open>Every build computes the reference codecs\<close>

lemma byte_stores:
  "[ucast (drop_bit 24 v), ucast (drop_bit 16 v), ucast (drop_bit 8 v), ucast v] = rev (le_enc 4 (v :: u32))"
  "[ucast v, ucast (drop_bit 8 v), ucast (drop_bit 16 v), ucast (drop_bit 24 v)] = le_enc 4 (v :: u32)"
  "[ucast (drop_bit 56 w), ucast (drop_bit 48 w), ucast (drop_bit 40 w), ucast (drop_bit 32 w),
    ucast (drop_bit 24 w), ucast (drop_bit 16 w), ucast (drop_bit 8 w), ucast w] = rev (le_enc 8 (w :: u64))"
  "[ucast w, ucast (drop_bit 8 w), ucast (drop_bit 16 w), ucast (drop_bit 24 w),
    ucast (drop_bit 32 w), ucast (drop_bit 40 w), ucast (drop_bit 48 w), ucast (drop_bit 56 w)] = le_enc 8 (w :: u64)"
  by (simp_all add: numeral_eq_Suc drop_bit_drop_bit)

lemma nth_first_eight:
  "8 \<le> length p \<Longrightarrow> take 8 p = [p ! 0, p ! 1, p ! 2, p ! 3, p ! 4, p ! 5, p ! 6, p ! 7]"
  by (rule nth_equalityI) (auto simp: less_Suc_eq numeral_eq_Suc)

lemma byte_loads32:
  assumes "4 \<le> length src"
  shows "push_bit 24 (ucast (src ! 0)) OR push_bit 16 (ucast (src ! 1)) OR push_bit 8 (ucast (src ! 2)) OR
      ucast (src ! 3) = (le_dec (rev (take 4 src)) :: u32)"
    "ucast (src ! 0) OR push_bit 8 (ucast (src ! 1)) OR push_bit 16 (ucast (src ! 2)) OR
      push_bit 24 (ucast (src ! 3)) = (le_dec (take 4 src) :: u32)"
  by (simp_all add: nth_first_four [OF assms] push_bit_or push_bit_push_bit ac_simps)

lemma byte_loads64:
  assumes "8 \<le> length src"
  shows "push_bit 56 (ucast (src ! 0)) OR push_bit 48 (ucast (src ! 1)) OR push_bit 40 (ucast (src ! 2)) OR
      push_bit 32 (ucast (src ! 3)) OR push_bit 24 (ucast (src ! 4)) OR push_bit 16 (ucast (src ! 5)) OR
      push_bit 8 (ucast (src ! 6)) OR ucast (src ! 7) = (le_dec (rev (take 8 src)) :: u64)"
    "ucast (src ! 0) OR push_bit 8 (ucast (src ! 1)) OR push_bit 16 (ucast (src ! 2)) OR
      push_bit 24 (ucast (src ! 3)) OR push_bit 32 (ucast (src ! 4)) OR push_bit 40 (ucast (src ! 5)) OR
      push_bit 48 (ucast (src ! 6)) OR push_bit 56 (ucast (src ! 7)) = (le_dec (take 8 src) :: u64)"
  by (simp_all add: nth_first_eight [OF assms] push_bit_or push_bit_push_bit ac_simps)

lemmas codec_simps = platform_ok_def native_store_def native_load_def le_enc_sph_bswap sph_bswap_le_dec byte_stores Let_def

lemma sph_enc32be_ref: "platform_ok P \<Longrightarrow> sph_enc32be P addr v = rev (le_enc 4 v)"
  by (cases "sph_endian P") (simp_all add: sph_enc32be_def codec_simps)

lemma sph_enc32be_aligned_ref: "platform_ok P \<Longrightarrow> sph_enc32be_aligned P v = rev (le_enc 4 v)"
  by (cases "sph_endian P") (simp_all add: sph_enc32be_aligned_def codec_simps)

lemma sph_dec32be_ref: "platform_ok P \<Longrightarrow> 4 \<le> length src \<Longrightarrow> sph_dec32be P addr src = le_dec (rev (take 4 src))"
  by (cases "sph_endian P") (simp_all add: sph_dec32be_def codec_simps byte_loads32 del: One_nat_def)

lemma sph_dec32be_aligned_ref: "platform_ok P \<Longrightarrow> 4 \<le> length src \<Longrightarrow> sph_dec32be_aligned P src = le_dec (rev (take 4 src))"
  by (cases "sph_endian P") (simp_all add: sph_dec32be_aligned_def codec_simps byte_loads32 del: One_nat_def)

lemma sph_enc32le_ref: "platform_ok P \<Longrightarrow> sph_enc32le P addr v = le_enc 4 v"
  by (cases "sph_endian P") (simp_all add: sph_enc32le_def codec_simps)

lemma sph_enc32le_aligned_ref: "platform_ok P \<Longrightarrow> sph_enc32le_aligned P v = le_enc 4 v"
  by (cases "sph_endian P") (simp_all add: sph_enc32le_aligned_def codec_simps)

lemma sph_dec32le_ref: "platform_ok P \<Longrightarrow> 4 \<le> length src \<Longrightarrow> sph_dec32le P addr src = le_dec (take 4 src)"
  by (cases "sph_endian P") (simp_all add: sph_dec32le_def codec_simps byte_loads32 del: One_nat_def)

lemma sph_dec32le_aligned_ref: "platform_ok P \<Longrightarrow> 4 \<le> length src \<Longrightarrow> sph_dec32le_aligned P src = le_dec (take 4 src)"
  by (cases "sph_endian P") (simp_all add: sph_dec32le_aligned_def codec_simps byte_loads32 del: One_nat_def)

lemma sph_enc64be_ref: "platform_ok P \<Longrightarrow> sph_enc64be P addr v = rev (le_enc 8 v)"
  by (cases "sph_endian P") (simp_all add: sph_enc64be_def codec_simps)

lemma sph_enc64be_aligned_ref: "platform_ok P \<Longrightarrow> sph_enc64be_aligned P v = rev (le_enc 8 v)"
  by (cases "sph_endian P") (simp_all add: sph_enc64be_aligned_def codec_simps)

lemma sph_dec64be_ref: "platform_ok P \<Longrightarrow> 8 \<le> length src \<Longrightarrow> sph_dec64be P addr src = le_dec (rev (take 8 src))"
  by (cases "sph_endian P") (simp_all add: sph_dec64be_def codec_simps byte_loads64 del: One_nat_def)

lemma sph_dec64be_aligned_ref: "platform_ok P \<Longrightarrow> 8 \<le> length src \<Longrightarrow> sph_dec64be_aligned P src = le_dec (rev (take 8 src))"
  by (cases "sph_endian P") (simp_all add: sph_dec64be_aligned_def codec_simps byte_loads64 del: One_nat_def)

lemma sph_enc64le_ref: "platform_ok P \<Longrightarrow> sph_enc64le P addr v = le_enc 8 v"
  by (cases "sph_endian P") (simp_all add: sph_enc64le_def codec_simps)

lemma sph_enc64le_aligned_ref: "platform_ok P \<Longrightarrow> sph_enc64le_aligned P v = le_enc 8 v"
  by (cases "sph_endian P") (simp_all add: sph_enc64le_aligned_def codec_simps)

lemma sph_dec64le_ref: "platform_ok P \<Longrightarrow> 8 \<le> length src \<Longrightarrow> sph_dec64le P addr src = le_dec (take 8 src)"
  by (cases "sph_endian P") (simp_all add: sph_dec64le_def codec_simps byte_loads64 del: One_nat_def)

lemma sph_dec64le_aligned_ref: "platform_ok P \<Longrightarrow> 8 \<le> length src \<Longrightarrow> sph_dec64le_aligned P src = le_dec (take 8 src)"
  by (cases "sph_endian P") (simp_all add: sph_dec64le_aligned_def codec_simps byte_loads64 del: One_nat_def)

lemmas sph_encoders = sph_enc32be_ref sph_enc32be_aligned_ref
  sph_enc32le_ref sph_enc32le_aligned_ref
  sph_enc64be_ref sph_enc64be_aligned_ref
  sph_enc64le_ref sph_enc64le_aligned_ref

lemmas sph_decoders = sph_dec32be_ref sph_dec32be_aligned_ref
  sph_dec32le_ref sph_dec32le_aligned_ref
  sph_dec64be_ref sph_dec64be_aligned_ref
  sph_dec64le_ref sph_dec64le_aligned_ref

lemma host_ok [simp]: "platform_ok host"
  by (simp add: platform_ok_def host_def)

lemma le_enc_dec_take:
  "8 * n \<le> LENGTH('a::len) \<Longrightarrow> n \<le> length bs \<Longrightarrow> le_enc n (le_dec (take n bs) :: 'a word) = take n bs"
  "8 * n \<le> LENGTH('a::len) \<Longrightarrow> n \<le> length bs \<Longrightarrow> rev (le_enc n (le_dec (rev (take n bs)) :: 'a word)) = take n bs"
  using le_enc_le_dec [of "take n bs", where ?'a = 'a] le_enc_le_dec [of "rev (take n bs)", where ?'a = 'a]
  by simp_all

lemma sph_16:
  "sph_dec16be (sph_enc16be v) = take_bit 16 v" "sph_dec16le (sph_enc16le v) = take_bit 16 v"
  by (rule bit_word_eqI, auto simp: sph_dec16be_def sph_enc16be_def sph_dec16le_def sph_enc16le_def bit_simps)+

section \<open>The codec interface\<close>

text \<open>
  What a hash relies on when it reads its block and writes its digest word by word: a decoder
  and an encoder of a fixed width that are inverse to each other. Arrays follow once.
\<close>

locale word_codec =
  fixes width :: nat and enc :: "'w \<Rightarrow> bytes" and dec :: "bytes \<Rightarrow> 'w"
  assumes width_pos: "0 < width"
    and length_enc: "length (enc w) = width"
    and dec_enc: "dec (enc w @ r) = w"
    and enc_dec: "width \<le> length bs \<Longrightarrow> enc (dec bs) = take width bs"
begin

lemma length_concat_enc: "length (concat (map enc ws)) = width * length ws"
  by (induction ws) (simp_all add: length_enc)

lemma drop_concat_enc: "i \<le> length ws \<Longrightarrow> drop (width * i) (concat (map enc ws)) = concat (map enc (drop i ws))"
proof (induction ws arbitrary: i)
  case (Cons w ws)
  then show ?case by (cases i) (simp_all add: length_enc)
qed simp

lemma dec_array: "map (\<lambda>i. dec (drop (width * i) (concat (map enc ws)))) [0..<length ws] = ws"
proof (rule nth_equalityI)
  fix i assume "i < length (map (\<lambda>i. dec (drop (width * i) (concat (map enc ws)))) [0..<length ws])"
  then have i: "i < length ws" by simp
  then have "drop i ws = ws ! i # drop (Suc i) ws" by (rule Cons_nth_drop_Suc [symmetric])
  then show "map (\<lambda>i. dec (drop (width * i) (concat (map enc ws)))) [0..<length ws] ! i = ws ! i"
    using i by (simp add: drop_concat_enc dec_enc)
qed simp

lemma enc_array:
  "width * n \<le> length bs \<Longrightarrow> concat (map (\<lambda>i. enc (dec (drop (width * i) bs))) [0..<n]) = take (width * n) bs"
proof (induction n)
  case (Suc n)
  have "take (width * n + width) bs = take (width * n) bs @ take width (drop (width * n) bs)"
    by (rule take_add)
  moreover have "enc (dec (drop (width * n) bs)) = take width (drop (width * n) bs)"
    using Suc.prems by (intro enc_dec) simp
  ultimately show ?case using Suc by (simp add: add.commute)
qed simp

end

interpretation be32: word_codec 4 "sph_enc32be host addr" "sph_dec32be host addr" for addr
  by unfold_locales (simp_all add: sph_encoders sph_decoders le_dec_le_enc take_bit_whole_word le_enc_dec_take)

interpretation le32: word_codec 4 "sph_enc32le host addr" "sph_dec32le host addr" for addr
  by unfold_locales (simp_all add: sph_encoders sph_decoders le_dec_le_enc take_bit_whole_word le_enc_dec_take)

interpretation be64: word_codec 8 "sph_enc64be host addr" "sph_dec64be host addr" for addr
  by unfold_locales (simp_all add: sph_encoders sph_decoders le_dec_le_enc take_bit_whole_word le_enc_dec_take)

interpretation le64: word_codec 8 "sph_enc64le host addr" "sph_dec64le host addr" for addr
  by unfold_locales (simp_all add: sph_encoders sph_decoders le_dec_le_enc take_bit_whole_word le_enc_dec_take)

lemma SPH_ROTL_rotl:
  "0 < n \<Longrightarrow> n < 32 \<Longrightarrow> SPH_ROTL32 x n = word_rotl n x"
  "0 < n \<Longrightarrow> n < 64 \<Longrightarrow> SPH_ROTL64 y n = word_rotl n y"
  using shifts_or_rotl [of n x] shifts_or_rotl [of n y] by (simp_all add: SPH_ROTL32_def SPH_ROTL64_def)

lemma SPH_ROTR_rotr:
  "0 < n \<Longrightarrow> n < 32 \<Longrightarrow> SPH_ROTR32 x n = word_rotr n x"
  "0 < n \<Longrightarrow> n < 64 \<Longrightarrow> SPH_ROTR64 y n = word_rotr n y"
proof -
  have r: "word_rotl (LENGTH('a) - n) x = word_rotr n x" if "0 < n" "n < LENGTH('a)" for x :: "'a::len word"
    using that by (intro bit_word_eqI) (auto simp: bit_word_rotl_iff bit_word_rotr_iff)
  show "0 < n \<Longrightarrow> n < 32 \<Longrightarrow> SPH_ROTR32 x n = word_rotr n x" "0 < n \<Longrightarrow> n < 64 \<Longrightarrow> SPH_ROTR64 y n = word_rotr n y"
    using r [of x] r [of y] by (simp_all add: SPH_ROTR32_def SPH_ROTR64_def SPH_ROTL_rotl)
qed

section \<open>Properties\<close>

text \<open>
  C31. Every build of the codecs, with or without unaligned word accesses and on either byte
  order, writes and reads the same bytes: the big-endian and little-endian encodings of the
  word, at every address.
\<close>

theorem sph_codecs_platform_independent:
  assumes "platform_ok P" and "4 \<le> length src" and "8 \<le> length src'"
  shows "sph_enc32be P addr v = [ucast (drop_bit 24 v), ucast (drop_bit 16 v), ucast (drop_bit 8 v), ucast v]
    \<and> sph_enc32be_aligned P v = sph_enc32be P addr v
    \<and> sph_enc32le P addr v = rev (sph_enc32be P addr v) \<and> sph_enc32le_aligned P v = sph_enc32le P addr v
    \<and> sph_enc64be P addr w = sph_enc32be P addr (ucast (drop_bit 32 w)) @ sph_enc32be P addr (ucast w)
    \<and> sph_enc64be_aligned P w = sph_enc64be P addr w
    \<and> sph_enc64le P addr w = rev (sph_enc64be P addr w) \<and> sph_enc64le_aligned P w = sph_enc64le P addr w
    \<and> sph_dec32be P addr src = le_dec (rev (take 4 src)) \<and> sph_dec32be_aligned P src = sph_dec32be P addr src
    \<and> sph_dec32le P addr src = le_dec (take 4 src) \<and> sph_dec32le_aligned P src = sph_dec32le P addr src
    \<and> sph_dec64be P addr src' = le_dec (rev (take 8 src')) \<and> sph_dec64be_aligned P src' = sph_dec64be P addr src'
    \<and> sph_dec64le P addr src' = le_dec (take 8 src') \<and> sph_dec64le_aligned P src' = sph_dec64le P addr src'"
  using assms by (simp add: sph_encoders sph_decoders byte_stores le_enc_halves)

theorem sph_codecs_platform_independent_witness:
  "sph_dec32be \<lparr>sph_uptr = True, sph_unaligned = False, sph_endian = Big_Endian\<rparr> 3 [1, 2, 3, 4] = le_dec [4, 3, 2, 1]"
  using sph_codecs_platform_independent
      [of "\<lparr>sph_uptr = True, sph_unaligned = False, sph_endian = Big_Endian\<rparr>" "[1, 2, 3, 4]" "replicate 8 0" 3 0 0]
  by (simp add: platform_ok_def)

text \<open>
  Round trips: decoding what was encoded returns the word, encoding what was decoded
  restores the bytes, for every width and byte order on every platform; the 16-bit codecs keep
  the low 16 bits.
\<close>

theorem sph_codecs_round_trip:
  assumes "platform_ok P" and "4 \<le> length src" and "8 \<le> length src'"
  shows "sph_dec32be P a (sph_enc32be P a' v @ r) = v \<and> sph_dec32le P a (sph_enc32le P a' v @ r) = v
    \<and> sph_dec64be P a (sph_enc64be P a' w @ r) = w \<and> sph_dec64le P a (sph_enc64le P a' w @ r) = w
    \<and> sph_enc32be P a (sph_dec32be P a' src) = take 4 src \<and> sph_enc32le P a (sph_dec32le P a' src) = take 4 src
    \<and> sph_enc64be P a (sph_dec64be P a' src') = take 8 src' \<and> sph_enc64le P a (sph_dec64le P a' src') = take 8 src'
    \<and> sph_dec16be (sph_enc16be v) = take_bit 16 v \<and> sph_dec16le (sph_enc16le v) = take_bit 16 v"
  using assms
  by (simp add: sph_encoders sph_decoders le_dec_le_enc take_bit_whole_word le_enc_dec_take sph_16)

theorem sph_codecs_round_trip_witness:
  "sph_dec64le host 1 (sph_enc64le host 2 0x0102030405060708 @ []) = 0x0102030405060708"
  using sph_codecs_round_trip [of host "replicate 4 0" "replicate 8 0" 1 2 0 "[]" "0x0102030405060708"] by simp

end
