(* ===== verification/Md_Helper.thy ===== *)
theory Md_Helper
  imports Stream_Hash Sph_Types
begin

text \<open>
  The Merkle-Damgard frame of the sphlib hashes: \<^verbatim>\<open>xmrig/crypto/ghostrider/md_helper.c\<close>, a file
  that is included once per hash with macros for the word size and byte order, the block length,
  the width of the length field and the round function. The macros are a configuration record
  and a function argument here, so that the definitions cover every inclusion at once. The
  platform is the one the miner builds for: a 64-bit integer type and pointers that may be
  unaligned (\<^verbatim>\<open>SPH_64\<close>, \<^verbatim>\<open>SPH_UPTR\<close>, \<^verbatim>\<open>SPH_UNALIGNED\<close>).
\<close>

section \<open>Configuration\<close>

datatype md_word = BE32 | LE32 | BE64 | LE64
datatype md_plw = PLW1 | PLW4 | PLW2

text \<open>\<open>PLW2\<close> stands for neither \<^verbatim>\<open>PLW1\<close> nor \<^verbatim>\<open>PLW4\<close> being defined.\<close>

record md_config =
  cfg_word :: md_word
  cfg_plw :: md_plw
  cfg_blen :: "nat option"
  cfg_pw01 :: bool

definition md_word64 :: "md_config \<Rightarrow> bool" where
  "md_word64 cfg \<longleftrightarrow> cfg_word cfg = BE64 \<or> cfg_word cfg = LE64"

definition SPH_BLEN :: "md_config \<Rightarrow> nat" where
  "SPH_BLEN cfg = (case cfg_blen cfg of Some n \<Rightarrow> n | None \<Rightarrow> if md_word64 cfg then 128 else 64)"

definition SPH_WLEN :: "md_config \<Rightarrow> nat" where
  "SPH_WLEN cfg = (if md_word64 cfg then 8 else 4)"

definition SPH_MAXPAD :: "md_config \<Rightarrow> nat" where
  "SPH_MAXPAD cfg =
     (case cfg_plw cfg of
        PLW1 \<Rightarrow> SPH_BLEN cfg - SPH_WLEN cfg
      | PLW4 \<Rightarrow> SPH_BLEN cfg - 4 * SPH_WLEN cfg
      | PLW2 \<Rightarrow> SPH_BLEN cfg - 2 * SPH_WLEN cfg)"

section \<open>Context and update\<close>

record 's md_context =
  md_buf :: bytes
  md_val :: 's
  md_count :: u64

type_synonym 's rfun = "bytes \<Rightarrow> 's \<Rightarrow> 's"

definition md_current :: "md_config \<Rightarrow> 's md_context \<Rightarrow> nat" where
  "md_current cfg sc = unat ((ucast (md_count sc) :: u32) AND (of_nat (SPH_BLEN cfg) - 1))"

text \<open>
  The loop of \<^verbatim>\<open>HASH_short\<close>. A configuration whose block is full before anything is copied
  would not advance; the length of what is left decreases as long as \<open>current\<close> is below the
  block length.
\<close>

function md_short_loop ::
  "md_config \<Rightarrow> 's rfun \<Rightarrow> 's md_context \<Rightarrow> nat \<Rightarrow> bytes \<Rightarrow> 's md_context" where
  "md_short_loop cfg rfun sc current data =
     (if data \<noteq> [] \<and> current < SPH_BLEN cfg then
        let clen = min (SPH_BLEN cfg - current) (length data);
            sc = sc\<lparr>md_buf := memcpy_at (md_buf sc) current (take clen data)\<rparr>;
            current = current + clen;
            (sc, current) =
              (if current = SPH_BLEN cfg
               then (sc\<lparr>md_val := rfun (md_buf sc) (md_val sc)\<rparr>, 0) else (sc, current))
        in md_short_loop cfg rfun (sc\<lparr>md_count := md_count sc + of_nat clen\<rparr>) current (drop clen data)
      else sc)"
  by pat_completeness auto
termination
  by (relation "measure (\<lambda>(cfg, rfun, sc, current, data). length data)") auto

declare md_short_loop.simps [simp del]

definition md_short :: "md_config \<Rightarrow> 's rfun \<Rightarrow> 's md_context \<Rightarrow> bytes \<Rightarrow> 's md_context" where
  "md_short cfg rfun sc data = md_short_loop cfg rfun sc (md_current cfg sc) data"

function md_whole_blocks ::
  "md_config \<Rightarrow> 's rfun \<Rightarrow> 's \<Rightarrow> bytes \<Rightarrow> 's \<times> bytes" where
  "md_whole_blocks cfg rfun v data =
     (if 0 < SPH_BLEN cfg \<and> SPH_BLEN cfg \<le> length data
      then md_whole_blocks cfg rfun (rfun (take (SPH_BLEN cfg) data) v) (drop (SPH_BLEN cfg) data)
      else (v, data))"
  by pat_completeness auto
termination
  by (relation "measure (\<lambda>(cfg, rfun, v, data). length data)") auto

declare md_whole_blocks.simps [simp del]

definition md_update :: "md_config \<Rightarrow> 's rfun \<Rightarrow> 's md_context \<Rightarrow> bytes \<Rightarrow> 's md_context" where
  "md_update cfg rfun sc data =
     (if length data < 2 * SPH_BLEN cfg then md_short cfg rfun sc data
      else
        let current = md_current cfg sc;
            (sc, data) =
              (if 0 < current then
                 let t = SPH_BLEN cfg - current
                 in (md_short cfg rfun sc (take t data), drop t data)
               else (sc, data));
            (v, rest) = md_whole_blocks cfg rfun (md_val sc) data
        in sc\<lparr>md_buf := (if rest \<noteq> [] then memcpy_at (md_buf sc) 0 rest else md_buf sc),
              md_val := v,
              md_count := md_count sc + of_nat (length data)\<rparr>)"

section \<open>Padding\<close>

text \<open>
  What the length encoding writes from \<^verbatim>\<open>SPH_MAXPAD\<close> on. The second test of the little-endian
  64-bit case repeats \<^verbatim>\<open>PLW1\<close>, so with \<^verbatim>\<open>PLW4\<close> the last alternative is taken.
\<close>

definition md_length_field :: "md_config \<Rightarrow> u64 \<Rightarrow> u64 \<Rightarrow> bytes" where
  "md_length_field cfg cnt n =
     (let bits = push_bit 3 cnt + n
      in case cfg_word cfg of
           BE64 \<Rightarrow> (case cfg_plw cfg of
               PLW1 \<Rightarrow> sph_enc64be_aligned host bits
             | PLW4 \<Rightarrow> replicate (2 * SPH_WLEN cfg) 0 @ sph_enc64be_aligned host (drop_bit 61 cnt) @ sph_enc64be_aligned host bits
             | PLW2 \<Rightarrow> sph_enc64be_aligned host (drop_bit 61 cnt) @ sph_enc64be_aligned host bits)
         | LE64 \<Rightarrow> (case cfg_plw cfg of
               PLW1 \<Rightarrow> sph_enc64le_aligned host bits
             | _ \<Rightarrow> sph_enc64le_aligned host bits @ sph_enc64le_aligned host (drop_bit 61 cnt))
         | BE32 \<Rightarrow> sph_enc64be_aligned host bits
         | LE32 \<Rightarrow> sph_enc64le_aligned host bits)"

definition md_first_pad_byte :: "md_config \<Rightarrow> nat \<Rightarrow> nat \<Rightarrow> byte" where
  "md_first_pad_byte cfg ub n =
     (if cfg_pw01 cfg then of_nat ((256 + ub mod 256) div 2 ^ (8 - n))
      else let z = drop_bit n (0x80 :: u32) in ucast (((of_nat ub AND - z) OR z) AND 0xFF))"

text \<open>The padding, the last one or two rounds: the context before the result is written out.\<close>

definition md_addbits ::
  "md_config \<Rightarrow> 's rfun \<Rightarrow> 's md_context \<Rightarrow> nat \<Rightarrow> nat \<Rightarrow> 's md_context" where
  "md_addbits cfg rfun sc ub n =
     (let current = md_current cfg sc;
          buf = (md_buf sc)[current := md_first_pad_byte cfg ub n];
          current = current + 1;
          sc =
            (if SPH_MAXPAD cfg < current then
               let buf = memcpy_at buf current (replicate (SPH_BLEN cfg - current) 0);
                   v = rfun buf (md_val sc)
               in sc\<lparr>md_val := v, md_buf := memcpy_at buf 0 (replicate (SPH_MAXPAD cfg) 0)\<rparr>
             else sc\<lparr>md_buf := memcpy_at buf current (replicate (SPH_MAXPAD cfg - current) 0)\<rparr>);
          buf = memcpy_at (md_buf sc) (SPH_MAXPAD cfg) (md_length_field cfg (md_count sc) (of_nat n))
      in sc\<lparr>md_buf := buf, md_val := rfun buf (md_val sc)\<rparr>)"

text \<open>\<^verbatim>\<open>HASH_addbits_and_close\<close> and \<^verbatim>\<open>HASH_close\<close> with the output of 32-bit big-endian words.\<close>

definition md_addbits_and_close_be32 ::
  "md_config \<Rightarrow> u32 list rfun \<Rightarrow> u32 list md_context \<Rightarrow> nat \<Rightarrow> nat \<Rightarrow> nat \<Rightarrow> bytes \<times> u32 list md_context" where
  "md_addbits_and_close_be32 cfg rfun sc ub n rnum =
     (let sc = md_addbits cfg rfun sc ub n
      in (concat (map (\<lambda>u. sph_enc32be host (4 * u) (md_val sc ! u)) [0..<rnum]), sc))"

definition md_close_be32 ::
  "md_config \<Rightarrow> u32 list rfun \<Rightarrow> u32 list md_context \<Rightarrow> nat \<Rightarrow> bytes \<times> u32 list md_context" where
  "md_close_be32 cfg rfun sc rnum = md_addbits_and_close_be32 cfg rfun sc 0 0 rnum"

section \<open>The frame refines block absorption\<close>

lemma length_field_codecs [simp]:
  "length (sph_enc64be_aligned host w) = 8" "length (sph_enc64le_aligned host w) = 8"
  by (simp_all add: sph_encoders)

text \<open>
  A usable configuration: the block length is a power of two below 2^32, and the length field
  fills the block from \<^verbatim>\<open>SPH_MAXPAD\<close> to its end.
\<close>

definition md_ok :: "md_config \<Rightarrow> bool" where
  "md_ok cfg \<longleftrightarrow> (\<exists>k < 32. SPH_BLEN cfg = 2 ^ k) \<and>
     SPH_MAXPAD cfg + length (md_length_field cfg 0 0) = SPH_BLEN cfg"

locale md_hash =
  fixes cfg :: md_config and rfun :: "'s rfun"
  assumes ok: "md_ok cfg"
begin

definition blen :: nat where
  "blen = SPH_BLEN cfg"

lemma blen_pos [simp]: "0 < blen"
  using ok by (auto simp: md_ok_def blen_def)

lemma blen_dvd: "blen dvd 2 ^ 64"
proof -
  obtain k where k: "k < 32" "SPH_BLEN cfg = 2 ^ k" using ok by (auto simp: md_ok_def)
  have "(2 :: nat) ^ k dvd 2 ^ 64" using k(1) by (intro le_imp_power_dvd) simp
  then show ?thesis by (simp only: blen_def k)
qed

lemma current_mod: "md_current cfg sc = unat (md_count sc) mod blen"
proof -
  obtain k where k: "k < 32" "SPH_BLEN cfg = 2 ^ k" using ok by (auto simp: md_ok_def)
  have "(of_nat (SPH_BLEN cfg) - 1 :: u32) = mask k"
    by (simp add: k mask_eq_exp_minus_1)
  then have "md_current cfg sc = unat (take_bit k (ucast (md_count sc) :: u32))"
    by (simp add: md_current_def take_bit_eq_mask)
  also have "\<dots> = unat (md_count sc) mod 2 ^ k"
    using k by (simp add: unsigned_take_bit_eq unsigned_ucast_eq take_bit_take_bit min_def take_bit_eq_mod [symmetric])
  finally show ?thesis by (simp add: blen_def k)
qed

definition step :: "'s \<Rightarrow> bytes \<Rightarrow> 's" where
  "step v x = rfun x v"

definition inv :: "'s md_context \<Rightarrow> bool" where
  "inv sc \<longleftrightarrow> length (md_buf sc) = blen"

definition view :: "'s md_context \<Rightarrow> 's \<times> bytes \<times> u64" where
  "view sc = (md_val sc, take (md_current cfg sc) (md_buf sc), md_count sc)"

fun absorb :: "'s \<times> bytes \<times> u64 \<Rightarrow> bytes \<Rightarrow> 's \<times> bytes \<times> u64" where
  "absorb (v, r, c) d =
     (let (v', r') = absorb_blocks blen step v (r @ d) in (v', r', c + of_nat (length d)))"

declare absorb.simps [simp del]

lemma short_loop_absorb:
  assumes "length (md_buf sc) = blen" and "current < blen"
    and "absorb_blocks blen step (md_val sc) (take current (md_buf sc) @ data) = (v', r')"
  shows "\<exists>buf'. md_short_loop cfg rfun sc current data =
      sc\<lparr>md_buf := buf', md_val := v', md_count := md_count sc + of_nat (length data)\<rparr> \<and>
    length buf' = blen \<and> take (length r') buf' = r'"
  using assms
proof (induction "length data" arbitrary: sc current data rule: less_induct)
  case less
  show ?case
  proof (cases "data = []")
    case True
    then have "r' = take current (md_buf sc)" "v' = md_val sc" using less.prems by simp_all
    then show ?thesis
      using True less.prems
      by (intro exI [of _ "md_buf sc"]) (simp add: md_short_loop.simps [of _ _ _ _ "[]"])
  next
    case False
    define clen where "clen = min (blen - current) (length data)"
    define buf where "buf = memcpy_at (md_buf sc) current (take clen data)"
    have c: "0 < clen" "clen \<le> length data" "current + clen \<le> blen"
      using False less.prems by (auto simp: clen_def)
    have lt: "length (take clen data) = clen" using c by simp
    have buf: "length buf = blen" "take (current + clen) buf = take current (md_buf sc) @ take clen data"
      using less.prems c take_memcpy_at [of current "md_buf sc" "take clen data", unfolded lt]
      by (simp_all add: buf_def)
    have split: "take current (md_buf sc) @ data = take (current + clen) buf @ drop clen data"
      by (simp add: buf)
    have cnt: "(of_nat clen + of_nat (length data - clen) :: u64) = of_nat (length data)"
      using c by (metis le_add_diff_inverse of_nat_add)
    show ?thesis
    proof (cases "current + clen = blen")
      case True
      define sc' where "sc' = sc\<lparr>md_buf := buf, md_val := rfun buf (md_val sc), md_count := md_count sc + of_nat clen\<rparr>"
      have one: "md_short_loop cfg rfun sc current data = md_short_loop cfg rfun sc' 0 (drop clen data)"
        using False less.prems True
        by (simp add: md_short_loop.simps [of cfg rfun sc current data] blen_def [symmetric]
            clen_def [symmetric] buf_def [symmetric] sc'_def)
      have "absorb_blocks blen step (md_val sc') (take 0 (md_buf sc') @ drop clen data) = (v', r')"
        using less.prems(3) True buf(1) absorb_blocks_step [of blen buf step "md_val sc" "drop clen data"]
        by (simp add: split sc'_def step_def)
      moreover have "length (drop clen data) < length data" using c by simp
      ultimately obtain buf' where "md_short_loop cfg rfun sc' 0 (drop clen data) =
          sc'\<lparr>md_buf := buf', md_val := v', md_count := md_count sc' + of_nat (length (drop clen data))\<rparr>"
          "length buf' = blen" "take (length r') buf' = r'"
        using less.hyps [of "drop clen data" sc' 0] c buf by (auto simp: sc'_def)
      then show ?thesis
        by (intro exI [of _ buf']) (simp add: one sc'_def cnt add.assoc)
    next
      case part: False
      then have all: "clen = length data" "current + clen < blen" using c by (auto simp: clen_def)
      have "md_short_loop cfg rfun sc current data = sc\<lparr>md_buf := buf, md_count := md_count sc + of_nat clen\<rparr>"
        using False less.prems part all
        by (simp add: md_short_loop.simps [of cfg rfun sc current data] blen_def [symmetric]
            clen_def [symmetric] buf_def md_short_loop.simps [of _ _ _ _ "[]"])
      moreover have "v' = md_val sc" "r' = take (current + clen) buf"
        using less.prems(3) all buf(1) by (simp_all add: split)
      ultimately show ?thesis using all buf(1) by (intro exI [of _ buf]) simp
    qed
  qed
qed

lemma current_less [simp]: "md_current cfg sc < blen"
  by (simp add: current_mod)

lemma count_mod: "unat (c + of_nat n :: u64) mod blen = (unat c + n) mod blen"
proof -
  have "unat (c + of_nat n :: u64) = (unat c + n) mod 2 ^ 64"
    by (simp add: unat_word_ariths unat_of_nat mod_add_right_eq)
  then show ?thesis using blen_dvd by (simp only: mod_mod_cancel)
qed

lemma absorb_rest_length:
  assumes "inv sc" and "absorb_blocks blen step (md_val sc) (take (md_current cfg sc) (md_buf sc) @ d) = (v', r')"
  shows "length r' = unat (md_count sc + of_nat (length d)) mod blen"
proof -
  have "length (take (md_current cfg sc) (md_buf sc)) = md_current cfg sc"
    using assms(1) current_less [of sc] by (simp add: inv_def del: current_less)
  then show ?thesis
    using absorb_blocks_rest [OF blen_pos assms(2)] by (simp add: count_mod current_mod mod_add_left_eq)
qed

lemma view_absorbed:
  assumes "inv sc" and "absorb_blocks blen step (md_val sc) (take (md_current cfg sc) (md_buf sc) @ d) = (v', r')"
    and "length buf' = blen" and "take (length r') buf' = r'"
  shows "view (sc\<lparr>md_buf := buf', md_val := v', md_count := md_count sc + of_nat (length d)\<rparr>) = absorb (view sc) d"
  using absorb_rest_length [OF assms(1,2)] assms(2-4)
  by (simp add: view_def absorb.simps current_mod)

lemma short_view:
  assumes "inv sc"
  shows "inv (md_short cfg rfun sc d)" and "view (md_short cfg rfun sc d) = absorb (view sc) d"
proof -
  obtain v' r' where a: "absorb_blocks blen step (md_val sc) (take (md_current cfg sc) (md_buf sc) @ d) = (v', r')"
    by fastforce
  then obtain buf' where b: "md_short cfg rfun sc d =
      sc\<lparr>md_buf := buf', md_val := v', md_count := md_count sc + of_nat (length d)\<rparr>"
      "length buf' = blen" "take (length r') buf' = r'"
    using short_loop_absorb [of sc "md_current cfg sc" d v' r'] assms by (auto simp: inv_def md_short_def)
  then show "inv (md_short cfg rfun sc d)" by (simp add: inv_def)
  show "view (md_short cfg rfun sc d) = absorb (view sc) d"
    unfolding b(1) using view_absorbed [OF assms a b(2,3)] .
qed

lemma whole_blocks_absorb: "md_whole_blocks cfg rfun v d = absorb_blocks blen step v d"
proof (induction "length d" arbitrary: v d rule: less_induct)
  case less
  show ?case
  proof (cases "blen \<le> length d")
    case True
    then have "length (drop blen d) < length d" using less_le_trans [OF blen_pos True] by simp
    then have "md_whole_blocks cfg rfun (step v (take blen d)) (drop blen d) =
        absorb_blocks blen step (step v (take blen d)) (drop blen d)"
      by (rule less)
    then show ?thesis
      using True by (simp add: md_whole_blocks.simps [of cfg rfun v d] absorb_blocks.simps [of blen step v d]
          blen_def [symmetric] step_def [symmetric] gr_implies_not0 [OF blen_pos])
  next
    case False
    then show ?thesis by (simp add: md_whole_blocks.simps [of cfg rfun v d] blen_def [symmetric])
  qed
qed

lemma absorb_view:
  assumes "inv sc"
  shows "absorb (view sc) [] = view sc"
    and "absorb (absorb (view sc) d) e = absorb (view sc) (d @ e)"
proof -
  let ?r = "take (md_current cfg sc) (md_buf sc)"
  have "length ?r < blen" using assms current_less [of sc] by (simp add: inv_def del: current_less)
  then show "absorb (view sc) [] = view sc" by (simp add: view_def absorb.simps)
  obtain v' r' where a: "absorb_blocks blen step (md_val sc) (?r @ d) = (v', r')" by fastforce
  show "absorb (absorb (view sc) d) e = absorb (view sc) (d @ e)"
    using absorb_blocks_append [OF blen_pos a, of e]
    by (simp add: view_def absorb.simps a add.assoc split: prod.splits)
qed

lemma aligned_view:
  assumes "inv sc" and "md_current cfg sc = 0" and "md_whole_blocks cfg rfun (md_val sc) d = (v, rest)"
  defines "sc' \<equiv> sc\<lparr>md_buf := (if rest \<noteq> [] then memcpy_at (md_buf sc) 0 rest else md_buf sc), md_val := v,
      md_count := md_count sc + of_nat (length d)\<rparr>"
  shows "inv sc'" and "view sc' = absorb (view sc) d"
proof -
  let ?buf = "if rest \<noteq> [] then memcpy_at (md_buf sc) 0 rest else md_buf sc"
  have a: "absorb_blocks blen step (md_val sc) (take (md_current cfg sc) (md_buf sc) @ d) = (v, rest)"
    using assms(2,3) by (simp add: whole_blocks_absorb)
  have "length rest < blen" using absorb_blocks_tail_length [OF blen_pos, of step "md_val sc" d] a assms(2) by simp
  then have b: "length ?buf = blen" "take (length rest) ?buf = rest"
    using assms(1) by (auto simp: inv_def memcpy_at_zero)
  then show "inv sc'" by (simp add: inv_def sc'_def)
  show "view sc' = absorb (view sc) d"
    using view_absorbed [OF assms(1) a b] by (simp only: sc'_def)
qed

lemma update_view:
  assumes "inv sc"
  shows "inv (md_update cfg rfun sc d)" and "view (md_update cfg rfun sc d) = absorb (view sc) d"
proof -
  have "inv (md_update cfg rfun sc d) \<and> view (md_update cfg rfun sc d) = absorb (view sc) d"
  proof (cases "length d < 2 * blen")
    case True
    then show ?thesis using short_view [OF assms] by (simp add: md_update_def blen_def)
  next
    case False
    define t where "t = blen - md_current cfg sc"
    define sc1 d1 where "sc1 = (if 0 < md_current cfg sc then md_short cfg rfun sc (take t d) else sc)"
      and "d1 = (if 0 < md_current cfg sc then drop t d else d)"
    have pre: "d = (if 0 < md_current cfg sc then take t d else []) @ d1" by (simp add: d1_def)
    have 1: "inv sc1" "view sc1 = absorb (view sc) (if 0 < md_current cfg sc then take t d else [])"
      using short_view [OF assms] absorb_view(1) [OF assms] assms by (simp_all add: sc1_def)
    have "md_current cfg sc1 = 0"
    proof (cases "0 < md_current cfg sc")
      case True
      then have "length (take t d) = t" using False by (simp add: t_def)
      then have "md_count sc1 = md_count sc + of_nat t"
        using 1(2) True by (simp add: view_def absorb.simps split: prod.splits)
      then have "md_current cfg sc1 = (md_current cfg sc + t) mod blen"
        by (simp add: current_mod count_mod mod_add_left_eq)
      then show ?thesis using current_less [of sc] by (simp add: t_def del: current_less)
    qed (simp add: sc1_def)
    obtain v rest where w: "md_whole_blocks cfg rfun (md_val sc1) d1 = (v, rest)" by fastforce
    have "md_update cfg rfun sc d = sc1\<lparr>
        md_buf := (if rest \<noteq> [] then memcpy_at (md_buf sc1) 0 rest else md_buf sc1), md_val := v,
        md_count := md_count sc1 + of_nat (length d1)\<rparr>"
      using False w by (simp add: md_update_def blen_def [symmetric] sc1_def d1_def t_def Let_def split: if_splits)
    then show ?thesis
      using aligned_view [OF 1(1) \<open>md_current cfg sc1 = 0\<close> w] 1(2) absorb_view(2) [OF assms] pre by simp
  qed
  then show "inv (md_update cfg rfun sc d)" "view (md_update cfg rfun sc d) = absorb (view sc) d" by simp_all
qed

text \<open>The padding of a message, from the fill of the last block and the byte count.\<close>

definition padding :: "nat \<Rightarrow> u64 \<Rightarrow> nat \<Rightarrow> nat \<Rightarrow> bytes" where
  "padding l c ub n =
     md_first_pad_byte cfg ub n #
     replicate (if l < SPH_MAXPAD cfg then SPH_MAXPAD cfg - (l + 1)
                else blen - (l + 1) + SPH_MAXPAD cfg) 0 @
     md_length_field cfg c (of_nat n)"

lemma length_field: "length (md_length_field cfg c n) = length (md_length_field cfg 0 0)"
  by (simp add: md_length_field_def Let_def split: md_word.split md_plw.split)

lemma maxpad: "SPH_MAXPAD cfg + length (md_length_field cfg c n) = blen"
  using ok length_field [of c n] by (simp add: md_ok_def blen_def)

fun finish :: "'s \<times> bytes \<times> u64 \<Rightarrow> nat \<Rightarrow> nat \<Rightarrow> 's" where
  "finish (v, r, c) ub n = fst (absorb_blocks blen step v (r @ padding (length r) c ub n))"

declare finish.simps [simp del]

lemma addbits_finish:
  assumes "inv sc"
  shows "md_val (md_addbits cfg rfun sc ub n) = finish (view sc) ub n"
proof -
  define l where "l = md_current cfg sc"
  define r where "r = take l (md_buf sc)"
  define b where "b = md_first_pad_byte cfg ub n"
  define L where "L = md_length_field cfg (md_count sc) (of_nat n)"
  have l: "l < blen" "length (md_buf sc) = blen" "length r = l"
    using assms current_less [of sc] by (simp_all add: inv_def l_def r_def del: current_less)
  have L: "SPH_MAXPAD cfg + length L = blen" using maxpad by (simp add: L_def)
  have first: "(md_buf sc)[l := b] = r @ b # drop (Suc l) (md_buf sc)"
    using l by (simp add: r_def upd_conv_take_nth_drop)
  have fin: "finish (view sc) ub n = fst (absorb_blocks blen step (md_val sc)
      (r @ b # replicate (if l < SPH_MAXPAD cfg then SPH_MAXPAD cfg - (l + 1)
                else blen - (l + 1) + SPH_MAXPAD cfg) 0 @ L))"
    using l(3) by (simp add: finish.simps view_def padding_def l_def [symmetric] r_def [symmetric]
        b_def [symmetric] L_def [symmetric])
  show ?thesis
  proof (cases "SPH_MAXPAD cfg < l + 1")
    case True
    define x where "x = r @ b # replicate (blen - (l + 1)) 0"
    define y where "y = replicate (SPH_MAXPAD cfg) 0 @ L"
    have xy: "length x = blen" "length y = blen" using l L by (simp_all add: x_def y_def)
    have p1: "memcpy_at ((md_buf sc)[l := b]) (l + 1) (replicate (blen - (l + 1)) 0) = x"
      unfolding first using l by (simp add: memcpy_at_def x_def)
    have p2: "memcpy_at (memcpy_at x 0 (replicate (SPH_MAXPAD cfg) 0)) (SPH_MAXPAD cfg) L = y"
      using xy L by (simp add: memcpy_at_def y_def)
    have "md_val (md_addbits cfg rfun sc ub n) = rfun y (rfun x (md_val sc))"
      using True p1 p2 unfolding md_addbits_def Let_def l_def [symmetric] b_def [symmetric] blen_def [symmetric]
      by (simp add: L_def [symmetric])
    moreover have "r @ b # replicate (blen - (l + 1) + SPH_MAXPAD cfg) 0 @ L = x @ y @ []"
      by (simp add: x_def y_def replicate_add)
    then have "fst (absorb_blocks blen step (md_val sc) (r @ b # replicate (blen - (l + 1) + SPH_MAXPAD cfg) 0 @ L)) =
        rfun y (rfun x (md_val sc))"
      using xy by (simp only: absorb_blocks_step blen_pos) (simp add: step_def)
    ultimately show ?thesis using True by (simp add: fin)
  next
    case False
    define x where "x = r @ b # replicate (SPH_MAXPAD cfg - (l + 1)) 0 @ L"
    have x: "length x = blen" using False l L by (simp add: x_def)
    have diff: "SPH_MAXPAD cfg - l = Suc (SPH_MAXPAD cfg - Suc l)" using False by simp
    have "memcpy_at (memcpy_at ((md_buf sc)[l := b]) (l + 1) (replicate (SPH_MAXPAD cfg - (l + 1)) 0))
        (SPH_MAXPAD cfg) L = x"
      unfolding first using False l L diff by (simp add: memcpy_at_def x_def)
    then have "md_val (md_addbits cfg rfun sc ub n) = rfun x (md_val sc)"
      using False unfolding md_addbits_def Let_def l_def [symmetric] b_def [symmetric]
      by (simp add: L_def [symmetric])
    moreover have "fst (absorb_blocks blen step (md_val sc) (x @ [])) = rfun x (md_val sc)"
      using x by (simp only: absorb_blocks_step blen_pos) (simp add: step_def)
    ultimately show ?thesis using False by (simp add: fin x_def)
  qed
qed

end

sublocale md_hash \<subseteq> stream_hash inv view absorb "md_update cfg rfun"
  "\<lambda>sc ub n. md_val (md_addbits cfg rfun sc ub n)"
  by unfold_locales (simp_all add: update_view absorb_view addbits_finish)

context md_hash
begin

lemma message_digest:
  assumes "inv sc" and "md_count sc = 0"
  shows "md_val (md_addbits cfg rfun (foldl (md_update cfg rfun) sc ds) ub n) =
    fst (absorb_blocks blen step (md_val sc)
      (concat ds @ padding (length (concat ds) mod blen) (of_nat (length (concat ds))) ub n))"
proof -
  let ?m = "concat ds"
  obtain v r where a: "absorb_blocks blen step (md_val sc) ?m = (v, r)" by fastforce
  have "view sc = (md_val sc, [], 0)" using assms(2) by (simp add: view_def current_mod)
  then have "view (foldl (md_update cfg rfun) sc ds) = (v, r, of_nat (length ?m))"
    using view_updates [OF assms(1), of ds] by (simp add: absorb.simps a)
  then have "md_val (md_addbits cfg rfun (foldl (md_update cfg rfun) sc ds) ub n) =
      fst (absorb_blocks blen step v (r @ padding (length r) (of_nat (length ?m)) ub n))"
    using addbits_finish [OF inv_updates [OF assms(1)]] by (simp add: finish.simps)
  moreover have "length r = length ?m mod blen" using absorb_blocks_rest [OF blen_pos a] .
  ultimately show ?thesis using absorb_blocks_append [OF blen_pos a] by simp
qed

end

section \<open>The length field of the configurations\<close>

text \<open>
  Which inclusions the frame is right for: the length field reaches the end of the block
  exactly when the words have 64 bits and the combination is not \<^verbatim>\<open>LE64\<close> with \<^verbatim>\<open>PLW4\<close>, or they
  have 32 bits and neither \<^verbatim>\<open>PLW1\<close> nor \<^verbatim>\<open>PLW4\<close> is defined.
\<close>

lemma length_field_fills:
  assumes "4 * SPH_WLEN cfg \<le> SPH_BLEN cfg"
  shows "SPH_MAXPAD cfg + length (md_length_field cfg c n) = SPH_BLEN cfg \<longleftrightarrow>
    (if md_word64 cfg then \<not> (cfg_word cfg = LE64 \<and> cfg_plw cfg = PLW4) else cfg_plw cfg = PLW2)"
  using assms
  by (cases "cfg_word cfg"; cases "cfg_plw cfg")
    (simp_all add: SPH_MAXPAD_def SPH_WLEN_def md_word64_def md_length_field_def)

text \<open>
  C36. An inclusion of the frame with a block length that is a power of two is usable, i.e. the
  padded message ends with its length field at the end of the last block, exactly when the
  words have 64 bits and the combination is not \<^verbatim>\<open>LE64\<close> with \<^verbatim>\<open>PLW4\<close>, or they have 32 bits and
  neither \<^verbatim>\<open>PLW1\<close> nor \<^verbatim>\<open>PLW4\<close> is defined.
\<close>

theorem md_ok_configurations:
  assumes "SPH_BLEN cfg = 2 ^ k" and "k < 32" and "4 * SPH_WLEN cfg \<le> SPH_BLEN cfg"
  shows "md_ok cfg \<longleftrightarrow>
    (if md_word64 cfg then \<not> (cfg_word cfg = LE64 \<and> cfg_plw cfg = PLW4) else cfg_plw cfg = PLW2)"
  using length_field_fills [OF assms(3)] assms(1,2) by (auto simp: md_ok_def)

theorem md_ok_configurations_witness:
  "\<not> md_ok \<lparr>cfg_word = LE64, cfg_plw = PLW4, cfg_blen = None, cfg_pw01 = False\<rparr>"
  using md_ok_configurations [of "\<lparr>cfg_word = LE64, cfg_plw = PLW4, cfg_blen = None, cfg_pw01 = False\<rparr>" 7]
  by (simp add: SPH_BLEN_def SPH_WLEN_def md_word64_def)

text \<open>
  C37. With \<^verbatim>\<open>LE64\<close> and \<^verbatim>\<open>PLW4\<close> the last 16 bytes of the final block are not written when the
  message leaves room for the length: the compression reads whatever the buffer held there.
\<close>

theorem le64_plw4_reads_stale_bytes:
  assumes "cfg_word cfg = LE64" and "cfg_plw cfg = PLW4" and "cfg_blen cfg = None"
    and "length (md_buf sc) = 128" and "md_current cfg sc < 96"
  shows "drop 112 (md_buf (md_addbits cfg rfun sc ub n)) = drop 112 (md_buf sc)"
proof -
  let ?c = "md_current cfg sc"
  have cfg: "SPH_BLEN cfg = 128" "SPH_MAXPAD cfg = 96" "\<And>c k. length (md_length_field cfg c k) = 16"
    using assms by (simp_all add: SPH_BLEN_def SPH_MAXPAD_def SPH_WLEN_def md_word64_def md_length_field_def)
  have "\<not> 96 < ?c + 1" using assms(5) by simp
  then show ?thesis
    using assms(4,5) by (simp add: md_addbits_def cfg Let_def memcpy_at_def)
qed

theorem le64_plw4_reads_stale_bytes_witness:
  "drop 112 (md_buf (md_addbits \<lparr>cfg_word = LE64, cfg_plw = PLW4, cfg_blen = None, cfg_pw01 = False\<rparr>
      (\<lambda>block v. v) \<lparr>md_buf = replicate 128 7, md_val = (), md_count = 3\<rparr> 0 0)) = replicate 16 7"
  using le64_plw4_reads_stale_bytes [of "\<lparr>cfg_word = LE64, cfg_plw = PLW4, cfg_blen = None, cfg_pw01 = False\<rparr>"
      "\<lparr>md_buf = replicate 128 7, md_val = (), md_count = 3\<rparr>" "\<lambda>block v. v" 0 0]
  by (simp add: md_current_def SPH_BLEN_def md_word64_def)

end
