(* ===== verification/Bit_Strings.thy ===== *)
theory Bit_Strings
  imports MoM_Prelude
begin

text \<open>
  Messages as bit strings, most significant bit of a byte first, for the hashes whose padding
  is specified on bits, and the byte in which the sphlib hashes combine up to seven extra
  message bits with the padding bit.
\<close>

definition bits_of_byte :: "byte \<Rightarrow> bool list" where
  "bits_of_byte b = [bit b 7, bit b 6, bit b 5, bit b 4, bit b 3, bit b 2, bit b 1, bit b 0]"

definition bits_of_bytes :: "bytes \<Rightarrow> bool list" where
  "bits_of_bytes bs = concat (map bits_of_byte bs)"

definition byte_of_bits :: "bool list \<Rightarrow> byte" where
  "byte_of_bits bs = horner_sum of_bool 2 (rev bs)"

fun bytes_of_bits :: "bool list \<Rightarrow> bytes" where
  "bytes_of_bits (a # b # c # d # e # f # g # h # r) = byte_of_bits [a, b, c, d, e, f, g, h] # bytes_of_bits r"
| "bytes_of_bits _ = []"

text \<open>The expression \<^verbatim>\<open>((ub & -z) | z) & 0xFF\<close> with \<^verbatim>\<open>z = 0x80 >> n\<close>.\<close>

definition sph_pad_byte :: "nat \<Rightarrow> nat \<Rightarrow> byte" where
  "sph_pad_byte ub n = (let z = drop_bit n (0x80 :: u32) in ucast (((of_nat ub AND - z) OR z) AND 0xFF))"

lemma byte_of_bits_of_byte: "byte_of_bits (bits_of_byte b) = b"
proof -
  have "rev (bits_of_byte b) = map (bit b) [0..<8]"
    by (simp add: bits_of_byte_def upt_rec numeral_eq_Suc)
  then show ?thesis
    by (simp only: byte_of_bits_def horner_sum_bit_eq_take_bit) (simp add: take_bit_whole_word)
qed

lemma bytes_of_bits_of_byte: "bytes_of_bits (bits_of_byte b @ r) = b # bytes_of_bits r"
  using byte_of_bits_of_byte [of b] by (simp add: bits_of_byte_def)

lemma bytes_of_bits_of_bytes: "bytes_of_bits (bits_of_bytes bs) = bs"
  by (induction bs) (simp_all add: bits_of_bytes_def bytes_of_bits_of_byte)

lemma bits_of_bytes_append [simp]: "bits_of_bytes (xs @ ys) = bits_of_bytes xs @ bits_of_bytes ys"
  by (simp add: bits_of_bytes_def)

lemma length_bits_of_bytes [simp]: "length (bits_of_bytes bs) = 8 * length bs"
  by (induction bs) (simp_all add: bits_of_bytes_def bits_of_byte_def)

lemma bits_of_zero_bytes: "bits_of_bytes (replicate k 0) = replicate (8 * k) False"
proof (induction k)
  case (Suc k)
  have "bits_of_byte 0 = replicate 8 False" by (simp add: bits_of_byte_def numeral_eq_Suc)
  then show ?case using Suc by (simp add: bits_of_bytes_def replicate_add [symmetric])
qed (simp add: bits_of_bytes_def)

lemma bit_pad_byte:
  assumes "n < 8" "i < 8"
  shows "bit (sph_pad_byte ub n) i \<longleftrightarrow> (if i + n \<le> 7 then i + n = 7 else bit (of_nat ub :: byte) i)"
proof -
  define k where "k = 7 - n"
  have k: "k \<le> 7" "i + n \<le> 7 \<longleftrightarrow> i \<le> k" "i + n = 7 \<longleftrightarrow> i = k" using assms(1) by (auto simp: k_def)
  have "n \<in> {0, 1, 2, 3, 4, 5, 6, 7}" using assms(1) by auto
  then have z: "drop_bit n (0x80 :: u32) = 2 ^ k" by (auto simp: k_def)
  define y where "y = - (2 ^ k :: u32)"
  have "bit y i \<longleftrightarrow> k \<le> i"
    using assms(2) k(1) by (auto simp: y_def minus_exp_eq_not_mask bit_simps)
  moreover have "bit (0xFF :: u32) i"
    using assms(2) bit_mask_iff [of 8 i, where ?'a = u32] by (simp add: mask_eq_exp_minus_1)
  then have "bit (sph_pad_byte ub n) i \<longleftrightarrow> bit ((of_nat ub AND y) OR 2 ^ k) i"
    using assms(2) by (simp add: sph_pad_byte_def z Let_def y_def bit_simps)
  ultimately show ?thesis
    using assms(2) k by (auto simp: bit_simps)
qed

lemma pad_byte_bits:
  assumes "n < 8"
  shows "bits_of_byte (sph_pad_byte ub n) = take n (bits_of_byte (of_nat ub)) @ True # replicate (7 - n) False"
proof -
  have "n \<in> {0, 1, 2, 3, 4, 5, 6, 7}" using assms by auto
  then show ?thesis
    by (auto simp: bits_of_byte_def bit_pad_byte numeral_eq_Suc)
qed

end
