(* ===== verification/Sph_Sha2.thy ===== *)
theory Sph_Sha2
  imports Sha256 Md_Helper Bit_Strings
begin

text \<open>
  SHA-224 and SHA-256 of the GhostRider hashes: \<^verbatim>\<open>xmrig/crypto/ghostrider/sph_sha2.c\<close> with the
  frame of \<open>Md_Helper\<close>. The model is the default build, whose \<^verbatim>\<open>SHA2_ROUND_BODY\<close> writes the
  64 rounds out with rotating register names, sixteen schedule words that are overwritten in
  place, and a majority function that reuses the exclusive or of the previous round.
\<close>

section \<open>The compression function\<close>

definition CH :: "u32 \<Rightarrow> u32 \<Rightarrow> u32 \<Rightarrow> u32" where
  "CH X Y Z = ((Y XOR Z) AND X) XOR Z"

text \<open>\<open>MAJ\<close> of the three registers and the variable \<^verbatim>\<open>Y_xor_Z\<close>: the result and the new \<^verbatim>\<open>X_xor_Y\<close>.\<close>

definition MAJ :: "u32 \<Rightarrow> u32 \<Rightarrow> u32 \<Rightarrow> u32 \<times> u32" where
  "MAJ X Y Y_xor_Z = (let X_xor_Y = X XOR Y in (Y XOR (X_xor_Y AND Y_xor_Z), X_xor_Y))"

definition BSG2_0 :: "u32 \<Rightarrow> u32" where
  "BSG2_0 x = SPH_ROTR32 x 2 XOR SPH_ROTR32 x 13 XOR SPH_ROTR32 x 22"

definition BSG2_1 :: "u32 \<Rightarrow> u32" where
  "BSG2_1 x = SPH_ROTR32 x 6 XOR SPH_ROTR32 x 11 XOR SPH_ROTR32 x 25"

definition SSG2_0 :: "u32 \<Rightarrow> u32" where
  "SSG2_0 x = SPH_ROTR32 x 7 XOR SPH_ROTR32 x 18 XOR drop_bit 3 x"

definition SSG2_1 :: "u32 \<Rightarrow> u32" where
  "SSG2_1 x = SPH_ROTR32 x 17 XOR SPH_ROTR32 x 19 XOR drop_bit 10 x"

definition H224 :: "u32 list" where
  "H224 = [0xC1059ED8, 0x367CD507, 0x3070DD17, 0xF70E5939, 0xFFC00B31, 0x68581511, 0x64F98FA7, 0xBEFA4FA4]"

definition H256 :: "u32 list" where
  "H256 = [0x6A09E667, 0xBB67AE85, 0x3C6EF372, 0xA54FF53A, 0x510E527F, 0x9B05688C, 0x1F83D9AB, 0x5BE0CD19]"

text \<open>
  The variables of \<^verbatim>\<open>SHA2_ROUND_BODY\<close>: the registers \<^verbatim>\<open>A\<close> to \<^verbatim>\<open>H\<close> as eight cells, \<^verbatim>\<open>Y_xor_Z\<close>
  and the words \<^verbatim>\<open>W00\<close> to \<^verbatim>\<open>W15\<close>. In round \<open>j\<close> of a group of sixteen the names are rotated by
  \<open>j\<close>: the register that plays \<^verbatim>\<open>A\<close> is cell \<open>- j\<close> modulo 8.
\<close>

type_synonym sha2_vars = "u32 list \<times> u32 \<times> u32 list"

fun sha2_round_step :: "u32 \<Rightarrow> nat \<Rightarrow> sha2_vars \<Rightarrow> sha2_vars" where
  "sha2_round_step k j (r, Y_xor_Z, W) =
     (let a = r ! ((64 - j) mod 8); b = r ! ((65 - j) mod 8);
          d = r ! ((67 - j) mod 8); e = r ! ((68 - j) mod 8); f = r ! ((69 - j) mod 8);
          g = r ! ((70 - j) mod 8); h = r ! ((71 - j) mod 8);
          T1 = h + BSG2_1 e + CH e f g + k + W ! j;
          (maj, X_xor_Y) = MAJ a b Y_xor_Z;
          T2 = BSG2_0 a + maj
      in (r[(67 - j) mod 8 := d + T1, (71 - j) mod 8 := T1 + T2], X_xor_Y, W))"

fun sha2_load :: "(nat \<Rightarrow> u32) \<Rightarrow> nat \<Rightarrow> sha2_vars \<Rightarrow> sha2_vars" where
  "sha2_load inp j (r, y, W) = (r, y, W[j := inp j])"

fun sha2_expand :: "nat \<Rightarrow> sha2_vars \<Rightarrow> sha2_vars" where
  "sha2_expand j (r, y, W) =
     (r, y, W[j := SSG2_1 (W ! ((j + 14) mod 16)) + W ! ((j + 9) mod 16) +
                   SSG2_0 (W ! ((j + 1) mod 16)) + W ! j])"

definition sha2_group :: "(nat \<Rightarrow> sha2_vars \<Rightarrow> sha2_vars) \<Rightarrow> u32 list \<Rightarrow> sha2_vars \<Rightarrow> sha2_vars" where
  "sha2_group sched ks v = foldl (\<lambda>v j. sha2_round_step (ks ! j) j (sched j v)) v [0..<16]"

definition sha2_rounds_00_15 :: "(nat \<Rightarrow> u32) \<Rightarrow> sha2_vars \<Rightarrow> sha2_vars" where
  "sha2_rounds_00_15 inp =
     sha2_group (sha2_load inp) (
      [0x428a2f98, 0x71374491, 0xb5c0fbcf, 0xe9b5dba5] @
      [0x3956c25b, 0x59f111f1, 0x923f82a4, 0xab1c5ed5] @
      [0xd807aa98, 0x12835b01, 0x243185be, 0x550c7dc3] @
      [0x72be5d74, 0x80deb1fe, 0x9bdc06a7, 0xc19bf174])"

definition sha2_rounds_16_31 :: "sha2_vars \<Rightarrow> sha2_vars" where
  "sha2_rounds_16_31 =
     sha2_group sha2_expand (
      [0xe49b69c1, 0xefbe4786, 0x0fc19dc6, 0x240ca1cc] @
      [0x2de92c6f, 0x4a7484aa, 0x5cb0a9dc, 0x76f988da] @
      [0x983e5152, 0xa831c66d, 0xb00327c8, 0xbf597fc7] @
      [0xc6e00bf3, 0xd5a79147, 0x06ca6351, 0x14292967])"

definition sha2_rounds_32_47 :: "sha2_vars \<Rightarrow> sha2_vars" where
  "sha2_rounds_32_47 =
     sha2_group sha2_expand (
      [0x27b70a85, 0x2e1b2138, 0x4d2c6dfc, 0x53380d13] @
      [0x650a7354, 0x766a0abb, 0x81c2c92e, 0x92722c85] @
      [0xa2bfe8a1, 0xa81a664b, 0xc24b8b70, 0xc76c51a3] @
      [0xd192e819, 0xd6990624, 0xf40e3585, 0x106aa070])"

definition sha2_rounds_48_63 :: "sha2_vars \<Rightarrow> sha2_vars" where
  "sha2_rounds_48_63 =
     sha2_group sha2_expand (
      [0x19a4c116, 0x1e376c08, 0x2748774c, 0x34b0bcb5] @
      [0x391c0cb3, 0x4ed8aa4a, 0x5b9cca4f, 0x682e6ff3] @
      [0x748f82ee, 0x78a5636f, 0x84c87814, 0x8cc70208] @
      [0x90befffa, 0xa4506ceb, 0xbef9a3f7, 0xc67178f2])"

definition SHA2_ROUND_BODY :: "(nat \<Rightarrow> u32) \<Rightarrow> u32 list \<Rightarrow> u32 list" where
  "SHA2_ROUND_BODY inp r =
     (let v = (take 8 r, r ! 1 XOR r ! 2, replicate 16 0);
          (s, y, W) = sha2_rounds_48_63 (sha2_rounds_32_47 (sha2_rounds_16_31 (sha2_rounds_00_15 inp v)))
      in map (\<lambda>i. r ! i + s ! i) [0..<8])"

definition sha2_round :: "bytes \<Rightarrow> u32 list \<Rightarrow> u32 list" where
  "sha2_round data r = SHA2_ROUND_BODY (\<lambda>x. sph_dec32be_aligned host (drop (4 * x) data)) r"

definition sph_sha256_transform_le :: "u32 list \<Rightarrow> u32 list \<Rightarrow> u32 list" where
  "sph_sha256_transform_le data state_in = SHA2_ROUND_BODY (\<lambda>x. data ! x) (take 8 state_in)"

definition sph_sha256_transform_be :: "u32 list \<Rightarrow> u32 list \<Rightarrow> u32 list" where
  "sph_sha256_transform_be data state_in = SHA2_ROUND_BODY (\<lambda>x. sph_bswap32 (data ! x)) (take 8 state_in)"

section \<open>The hash functions\<close>

type_synonym sph_sha224_context = "u32 list md_context"

definition sha2_config :: md_config where
  "sha2_config = \<lparr>cfg_word = BE32, cfg_plw = PLW2, cfg_blen = None, cfg_pw01 = False\<rparr>"

definition sph_sha224_init :: "sph_sha224_context \<Rightarrow> sph_sha224_context" where
  "sph_sha224_init sc = sc\<lparr>md_val := H224, md_count := 0\<rparr>"

definition sph_sha256_init :: "sph_sha224_context \<Rightarrow> sph_sha224_context" where
  "sph_sha256_init sc = sc\<lparr>md_val := H256, md_count := 0\<rparr>"

text \<open>The header defines \<^verbatim>\<open>sph_sha256\<close> as \<^verbatim>\<open>sph_sha224\<close>.\<close>

definition sph_sha224 :: "sph_sha224_context \<Rightarrow> bytes \<Rightarrow> sph_sha224_context" where
  "sph_sha224 = md_update sha2_config sha2_round"

definition sph_sha224_close :: "sph_sha224_context \<Rightarrow> bytes \<times> sph_sha224_context" where
  "sph_sha224_close sc = md_close_be32 sha2_config sha2_round sc 7"

definition sph_sha224_addbits_and_close ::
  "sph_sha224_context \<Rightarrow> nat \<Rightarrow> nat \<Rightarrow> bytes \<times> sph_sha224_context" where
  "sph_sha224_addbits_and_close sc ub n = md_addbits_and_close_be32 sha2_config sha2_round sc ub n 7"

definition sph_sha256_close :: "sph_sha224_context \<Rightarrow> bytes \<times> sph_sha224_context" where
  "sph_sha256_close sc = md_close_be32 sha2_config sha2_round sc 8"

definition sph_sha256_addbits_and_close ::
  "sph_sha224_context \<Rightarrow> nat \<Rightarrow> nat \<Rightarrow> bytes \<times> sph_sha224_context" where
  "sph_sha256_addbits_and_close sc ub n = md_addbits_and_close_be32 sha2_config sha2_round sc ub n 8"

text \<open>\<open>stack\<close> is the uninitialised local context.\<close>

definition sph_sha256_full :: "sph_sha224_context \<Rightarrow> bytes \<Rightarrow> bytes" where
  "sph_sha256_full stack data = fst (sph_sha256_close (sph_sha224 (sph_sha256_init stack) data))"

definition sha256d :: "sph_sha224_context \<Rightarrow> sph_sha224_context \<Rightarrow> bytes \<Rightarrow> bytes" where
  "sha256d stack1 stack2 data = sph_sha256_full stack2 (sph_sha256_full stack1 data)"

section \<open>Equivalence with FIPS 180-4\<close>

lemma SPH_ROTR32_ROTR: "n \<le> 32 \<Longrightarrow> SPH_ROTR32 x n = ROTR x n"
  by (simp add: SPH_ROTR32_def SPH_ROTL32_def ROTR_def or.commute)

lemma sph_sigma_fips:
  "BSG2_0 x = fips_Sigma0 x" "BSG2_1 x = fips_Sigma1 x" "SSG2_0 x = fips_sigma0 x" "SSG2_1 x = fips_sigma1 x"
  using sigma_fips [of x]
  by (simp_all add: BSG2_0_def BSG2_1_def SSG2_0_def SSG2_1_def SPH_ROTR32_ROTR S0_def S1_def s0_def s1_def SHR_def)

lemma CH_fips: "CH x y z = fips_Ch x y z"
  by (rule bit_word_eqI) (auto simp: CH_def fips_Ch_def bit_simps)

lemma MAJ_fips: "MAJ x y (y XOR z) = (fips_Maj x y z, x XOR y)"
proof -
  have "y XOR ((x XOR y) AND (y XOR z)) = fips_Maj x y z"
    by (rule bit_word_eqI) (auto simp: fips_Maj_def bit_simps)
  then show ?thesis by (simp add: MAJ_def)
qed

text \<open>The cached exclusive or belongs to the registers that play \<open>B\<close> and \<open>C\<close>.\<close>

definition cached :: "nat \<Rightarrow> u32 list \<Rightarrow> u32 \<Rightarrow> bool" where
  "cached j r y \<longleftrightarrow> y = r ! ((65 - j) mod 8) XOR r ! ((66 - j) mod 8)"

lemma sha2_round_step_fips:
  assumes "length r = 8" and "j < 16" and "cached j r y" and "W ! j = F ! t" and "k = Krnd ! t"
    and "sha2_round_step k j (r, y, W) = (r', y', W')"
  shows "regs_at (Suc j) r' = fips_round F (regs_at j r) t \<and> cached (Suc j) r' y' \<and> length r' = 8 \<and> W' = W"
proof -
  obtain a b c d e f g h where r: "r = [a, b, c, d, e, f, g, h]"
    using assms(1) by (rule list8_cases)
  show ?thesis
    using less_16_cases [OF assms(2)] assms(3-)
    by (elim disjE)
      (simp_all add: r regs_at_def cached_def MAJ_fips CH_fips sph_sigma_fips Let_def, (auto simp: ac_simps))
qed

declare sha2_round_step.simps [simp del] sha2_expand.simps [simp del]

text \<open>The sixteen words hold the most recent entries of the schedule.\<close>

definition sched_ok :: "u32 list \<Rightarrow> nat \<Rightarrow> u32 list \<Rightarrow> bool" where
  "sched_ok F t W \<longleftrightarrow> length W = 16 \<and> (\<forall>i. i < t \<and> t \<le> i + 16 \<longrightarrow> W ! (i mod 16) = F ! i)"

lemma sched_ok_step:
  assumes "sched_ok F t W"
  shows "sched_ok F (Suc t) (W[t mod 16 := F ! t])"
  unfolding sched_ok_def
proof (intro conjI allI impI)
  show "length (W[t mod 16 := F ! t]) = 16" using assms by (simp add: sched_ok_def)
  fix i assume i: "i < Suc t \<and> Suc t \<le> i + 16"
  show "W[t mod 16 := F ! t] ! (i mod 16) = F ! i"
  proof (cases "i = t")
    case True
    then show ?thesis using assms by (simp add: sched_ok_def)
  next
    case False
    have "i mod 16 \<noteq> t mod 16"
    proof
      assume "i mod 16 = t mod 16"
      then have "16 dvd t - i" using i by (simp add: mod_eq_dvd_iff_nat [symmetric])
      then have "16 \<le> t - i" using False i by (intro dvd_imp_le) auto
      then show False using i by linarith
    qed
    then show ?thesis using assms i False by (auto simp: sched_ok_def)
  qed
qed

lemma sha2_expand_fips:
  assumes "length M = 16" and "sched_ok (fips_schedule M) t W" and "16 \<le> t" and "t < 64" and "j = t mod 16"
  shows "sha2_expand j (r, y, W) = (r, y, W[t mod 16 := fips_schedule M ! t])"
proof -
  let ?F = "fips_schedule M"
  have w: "W ! (i mod 16) = ?F ! i" if "i < t" "t \<le> i + 16" for i
    using assms(2) that by (simp add: sched_ok_def)
  obtain s where s: "t = s + 16" using assms(3) by (metis le_add_diff_inverse2)
  have "(j + 14) mod 16 = (t - 2) mod 16" "(j + 9) mod 16 = (t - 7) mod 16" "(j + 1) mod 16 = (t - 15) mod 16"
      "j = (t - 16) mod 16"
    by (simp_all add: assms(5) s mod_add_left_eq mod_Suc_eq add.commute [of s])
  then have w': "W ! ((j + 14) mod 16) = ?F ! (t - 2)" "W ! ((j + 9) mod 16) = ?F ! (t - 7)"
      "W ! ((j + 1) mod 16) = ?F ! (t - 15)" "W ! j = ?F ! (t - 16)"
    using w [of "t - 2"] w [of "t - 7"] w [of "t - 15"] w [of "t - 16"] s by (simp_all only:) simp_all
  show ?thesis
    unfolding sha2_expand.simps w' sph_sigma_fips nth_fips_schedule [OF assms(1,3,4)] assms(5) [symmetric] ..
qed

fun sha2_ok :: "u32 list \<Rightarrow> fips_regs \<Rightarrow> nat \<Rightarrow> nat \<Rightarrow> sha2_vars \<Rightarrow> bool" where
  "sha2_ok F R t j (r, y, W) \<longleftrightarrow>
     length r = 8 \<and> regs_at j r = foldl (fips_round F) R [0..<t] \<and> cached j r y \<and> sched_ok F t W"

declare sha2_ok.simps [simp del]

lemma sha2_group_ok:
  assumes sched: "\<And>j r y W. j < 16 \<Longrightarrow> sched_ok F (16 * q + j) W \<Longrightarrow>
      sched j (r, y, W) = (r, y, W[j := F ! (16 * q + j)])"
    and cst: "ks = take 16 (drop (16 * q) Krnd)" "16 * q + 16 \<le> length Krnd"
    and start: "sha2_ok F R (16 * q) 0 v"
  shows "sha2_ok F R (16 * q + 16) 0 (sha2_group sched ks v)"
proof -
  have ks: "ks ! j = Krnd ! (16 * q + j)" if "j < 16" for j
    using cst that by simp
  have "sha2_ok F R (16 * q + n) n (foldl (\<lambda>v j. sha2_round_step (ks ! j) j (sched j v)) v [0..<n])"
    if "n \<le> 16" for n
    using that
  proof (induction n)
    case 0
    then show ?case using start by simp
  next
    case (Suc n)
    obtain r y W where v: "foldl (\<lambda>v j. sha2_round_step (ks ! j) j (sched j v)) v [0..<n] = (r, y, W)"
      by (rule prod_cases3)
    have ok: "length r = 8" "regs_at n r = foldl (fips_round F) R [0..<16 * q + n]" "cached n r y"
        "sched_ok F (16 * q + n) W"
      using Suc.IH Suc.prems unfolding v sha2_ok.simps by simp_all
    let ?W = "W[n := F ! (16 * q + n)]"
    have s: "sched n (r, y, W) = (r, y, ?W)" using sched Suc.prems ok(4) by simp
    have len: "length W = 16" using ok(4) by (simp add: sched_ok_def)
    obtain r' y' W' where st: "sha2_round_step (ks ! n) n (r, y, ?W) = (r', y', W')" by (rule prod_cases3)
    have "regs_at (Suc n) r' = fips_round F (regs_at n r) (16 * q + n) \<and> cached (Suc n) r' y' \<and> length r' = 8 \<and> W' = ?W"
      using sha2_round_step_fips [OF ok(1) _ ok(3) _ _ st] ks Suc.prems len by simp
    moreover have "sched_ok F (Suc (16 * q + n)) ?W"
      using sched_ok_step [OF ok(4)] Suc.prems by simp
    ultimately show ?case using ok(2) by (simp add: v s st sha2_ok.simps)
  qed
  from this [of 16] have "sha2_ok F R (16 * q + 16) 16 (sha2_group sched ks v)"
    by (simp add: sha2_group_def)
  then show ?thesis
    by (cases "sha2_group sched ks v" rule: prod_cases3) (simp add: sha2_ok.simps regs_at_16 cached_def)
qed


definition fips_compress_words :: "u32 list \<Rightarrow> u32 list \<Rightarrow> u32 list" where
  "fips_compress_words H M =
     map2 (+) H (fips_list_of (foldl (fips_round (fips_schedule M)) (fips_regs_of H) [0..<64]))"

lemma fips_compress_as_words:
  "fips_compress H block = fips_compress_words H (map (\<lambda>i. le_dec (rev (take 4 (drop (4 * i) block)))) [0..<16])"
  by (simp only: fips_compress_def fips_compress_words_def Let_def)

lemma SHA2_ROUND_BODY_words:
  assumes "length r = 8"
  shows "SHA2_ROUND_BODY inp r = fips_compress_words r (map inp [0..<16])"
proof -
  define M F where "M = map inp [0..<16]" and "F = fips_schedule M"
  have lenM: "length M = 16" by (simp add: M_def)
  have F0: "F ! j = inp j" if "j < 16" for j
  proof -
    have "take 16 F = M" using fips_schedule_prefix [OF lenM, of 16] by (simp add: F_def fips_schedule_upto_def)
    then have "F ! j = M ! j" using that by (metis nth_take)
    then show ?thesis using that by (simp add: M_def del: upt_rec_numeral)
  qed
  have exp: "sha2_expand j (r, y, W) = (r, y, W[j := F ! (16 * q + j)])"
    if "j < 16" "sched_ok F (16 * q + j) W" "1 \<le> q" "q \<le> 3" for j r y W q
    using sha2_expand_fips [OF lenM, of "16 * q + j" W j r y] that by (simp add: F_def)
  let ?R = "regs_at 0 r"
  have v0: "sha2_ok F ?R (16 * 0) 0 (r, r ! 1 XOR r ! 2, replicate 16 0)"
    using assms by (simp add: sha2_ok.simps cached_def sched_ok_def)
  have v1: "sha2_ok F ?R (16 * 0 + 16) 0 (sha2_rounds_00_15 inp (r, r ! 1 XOR r ! 2, replicate 16 0))"
    (is "sha2_ok _ _ _ _ ?v1")
    unfolding sha2_rounds_00_15_def
    by (rule sha2_group_ok [OF _ _ _ v0]) (simp_all add: F0 Krnd_def)
  have v2: "sha2_ok F ?R (16 * 1 + 16) 0 (sha2_rounds_16_31 ?v1)" (is "sha2_ok _ _ _ _ ?v2")
    unfolding sha2_rounds_16_31_def
    by (rule sha2_group_ok [OF exp]) (use v1 in \<open>simp_all add: Krnd_def\<close>)
  have v3: "sha2_ok F ?R (16 * 2 + 16) 0 (sha2_rounds_32_47 ?v2)" (is "sha2_ok _ _ _ _ ?v3")
    unfolding sha2_rounds_32_47_def
    by (rule sha2_group_ok [OF exp]) (use v2 in \<open>simp_all add: Krnd_def\<close>)
  have v4: "sha2_ok F ?R (16 * 3 + 16) 0 (sha2_rounds_48_63 ?v3)" (is "sha2_ok _ _ _ _ ?v4")
    unfolding sha2_rounds_48_63_def
    by (rule sha2_group_ok [OF exp]) (use v3 in \<open>simp_all add: Krnd_def\<close>)
  obtain s y W where v: "?v4 = (s, y, W)" by (rule prod_cases3)
  have s: "length s = 8" "regs_at 0 s = foldl (fips_round F) ?R [0..<64]"
    using v4 unfolding v sha2_ok.simps by simp_all
  obtain a b c d e f g h where sl: "s = [a, b, c, d, e, f, g, h]" using s(1) by (rule list8_cases)
  obtain a' b' c' d' e' f' g' h' where rl: "r = [a', b', c', d', e', f', g', h']" using assms by (rule list8_cases)
  have "regs_at 0 r = fips_regs_of r" "regs_at 0 s = (a, b, c, d, e, f, g, h)"
    by (simp_all add: regs_at_def sl rl)
  then have "foldl (fips_round F) (fips_regs_of r) [0..<64] = (a, b, c, d, e, f, g, h)" using s(2) by simp
  then have "fips_compress_words r M = map2 (+) r s"
    unfolding fips_compress_words_def F_def [symmetric] by (simp add: sl)
  moreover have "SHA2_ROUND_BODY inp r = map (\<lambda>i. r ! i + s ! i) [0..<8]"
    using assms v by (simp add: SHA2_ROUND_BODY_def Let_def)
  moreover have "map (\<lambda>i. r ! i + s ! i) [0..<8] = map2 (+) r s"
    using assms s(1) by (intro nth_equalityI) simp_all
  ultimately show ?thesis unfolding M_def [symmetric] by simp
qed

section \<open>The hash functions and FIPS 180-4\<close>

lemma sha2_round_fips:
  assumes "length r = 8" and "64 \<le> length data"
  shows "sha2_round data r = fips_compress r data"
proof -
  have "map (\<lambda>x. sph_dec32be_aligned host (drop (4 * x) data)) [0..<16] =
      map (\<lambda>i. le_dec (rev (take 4 (drop (4 * i) data)))) [0..<16]"
    using assms(2) by (intro map_cong) (simp_all add: sph_decoders del: upt_rec_numeral)
  then show ?thesis
    by (simp only: sha2_round_def SHA2_ROUND_BODY_words [OF assms(1)] fips_compress_as_words)
qed

lemma length_SHA2_ROUND_BODY: "length (SHA2_ROUND_BODY inp r) = 8"
  by (simp add: SHA2_ROUND_BODY_def split: prod.split)

lemma length_fips_compress: "length H = 8 \<Longrightarrow> length (fips_compress H block) = 8"
  using length_SHA2_ROUND_BODY [of _ H] by (simp only: fips_compress_as_words SHA2_ROUND_BODY_words [symmetric])

lemma absorb_sha2_round:
  "length st = 8 \<Longrightarrow>
     absorb_blocks 64 (\<lambda>v x. sha2_round x v) st xs = absorb_blocks 64 fips_compress st xs \<and>
     length (fst (absorb_blocks 64 fips_compress st xs)) = 8"
proof (induction "64 :: nat" fips_compress st xs rule: absorb_blocks.induct)
  case (1 st xs)
  then show ?case
    by (cases "length xs < 64")
      (simp_all add: absorb_blocks.simps [of 64 _ st xs] sha2_round_fips length_fips_compress)
qed

lemma sha2_frame:
  "SPH_BLEN sha2_config = 64" "SPH_MAXPAD sha2_config = 56" "\<not> cfg_pw01 sha2_config"
  "md_length_field sha2_config c n = rev (le_enc 8 (push_bit 3 c + n))"
  by (simp_all add: SPH_BLEN_def SPH_MAXPAD_def SPH_WLEN_def md_word64_def sha2_config_def
      md_length_field_def sph_encoders)

interpretation sha2: md_hash sha2_config sha2_round
  by unfold_locales (auto simp: md_ok_def sha2_frame intro: exI [of _ 6])

text \<open>FIPS 180-4, section 5.1.1, on bit strings: a one, the least number of zeros that leaves 64 bits, and the length.\<close>

definition fips_pad :: "bool list \<Rightarrow> bool list" where
  "fips_pad M = M @ True # replicate ((959 - length M mod 512) mod 512) False @
     bits_of_bytes (rev (le_enc 8 (of_nat (length M) :: u64)))"

definition fips_sha2 :: "u32 list \<Rightarrow> nat \<Rightarrow> bool list \<Rightarrow> bytes" where
  "fips_sha2 iv rnum M =
     concat (map (\<lambda>w. rev (le_enc 4 w)) (take rnum (fst (absorb_blocks 64 fips_compress iv (bytes_of_bits (fips_pad M))))))"

lemma first_pad_byte_bits:
  assumes "n < 8" "\<not> cfg_pw01 cfg"
  shows "bits_of_byte (md_first_pad_byte cfg ub n) =
    take n (bits_of_byte (of_nat ub)) @ True # replicate (7 - n) False"
  using pad_byte_bits [OF assms(1), of ub] assms(2) by (simp add: md_first_pad_byte_def sph_pad_byte_def)

text \<open>The padding of the frame is the padding of the standard.\<close>

lemma sha2_padding_bits:
  fixes m :: bytes
  assumes "n < 8"
  shows "m @ sha2.padding (length m mod 64) (of_nat (length m)) ub n =
    bytes_of_bits (fips_pad (bits_of_bytes m @ take n (bits_of_byte (of_nat ub))))"
proof -
  define l where "l = length m mod 64"
  define z where "z = (if l < 56 then 56 - (l + 1) else 64 - (l + 1) + 56)"
  define L where "L = rev (le_enc 8 (push_bit 3 (of_nat (length m)) + of_nat n :: u64))"
  have len: "length (bits_of_bytes m @ take n (bits_of_byte (of_nat ub))) = 8 * length m + n"
    using assms by (simp add: bits_of_byte_def)
  have l: "l < 64" by (simp add: l_def)
  have "(8 * length m + n) mod 512 = 8 * l + n"
  proof -
    have "8 * length m + n = (8 * l + n) + 512 * (length m div 64)"
      using mult_div_mod_eq [of 64 "length m"] unfolding l_def by linarith
    then have "(8 * length m + n) mod 512 = (8 * l + n) mod 512" by (simp only: mod_mult_self2)
    then show ?thesis using l assms by simp
  qed
  then have zeros: "(959 - (8 * length m + n) mod 512) mod 512 = 7 - n + 8 * z"
    using l assms by (auto simp: z_def mod_if)
  have cnt: "push_bit 3 (of_nat (length m)) + of_nat n = (of_nat (8 * length m + n) :: u64)"
    by (simp add: push_bit_eq_mult)
  have pad: "sha2.padding l (of_nat (length m)) ub n = md_first_pad_byte sha2_config ub n # replicate z 0 @ L"
    by (simp add: sha2.padding_def sha2.blen_def sha2_frame z_def L_def)
  have "fips_pad (bits_of_bytes m @ take n (bits_of_byte (of_nat ub))) =
      bits_of_bytes (m @ md_first_pad_byte sha2_config ub n # replicate z 0 @ L)"
    unfolding fips_pad_def len zeros cnt [symmetric] L_def
    using first_pad_byte_bits [OF assms sha2_frame(3), of ub]
    using bits_of_zero_bytes [of z]
    by (simp add: replicate_add bits_of_bytes_def del: bits_of_bytes_append)
  then show ?thesis by (simp only: bytes_of_bits_of_bytes pad l_def [symmetric])
qed

lemma sha2_addbits_fips:
  assumes "length (md_buf sc) = 64" and "md_count sc = 0" and "length (md_val sc) = 8" and "rnum \<le> 8" and "n < 8"
  shows "fst (md_addbits_and_close_be32 sha2_config sha2_round (foldl sph_sha224 sc ds) ub n rnum) =
    fips_sha2 (md_val sc) rnum (bits_of_bytes (concat ds) @ take n (bits_of_byte (of_nat ub)))"
proof -
  let ?m = "concat ds"
  define v where "v = md_val (md_addbits sha2_config sha2_round (foldl sph_sha224 sc ds) ub n)"
  define w where "w = fst (absorb_blocks 64 fips_compress (md_val sc)
      (bytes_of_bits (fips_pad (bits_of_bytes ?m @ take n (bits_of_byte (of_nat ub))))))"
  have blen: "sha2.blen = 64" by (simp add: sha2.blen_def sha2_frame)
  have "v = fst (absorb_blocks 64 sha2.step (md_val sc) (?m @ sha2.padding (length ?m mod 64) (of_nat (length ?m)) ub n))"
    using sha2.message_digest [of sc ds ub n] assms(1,2)
    by (simp only: v_def sph_sha224_def sha2.inv_def blen)
  then have "v = w"
    using absorb_sha2_round [OF assms(3)] sha2_padding_bits [OF assms(5)]
    by (simp add: w_def sha2.step_def [abs_def])
  moreover have "length w = 8" using absorb_sha2_round [OF assms(3)] by (simp add: w_def)
  then have "map (\<lambda>u. rev (le_enc 4 (w ! u))) [0..<rnum] = map (\<lambda>v. rev (le_enc 4 v)) (take rnum w)"
    using assms(4) by (intro nth_equalityI) simp_all
  ultimately show ?thesis
    by (simp add: md_addbits_and_close_be32_def v_def [symmetric] fips_sha2_def w_def [symmetric]
        sph_encoders)
qed

lemma sha256_zeros:
  "(if length m mod 64 < 56 then 55 - length m mod 64 else 63 - length m mod 64 + 56) = (119 - length m mod 64) mod 64"
proof -
  have "(if l < 56 then 55 - l else 63 - l + 56) = (119 - l) mod 64" if "l < 64" for l :: nat
    using that by (auto simp: mod_if)
  from this [of "length m mod 64"] show ?thesis by simp
qed

lemma fips_sha2_sha256: "fips_sha2 H256 8 (bits_of_bytes m) = fips_sha256 m"
proof -
  have "sha2.padding (length m mod 64) (of_nat (length m)) 0 0 =
      0x80 # replicate ((119 - length m mod 64) mod 64) 0 @ rev (le_enc 8 (of_nat (8 * length m) :: u64))"
    unfolding sha256_zeros [of m, symmetric]
    by (simp add: sha2.padding_def sha2.blen_def sha2_frame md_first_pad_byte_def push_bit_eq_mult mult.commute)
  then have "bytes_of_bits (fips_pad (bits_of_bytes m)) =
      m @ 0x80 # replicate ((119 - length m mod 64) mod 64) 0 @ rev (le_enc 8 (of_nat (8 * length m) :: u64))"
    using sha2_padding_bits [of 0 m 0] by simp
  moreover have "H256 = initial_state" by (simp add: H256_def initial_state_def)
  moreover have "length (fst (absorb_blocks 64 fips_compress initial_state xs)) = 8" for xs
    using absorb_sha2_round [of initial_state xs] by simp
  ultimately show ?thesis by (simp only: fips_sha2_def fips_sha256_def take_all order.refl)
qed

lemma sph_init_ok:
  "md_val (sph_sha224_init sc) = H224" "md_val (sph_sha256_init sc) = H256"
  "md_count (sph_sha224_init sc) = 0" "md_count (sph_sha256_init sc) = 0"
  "md_buf (sph_sha224_init sc) = md_buf sc" "md_buf (sph_sha256_init sc) = md_buf sc"
  "length H224 = 8" "length H256 = 8"
  by (simp_all add: sph_sha224_init_def sph_sha256_init_def H224_def H256_def)

lemma sph_sha256_full_fips: "length (md_buf stack) = 64 \<Longrightarrow> sph_sha256_full stack m = fips_sha256 m"
  using sha2_addbits_fips [of "sph_sha256_init stack" 8 0 "[m]" 0]
  by (simp add: sph_sha256_full_def sph_sha256_close_def md_close_be32_def sph_init_ok fips_sha2_sha256)

lemma map_nth_16: "length w = 16 \<Longrightarrow> map (\<lambda>x. f (w ! x)) [0..<16] = map f w"
  by (rule nth_equalityI) simp_all

section \<open>Properties\<close>

text \<open>
  The unrolled compression with sixteen schedule words overwritten in place, rotating
  register names and a majority function that reuses the previous exclusive or computes the
  FIPS 180-4 compression, on blocks of bytes and on words of either byte order.
\<close>

theorem SHA2_ROUND_BODY_correct:
  assumes "length r = 8" and "length w = 16" and "64 \<le> length block"
  shows "sha2_round block r = fips_compress r block
    \<and> sph_sha256_transform_le w r = fips_compress_words r w
    \<and> sph_sha256_transform_be w r = fips_compress_words r (map sph_bswap32 w)"
  using assms(1,3)
  by (simp add: sha2_round_fips sph_sha256_transform_le_def sph_sha256_transform_be_def SHA2_ROUND_BODY_words
      map_nth_16 [OF assms(2)] map_nth_16 [OF assms(2), of "\<lambda>x. x", simplified] del: upt_rec_numeral)

theorem SHA2_ROUND_BODY_correct_witness:
  "sha2_round (replicate 64 7) H256 = fips_compress H256 (replicate 64 7)
    \<and> sph_sha256_transform_be (replicate 16 1) H256 = fips_compress_words H256 (replicate 16 (sph_bswap32 1))"
  using SHA2_ROUND_BODY_correct [of H256 "replicate 16 1" "replicate 64 7"] by (simp add: sph_init_ok)

text \<open>
  C7. SHA-224 and SHA-256 on bit strings: a context initialised over any memory, any sequence
  of updates and a close with up to seven further bits give the FIPS 180-4 digest of the
  concatenated bytes followed by those bits; the plain close gives the digest of the bytes, and so
  does the one-shot SHA-256 routine.
\<close>

theorem sph_sha2_streaming_correct:
  assumes "length (md_buf stack) = 64" and "n < 8"
  shows "fst (sph_sha224_addbits_and_close (foldl sph_sha224 (sph_sha224_init stack) chunks) ub n) =
      fips_sha2 H224 7 (bits_of_bytes (concat chunks) @ take n (bits_of_byte (of_nat ub)))
    \<and> fst (sph_sha256_addbits_and_close (foldl sph_sha224 (sph_sha256_init stack) chunks) ub n) =
      fips_sha2 H256 8 (bits_of_bytes (concat chunks) @ take n (bits_of_byte (of_nat ub)))
    \<and> fst (sph_sha224_close (foldl sph_sha224 (sph_sha224_init stack) chunks)) = fips_sha2 H224 7 (bits_of_bytes (concat chunks))
    \<and> fst (sph_sha256_close (foldl sph_sha224 (sph_sha256_init stack) chunks)) = fips_sha2 H256 8 (bits_of_bytes (concat chunks))
    \<and> sph_sha256_full stack (concat chunks) = fips_sha2 H256 8 (bits_of_bytes (concat chunks))"
proof -
  have d224: "fst (md_addbits_and_close_be32 sha2_config sha2_round (foldl sph_sha224 (sph_sha224_init stack) ds) b k 7) =
      fips_sha2 H224 7 (bits_of_bytes (concat ds) @ take k (bits_of_byte (of_nat b)))" if "k < 8" for ds b k
    using sha2_addbits_fips [of "sph_sha224_init stack" 7 k ds b] assms(1) that by (simp add: sph_init_ok)
  have d256: "fst (md_addbits_and_close_be32 sha2_config sha2_round (foldl sph_sha224 (sph_sha256_init stack) ds) b k 8) =
      fips_sha2 H256 8 (bits_of_bytes (concat ds) @ take k (bits_of_byte (of_nat b)))" if "k < 8" for ds b k
    using sha2_addbits_fips [of "sph_sha256_init stack" 8 k ds b] assms(1) that by (simp add: sph_init_ok)
  show ?thesis
    using d224 [OF assms(2), of chunks ub] d256 [OF assms(2), of chunks ub] d224 [of 0 chunks 0] d256 [of 0 chunks 0]
      d256 [of 0 "[concat chunks]" 0]
    by (simp add: sph_sha224_addbits_and_close_def sph_sha256_addbits_and_close_def sph_sha224_close_def sph_sha256_close_def
        sph_sha256_full_def md_close_be32_def)
qed

theorem sph_sha2_streaming_correct_witness:
  "fst (sph_sha256_addbits_and_close (foldl sph_sha224
      (sph_sha256_init \<lparr>md_buf = replicate 64 9, md_val = [], md_count = 5\<rparr>) [[1], [2, 3]]) 0xA0 3) =
    fips_sha2 H256 8 (bits_of_bytes [1, 2, 3] @ [True, False, True])"
  using sph_sha2_streaming_correct [of "\<lparr>md_buf = replicate 64 9, md_val = [], md_count = 5\<rparr>" 3 "[[1], [2, 3]]" "0xA0"]
  by (simp add: bits_of_byte_def)

text \<open>
  \<^verbatim>\<open>sha256d\<close> is SHA-256 applied twice, whatever the two uninitialised contexts on the stack
  contain, and it agrees with the streaming SHA-256 of the Panthera sources.
\<close>

theorem sha256d_correct:
  assumes "length (md_buf stack1) = 64" and "length (md_buf stack2) = 64" and "length (buf ctx) = 64"
  shows "sha256d stack1 stack2 data = fips_sha256 (fips_sha256 data)
    \<and> sph_sha256_full stack1 data = fst (SHA256_Final (SHA256_Update (SHA256_Init ctx) data))"
proof -
  have "fst (SHA256_Final (SHA256_Update (SHA256_Init ctx) data)) = fips_sha256 data"
    using SHA256_Init_view [OF assms(3)]
    by (simp add: SHA256_Final_def SHA256_Final_finish sha.inv_update sha.view_update sha256_finish_absorb)
  then show ?thesis using assms(1,2) by (simp add: sha256d_def sph_sha256_full_fips)
qed

theorem sha256d_correct_witness:
  "sha256d \<lparr>md_buf = replicate 64 1, md_val = [], md_count = 0\<rparr> \<lparr>md_buf = replicate 64 2, md_val = [], md_count = 9\<rparr> [7]
    = fips_sha256 (fips_sha256 [7])"
  using sha256d_correct [of "\<lparr>md_buf = replicate 64 1, md_val = [], md_count = 0\<rparr>"
      "\<lparr>md_buf = replicate 64 2, md_val = [], md_count = 9\<rparr>" "\<lparr>state = [], count = 0, buf = replicate 64 0\<rparr>" "[7]"]
  by simp

end
