(* ===== verification/Cpu_Scheduling.thy ===== *)
theory Cpu_Scheduling
  imports MoM_Prelude
begin

text \<open>
  CPU geometry and sampling of the native worker: \<^verbatim>\<open>native/cpu-scheduling.h\<close> chooses how many
  mining threads run and how many hashes each computes at once, from the L3 cache and the
  scratchpad size of the algorithm, and prints the choice as a device list;
  \<^verbatim>\<open>native/hashrate-sampling.h\<close> decides after which dispatch the hash rate is reported. All
  counters are 32-bit and wrap.
\<close>

section \<open>Thread batches\<close>

definition starts_with :: "string \<Rightarrow> string \<Rightarrow> bool" where
  "starts_with s p \<longleftrightarrow> take (length p) s = p"

datatype sched_error = Division_By_Zero

text \<open>
  The loop that gives every thread one batch. It never ends when the thread count is the
  largest unsigned value and the cache limit is never passed, so the result is optional.
\<close>

partial_function (option) fill_threads ::
  "u32 \<Rightarrow> u32 \<Rightarrow> u32 \<Rightarrow> u32 \<Rightarrow> u32 \<Rightarrow> u32 \<Rightarrow> u32 list \<Rightarrow> (u32 \<times> u32 list) option" where
  "fill_threads one thread_count l3cache batch_mem used_threads used_l3cache threads =
     (let used_threads = used_threads + 1
      in if used_threads \<le> thread_count then
           let used_l3cache = used_l3cache + batch_mem
           in if used_l3cache \<le> l3cache
              then fill_threads one thread_count l3cache batch_mem used_threads used_l3cache (threads @ [one])
              else Some (used_l3cache, threads)
         else Some (used_l3cache, threads))"

text \<open>One pass of the loop that increases the batches: the cache in use, the batches, whether any grew.\<close>

fun raise_pass :: "u32 \<Rightarrow> u32 \<Rightarrow> u32 \<Rightarrow> u32 \<Rightarrow> u32 list \<Rightarrow> u32 \<times> u32 list \<times> bool" where
  "raise_pass max_cpu_batch l3cache batch_mem used [] = (used, [], False)"
| "raise_pass max_cpu_batch l3cache batch_mem used (i # threads) =
     (if i < max_cpu_batch then
        let used = used + batch_mem
        in if used \<le> l3cache then
             let (used, threads, updated) = raise_pass max_cpu_batch l3cache batch_mem used threads
             in (used, (i + 1) # threads, True)
           else
             let (used, threads, updated) = raise_pass max_cpu_batch l3cache batch_mem used threads
             in (used, i # threads, updated)
      else
        let (used, threads, updated) = raise_pass max_cpu_batch l3cache batch_mem used threads
        in (used, i # threads, updated))"

definition headroom_left :: "u32 \<Rightarrow> u32 list \<Rightarrow> nat" where
  "headroom_left max_cpu_batch threads = sum_list (map (\<lambda>i. unat max_cpu_batch - unat i) threads)"

lemma unat_add_one: "i < m \<Longrightarrow> unat (i + 1) = unat (i :: 'a::len word) + 1"
proof -
  assume "i < m"
  then have "unat i + 1 < 2 ^ LENGTH('a)"
    using unsigned_less [of m, where ?'a = nat] by (simp only: word_less_nat_alt)
  then show ?thesis by (simp add: unat_word_ariths)
qed

lemma raise_pass_headroom:
  assumes "raise_pass m l b u ts = (u', ts', updated)"
  shows "headroom_left m ts' \<le> headroom_left m ts \<and> (updated \<longrightarrow> headroom_left m ts' < headroom_left m ts)"
  using assms
proof (induction m l b u ts arbitrary: u' ts' updated rule: raise_pass.induct)
  case (2 m l b u i ts)
  show ?case
  proof (cases "i < m")
    case True
    obtain v vs f where r: "raise_pass m l b (u + b) ts = (v, vs, f)" by (rule prod_cases3)
    have "unat (i + 1) = unat i + 1" using True by (rule unat_add_one)
    with True have "unat m - unat (i + 1) < unat m - unat i" by (simp add: word_less_nat_alt)
    then show ?thesis
      using "2.IH"(1,2) [OF True refl] "2.prems" True r
      by (cases "u + b \<le> l") (auto simp: headroom_left_def Let_def)
  next
    case False
    obtain v vs f where r: "raise_pass m l b u ts = (v, vs, f)" by (rule prod_cases3)
    then show ?thesis using "2.IH"(3) [OF False r] "2.prems" False by (auto simp: headroom_left_def)
  qed
qed (simp add: headroom_left_def)

function raise_batches :: "u32 \<Rightarrow> u32 \<Rightarrow> u32 \<Rightarrow> u32 \<Rightarrow> u32 list \<Rightarrow> u32 list" where
  "raise_batches max_cpu_batch l3cache batch_mem used threads =
     (if used < l3cache then
        let (used, threads, updated) = raise_pass max_cpu_batch l3cache batch_mem used threads
        in if updated then raise_batches max_cpu_batch l3cache batch_mem used threads else threads
      else threads)"
  by pat_completeness auto
termination
  by (relation "measure (\<lambda>(m, l, b, u, ts). headroom_left m ts)") (auto dest: raise_pass_headroom [OF sym])

declare raise_batches.simps [simp del]

definition cpu_thread_batches ::
  "string \<Rightarrow> u32 \<Rightarrow> u32 \<Rightarrow> u32 \<Rightarrow> u32 \<Rightarrow> u32 \<Rightarrow> (sched_error + u32 list) option" where
  "cpu_thread_batches algo max_cpu_batch socket_count thread_count l3cache batch_mem =
     (if starts_with algo ''rx/'' then
        if batch_mem = 0 \<or> socket_count = 0 then Some (Inl Division_By_Zero)
        else Some (Inr (replicate (unat socket_count)
               (max 1 (min thread_count (l3cache div batch_mem) div socket_count))))
      else
        case fill_threads (if algo = ''ghostrider'' then 8 else 1) thread_count l3cache batch_mem 0 0 [] of
          None \<Rightarrow> None
        | Some (used, threads) \<Rightarrow>
            let threads = (if starts_with algo ''argon2/'' then threads
                           else raise_batches max_cpu_batch l3cache batch_mem used threads)
            in Some (Inr (if threads = [] then [1] else threads)))"

section \<open>Device lists\<close>

function to_string :: "nat \<Rightarrow> string" where
  "to_string n = (if n < 10 then [char_of (48 + n)] else to_string (n div 10) @ [char_of (48 + n mod 10)])"
  by pat_completeness auto
termination by (relation "measure id") auto

declare to_string.simps [simp del]

definition add_result_dev :: "string \<Rightarrow> string \<Rightarrow> string" where
  "add_result_dev result_dev add_str =
     (if result_dev \<noteq> [] then result_dev @ '','' else result_dev) @ add_str"

text \<open>The lambda \<^verbatim>\<open>add_last_dev\<close> with the captured variables: the list, the batch and its count.\<close>

fun add_last_dev :: "string \<times> u32 \<times> u32 \<Rightarrow> string \<times> u32 \<times> u32" where
  "add_last_dev (result_dev, prev_batch, same) =
     (if same = 0 \<or> prev_batch = 0 then (result_dev, prev_batch, same)
      else
        let result_dev = add_result_dev result_dev
              (''cpu'' @ (if prev_batch \<noteq> 1 then ''*'' @ to_string (unat prev_batch) else ''''));
            result_dev = (if same \<noteq> 1 then result_dev @ ''^'' @ to_string (unat same) else result_dev)
        in (result_dev, prev_batch, 0))"

fun group_step :: "string \<times> u32 \<times> u32 \<Rightarrow> u32 \<Rightarrow> string \<times> u32 \<times> u32" where
  "group_step (result_dev, prev_batch, same) batch =
     (let (result_dev, prev_batch, same) =
        (if same \<noteq> 0 \<and> prev_batch \<noteq> batch then add_last_dev (result_dev, prev_batch, same)
         else (result_dev, prev_batch, same))
      in (result_dev, batch, same + 1))"

definition append_grouped_cpu_devs :: "string \<Rightarrow> u32 list \<Rightarrow> string" where
  "append_grouped_cpu_devs result_dev threads = fst (add_last_dev (foldl group_step (result_dev, 0, 0) threads))"

section \<open>Hash rate sampling\<close>

definition hashrate_check_due :: "u64 \<Rightarrow> bool \<Rightarrow> u32 \<Rightarrow> u32 \<Rightarrow> bool \<times> u32" where
  "hashrate_check_due completed_hashes is_gpu remaining cpu_interval =
     (if completed_hashes = 0 then (False, remaining)
      else if is_gpu \<or> remaining \<le> 1 then (True, cpu_interval)
      else (False, remaining - 1))"

section \<open>The batches fill the cache\<close>

text \<open>\<open>k\<close> increments spread over \<open>n\<close> threads that start with \<open>b\<close>: the first threads get one more.\<close>

definition spread :: "nat \<Rightarrow> nat \<Rightarrow> nat \<Rightarrow> u32 list" where
  "spread n b k = replicate (k mod n) (of_nat (b + k div n + 1)) @ replicate (n - k mod n) (of_nat (b + k div n))"

lemma spread_0: "0 < n \<Longrightarrow> spread n b 0 = replicate n (of_nat b)"
  by (simp add: spread_def)

lemma spread_small: "k < n \<Longrightarrow> spread n b k = replicate k (of_nat (b + 1)) @ replicate (n - k) (of_nat b)"
  by (simp add: spread_def)

lemma spread_round: "0 < n \<Longrightarrow> spread n (b + 1) k = spread n b (n + k)"
  by (simp add: spread_def div_add_self1)

lemma of_nat_le_u32: "a < 2 ^ 32 \<Longrightarrow> b < 2 ^ 32 \<Longrightarrow> (of_nat a :: u32) \<le> of_nat b \<longleftrightarrow> a \<le> b"
  by (simp add: word_le_nat_alt unat_of_nat)

lemma of_nat_less_u32: "a < 2 ^ 32 \<Longrightarrow> b < 2 ^ 32 \<Longrightarrow> (of_nat a :: u32) < of_nat b \<longleftrightarrow> a < b"
  by (simp add: word_less_nat_alt unat_of_nat)

text \<open>The caches in use are multiples of the scratchpad size, so the limit is a number of scratchpads.\<close>

lemma fits_iff: "0 < M \<Longrightarrow> (u * M \<le> C) = (u \<le> C div M)" for u M C :: nat
  by (simp add: less_eq_div_iff_mult_less_eq)

lemma fill_threads_correct:
  assumes "0 < M" and "C + M < 2 ^ 32" and "T < 2 ^ 32 - 1" and "k \<le> min T (C div M)"
  shows "\<exists>used. fill_threads one (of_nat T) (of_nat C) (of_nat M) (of_nat k) (of_nat (k * M)) ts =
      Some (of_nat (used * M), ts @ replicate (min T (C div M) - k) one) \<and>
    (used = min T (C div M) \<or> C div M < T \<and> used = C div M + 1)"
  using assms(4)
proof (induction "min T (C div M) - k" arbitrary: k ts)
  case (Suc x)
  then have k: "k + 1 \<le> T" "k + 1 \<le> C div M" by simp_all
  have le: "(k + 1) * M \<le> C" using fits_iff [OF assms(1), of "k + 1" C] k(2) by simp
  have "of_nat k + 1 \<le> (of_nat T :: u32)"
    using of_nat_le_u32 [of "k + 1" T] k(1) assms(3) by (simp add: add.commute)
  moreover have "of_nat (k * M) + of_nat M \<le> (of_nat C :: u32)"
    using of_nat_le_u32 [of "(k + 1) * M" C] le assms(2) by (simp add: add.commute)
  ultimately have step: "fill_threads one (of_nat T) (of_nat C) (of_nat M) (of_nat k) (of_nat (k * M)) ts =
      fill_threads one (of_nat T) (of_nat C) (of_nat M) (of_nat (k + 1)) (of_nat ((k + 1) * M)) (ts @ [one])"
    by (simp add: fill_threads.simps [of one _ _ _ "of_nat k"] add.commute)
  have rep: "replicate (min T (C div M) - k) one = one # replicate (min T (C div M) - (k + 1)) one"
    using k by (cases "min T (C div M) - k") (auto simp: min_def split: if_splits)
  show ?case
    unfolding step rep using Suc.hyps(1) [of "k + 1" "ts @ [one]"] Suc.hyps(2) k by simp
next
  case 0
  then have k: "k = min T (C div M)" by simp
  show ?case
  proof (cases "T \<le> C div M")
    case True
    then have "\<not> of_nat k + 1 \<le> (of_nat T :: u32)"
      using of_nat_le_u32 [of "k + 1" T] k assms(3) by (simp add: add.commute)
    then show ?thesis
      using k True by (intro exI [of _ k], subst fill_threads.simps) (simp del: of_nat_mult)
  next
    case False
    then have "of_nat k + 1 \<le> (of_nat T :: u32)"
      using of_nat_le_u32 [of "k + 1" T] k assms(3) by (simp add: add.commute)
    moreover have "(k + 1) * M \<le> C + M" using k False fits_iff [OF assms(1), of k C] by simp
    moreover have "\<not> (k + 1) * M \<le> C" using fits_iff [OF assms(1), of "k + 1" C] k False by simp
    ultimately have "of_nat k + 1 \<le> (of_nat T :: u32) \<and> \<not> of_nat (k * M) + of_nat M \<le> (of_nat C :: u32)"
      using of_nat_le_u32 [of "(k + 1) * M" C] assms(2) by (simp add: add.commute)
    then show ?thesis
      using k False by (intro exI [of _ "k + 1"], subst fill_threads.simps) (simp add: add.commute)
  qed
qed

lemma raise_pass_at_limit:
  "m \<le> b \<Longrightarrow> raise_pass m l x u (replicate n b) = (u, replicate n b, False)"
  by (induction n) (simp_all add: leD)

lemma raise_pass_correct:
  assumes "0 < M" and "C < 2 ^ 32" and "b < m" and "m < 2 ^ 32" and "(u + n) * M < 2 ^ 32"
  shows "raise_pass (of_nat m) (of_nat C) (of_nat M) (of_nat (u * M)) (replicate n (of_nat b)) =
    (of_nat ((u + n) * M),
     replicate (min n (C div M - u)) (of_nat (b + 1)) @ replicate (n - min n (C div M - u)) (of_nat b),
     0 < min n (C div M - u))"
  using assms(5)
proof (induction n arbitrary: u)
  case (Suc n)
  have room: "of_nat b < (of_nat m :: u32)" using of_nat_less_u32 [of b m] assms(3,4) by simp
  have "(u + 1) * M \<le> (u + Suc n) * M" by (rule mult_le_mono1) simp
  then have "(u + 1) * M < 2 ^ 32" using Suc.prems by linarith
  then have fits: "of_nat ((u + 1) * M) \<le> (of_nat C :: u32) \<longleftrightarrow> u < C div M"
    using of_nat_le_u32 [of "(u + 1) * M" C] fits_iff [OF assms(1), of "u + 1" C] assms(2) by auto
  have next_used: "of_nat (u * M) + of_nat M = (of_nat ((u + 1) * M) :: u32)" by (simp add: add.commute)
  have IH: "raise_pass (of_nat m) (of_nat C) (of_nat M) (of_nat ((u + 1) * M)) (replicate n (of_nat b)) =
    (of_nat ((u + Suc n) * M),
     replicate (min n (C div M - (u + 1))) (of_nat (b + 1)) @ replicate (n - min n (C div M - (u + 1))) (of_nat b),
     0 < min n (C div M - (u + 1)))"
    using Suc.IH [of "u + 1"] Suc.prems by simp
  show ?case
  proof (cases "u < C div M")
    case True
    then have "min (Suc n) (C div M - u) = Suc (min n (C div M - (u + 1)))" by simp
    then show ?thesis
      using True room fits IH by (simp only: replicate_Suc raise_pass.simps next_used Let_def if_True split) 
        (simp add: add.commute)
  next
    case False
    then have z: "min (Suc n) (C div M - u) = 0" "min n (C div M - (u + 1)) = 0" by simp_all
    show ?thesis
      using False room fits IH unfolding z by (simp only: replicate_Suc raise_pass.simps next_used Let_def if_True if_False split)
        simp
  qed
qed simp

lemma raise_batches_correct:
  assumes "0 < M" and "2 * C < 2 ^ 32" and "m < 2 ^ 32" and "0 < n" and "n \<le> C div M"
    and "u \<le> C div M" and "b < 2 ^ 32"
  shows "raise_batches (of_nat m) (of_nat C) (of_nat M) (of_nat (u * M)) (replicate n (of_nat b)) =
    spread n b (min (C div M - u) (n * (m - b)))"
  using assms(6,7)
proof (induction "m - b" arbitrary: b u)
  case 0
  have "raise_pass (of_nat m) (of_nat C) (of_nat M) (of_nat (u * M)) (replicate n (of_nat b)) =
      (of_nat (u * M), replicate n (of_nat b), False)"
    using of_nat_le_u32 [of m b] 0 assms(3) by (intro raise_pass_at_limit) simp
  moreover have "spread n b (min (C div M - u) (n * (m - b))) = replicate n (of_nat b)"
    using spread_0 [OF assms(4)] 0 by simp
  ultimately show ?case
    by (subst raise_batches.simps) (simp del: of_nat_mult)
next
  case (Suc x)
  let ?q = "C div M"
  have bm: "b < m" using Suc.hyps(2) by simp
  have grow: "n * (m - b) = n + n * (m - (b + 1))" using bm by (simp add: Suc_diff_Suc [symmetric])
  have uM: "u * M \<le> C" using fits_iff [OF assms(1), of u C] Suc.prems(1) by simp
  have "n * M \<le> C" using fits_iff [OF assms(1), of n C] assms(5) by simp
  then have bound: "(u + n) * M < 2 ^ 32" using uM assms(2) by (simp add: add_mult_distrib)
  note pass = raise_pass_correct [OF assms(1) _ bm assms(3) bound]
  have C: "C < 2 ^ 32" using assms(2) by simp
  show ?case
  proof (cases "u * M < C")
    case False
    then have "C = u * M" using uM by simp
    then have "u = ?q" using assms(1) by simp
    have "\<not> of_nat (u * M) < (of_nat C :: u32)" using \<open>C = u * M\<close> by simp
    then show ?thesis
      using \<open>u = ?q\<close> spread_0 [OF assms(4)] by (subst raise_batches.simps) (simp del: of_nat_mult)
  next
    case True
    define j where "j = min n (?q - u)"
    define ts where "ts = replicate j (of_nat (b + 1)) @ replicate (n - j) (of_nat b :: u32)"
    have p: "raise_pass (of_nat m) (of_nat C) (of_nat M) (of_nat (u * M)) (replicate n (of_nat b)) =
        (of_nat ((u + n) * M), ts, 0 < j)"
      unfolding ts_def j_def by (rule pass [OF C])
    have lt: "of_nat (u * M) < (of_nat C :: u32)" using of_nat_less_u32 [of "u * M" C] uM C True by simp
    have unf: "raise_batches (of_nat m) (of_nat C) (of_nat M) (of_nat (u * M)) (replicate n (of_nat b)) =
        (if 0 < j then raise_batches (of_nat m) (of_nat C) (of_nat M) (of_nat ((u + n) * M)) ts else ts)"
      using p lt by (subst raise_batches.simps) (simp del: of_nat_mult of_nat_add)
    show ?thesis
    proof (cases "n \<le> ?q - u")
      case True
      then have "ts = replicate n (of_nat (b + 1))" "0 < j" using assms(4) by (simp_all add: ts_def j_def)
      moreover have "raise_batches (of_nat m) (of_nat C) (of_nat M) (of_nat ((u + n) * M)) (replicate n (of_nat (b + 1))) =
          spread n (b + 1) (min (?q - (u + n)) (n * (m - (b + 1))))"
        using Suc.hyps(1) [of "b + 1" "u + n"] Suc.hyps(2) True assms(3,4) bm by simp
      moreover have "min (?q - u) (n * (m - b)) = n + min (?q - (u + n)) (n * (m - (b + 1)))"
        using True unfolding grow by simp
      ultimately show ?thesis unfolding unf by (simp add: spread_round [OF assms(4), simplified])
    next
      case False
      then have j: "j = ?q - u" "j < n" by (simp_all add: j_def)
      have "?q < u + n" using False by simp
      then have "C < (u + n) * M" using fits_iff [OF assms(1), of "u + n" C] by simp
      then have "\<not> of_nat ((u + n) * M) < (of_nat C :: u32)"
        using of_nat_less_u32 [of "(u + n) * M" C] bound C by simp
      then have "raise_batches (of_nat m) (of_nat C) (of_nat M) (of_nat ((u + n) * M)) ts = ts"
        by (subst raise_batches.simps) (simp del: of_nat_mult of_nat_add)
      moreover have "min (?q - u) (n * (m - b)) = j" using j unfolding grow by simp
      ultimately show ?thesis unfolding unf using spread_small [OF j(2)] by (simp add: ts_def)
    qed
  qed
qed

text \<open>What the function computes, in unbounded arithmetic.\<close>

definition batches_spec :: "bool \<Rightarrow> nat \<Rightarrow> nat \<Rightarrow> nat \<Rightarrow> nat \<Rightarrow> u32 list" where
  "batches_spec grow one max_batch threads pads =
     (let n = min threads pads
      in if n = 0 then [1] else spread n one (if grow then min (pads - n) (n * (max_batch - one)) else 0))"

lemma cpu_thread_batches_spec:
  assumes "\<not> starts_with algo ''rx/''" and "0 < batch_mem" and "thread_count \<noteq> -1"
    and "2 * unat l3cache + unat batch_mem < 2 ^ 32"
  shows "cpu_thread_batches algo max_cpu_batch socket_count thread_count l3cache batch_mem =
    Some (Inr (batches_spec (\<not> starts_with algo ''argon2/'') (if algo = ''ghostrider'' then 8 else 1)
      (unat max_cpu_batch) (unat thread_count) (unat l3cache div unat batch_mem)))"
proof -
  define C M T m where "C = unat l3cache" and "M = unat batch_mem" and "T = unat thread_count" and "m = unat max_cpu_batch"
  define one where "one = (if algo = ''ghostrider'' then 8 else 1 :: nat)"
  have w: "l3cache = of_nat C" "batch_mem = of_nat M" "thread_count = of_nat T" "max_cpu_batch = of_nat m"
    by (simp_all add: C_def M_def T_def m_def)
  have M: "0 < M" using assms(2) by (simp add: M_def word_less_nat_alt)
  have "T \<noteq> 2 ^ 32 - 1"
  proof
    assume "T = 2 ^ 32 - 1"
    then have "thread_count = of_nat (2 ^ 32 - 1)" using w(3) by simp
    then show False using assms(3) by simp
  qed
  then have T: "T < 2 ^ 32 - 1" using unsigned_less [of thread_count, where ?'a = nat] by (simp add: T_def)
  have m: "m < 2 ^ 32" using unsigned_less [of max_cpu_batch, where ?'a = nat] by (simp add: m_def)
  have lim: "2 * C + M < 2 ^ 32" using assms(4) by (simp add: C_def M_def)
  let ?n = "min T (C div M)"
  have CM: "C + M < 2 ^ 32" using lim by simp
  obtain used where fill: "fill_threads (of_nat one) (of_nat T) (of_nat C) (of_nat M) 0 0 [] =
      Some (of_nat (used * M), replicate ?n (of_nat one))"
    and used: "used = ?n \<or> C div M < T \<and> used = C div M + 1"
    using fill_threads_correct [OF M CM T, of 0 "of_nat one" "[]"] by auto
  have raised: "raise_batches (of_nat m) (of_nat C) (of_nat M) (of_nat (used * M)) (replicate ?n (of_nat one)) =
      spread ?n one (min (C div M - ?n) (?n * (m - one)))" if n: "0 < ?n"
    using used
  proof
    assume "used = ?n"
    then show ?thesis using raise_batches_correct [of M C m ?n ?n one] M lim m n by (simp add: one_def)
  next
    assume u: "C div M < T \<and> used = C div M + 1"
    then have "C < used * M" using fits_iff [OF M, of used C] by simp
    moreover have "used * M \<le> C + M" using u fits_iff [OF M, of "C div M" C] by simp
    ultimately have "\<not> of_nat (used * M) < (of_nat C :: u32)"
      using of_nat_less_u32 [of "used * M" C] lim by simp
    then show ?thesis
      using u n spread_0 [OF n] by (subst raise_batches.simps) (simp del: of_nat_mult of_nat_add)
  qed
  have nil: "raise_batches (of_nat m) (of_nat C) (of_nat M) v [] = []" for v
    by (subst raise_batches.simps) simp
  have one: "(if algo = ''ghostrider'' then 8 else 1) = (of_nat one :: u32)" by (simp add: one_def)
  have nonempty: "spread ?n one k \<noteq> []" if "0 < ?n" for k
    using mod_less_divisor [OF that, of k] unfolding spread_def by (simp only: append_is_Nil_conv replicate_empty) linarith
  have u: "unat (of_nat C :: u32) = C" "unat (of_nat M :: u32) = M" "unat (of_nat T :: u32) = T" "unat (of_nat m :: u32) = m"
    using lim T m by (simp_all add: unat_of_nat)
  show ?thesis
    unfolding cpu_thread_batches_def one_def [symmetric] w one u
    using assms(1) fill raised nil nonempty spread_0 [of ?n one]
    by (cases "?n = 0") (auto simp: batches_spec_def Let_def min_def simp del: of_nat_mult)
qed

lemma length_spread: "0 < n \<Longrightarrow> length (spread n b k) = n"
  using mod_less_divisor [of n k] by (simp add: spread_def less_imp_le)

lemma spread_quotient:
  fixes n k d :: nat
  assumes "0 < n" and "k \<le> n * d"
  shows "k div n \<le> d" and "k mod n \<noteq> 0 \<Longrightarrow> k div n < d"
proof -
  show "k div n \<le> d" using assms div_le_mono [of k "n * d" n] by simp
  show "k div n < d" if "k mod n \<noteq> 0"
  proof (rule ccontr)
    assume "\<not> k div n < d"
    then have "n * d \<le> n * (k div n)" by simp
    then have "k \<le> n * (k div n)" using assms(2) by linarith
    then show False using that mult_div_mod_eq [of n k] by linarith
  qed
qed

lemma unat_spread:
  assumes "0 < n" and "k \<le> n * d" and "b + d < 2 ^ 32"
  shows "map unat (spread n b k) = replicate (k mod n) (b + k div n + 1) @ replicate (n - k mod n) (b + k div n)"
proof -
  have "b + k div n < 2 ^ 32" "k mod n \<noteq> 0 \<Longrightarrow> b + k div n + 1 < 2 ^ 32"
    using spread_quotient [OF assms(1,2)] assms(3) by linarith+
  then show ?thesis
    unfolding spread_def by (cases "k mod n = 0") (simp_all add: unat_of_nat del: of_nat_add of_nat_Suc)
qed

lemma spread_elements:
  assumes "0 < n" and "k \<le> n * d" and "b + d < 2 ^ 32" and "x \<in> set (spread n b k)"
  shows "b + k div n \<le> unat x \<and> unat x \<le> b + k div n + 1 \<and> unat x \<le> b + d"
proof -
  have "unat x \<in> set (map unat (spread n b k))" using assms(4) by simp
  then show ?thesis
    unfolding unat_spread [OF assms(1-3)] using spread_quotient [OF assms(1,2)] by auto
qed

lemma sum_spread:
  assumes "0 < n" and "k \<le> n * d" and "b + d < 2 ^ 32"
  shows "sum_list (map unat (spread n b k)) = n * b + k"
proof -
  define q r where "q = k div n" and "r = k mod n"
  have "r * (b + q + 1) + (n - r) * (b + q) = (r + (n - r)) * (b + q) + r"
    by (simp add: add_mult_distrib)
  also have "\<dots> = n * (b + q) + r" using mod_less_divisor [OF assms(1), of k] by (simp add: r_def)
  also have "\<dots> = n * b + (n * q + r)" by (simp add: add_mult_distrib2)
  finally show ?thesis
    unfolding unat_spread [OF assms] q_def [symmetric] r_def [symmetric]
    by (simp add: sum_list_replicate q_def r_def)
qed

lemma batches_spec_resources:
  assumes "max_batch < 2 ^ 32" and "0 < one" and "one < 2 ^ 32"
    and ts_def: "ts = batches_spec grow one max_batch threads pads"
  shows "length ts = max 1 (min threads pads)"
    and "\<forall>a \<in> set ts. 1 \<le> unat a \<and> unat a \<le> max one max_batch"
    and "\<forall>a \<in> set ts. \<forall>b \<in> set ts. unat a \<le> unat b + 1"
    and "sum_list (map unat ts) \<le> max 1 pads + (one - 1) * length ts"
proof -
  define n where "n = min threads pads"
  define k where "k = (if grow then min (pads - n) (n * (max_batch - one)) else 0)"
  have "length ts = max 1 n \<and> (\<forall>a \<in> set ts. 1 \<le> unat a \<and> unat a \<le> max one max_batch)
    \<and> (\<forall>a \<in> set ts. \<forall>b \<in> set ts. unat a \<le> unat b + 1)
    \<and> sum_list (map unat ts) \<le> max 1 pads + (one - 1) * length ts"
  proof (cases "n = 0")
    case True
    then have "ts = [1]" by (simp add: ts_def batches_spec_def n_def [symmetric])
    then show ?thesis using True assms(2) by (simp add: Suc_leI le_max_iff_disj)
  next
    case False
    then have n: "0 < n" by simp
    have ts: "ts = spread n one k" using False by (simp add: ts_def batches_spec_def n_def [symmetric] k_def [symmetric])
    have k: "k \<le> n * (max_batch - one)" "one + (max_batch - one) < 2 ^ 32" "k \<le> pads - n"
      using assms(1,3) by (simp_all add: k_def)
    have el: "one + k div n \<le> unat x \<and> unat x \<le> one + k div n + 1 \<and> unat x \<le> one + (max_batch - one)"
      if "x \<in> set ts" for x
      using spread_elements [OF n k(1,2)] that by (simp add: ts)
    have "sum_list (map unat ts) = n + k + (one - 1) * n"
      using sum_spread [OF n k(1,2)] assms(2) by (simp add: ts algebra_simps)
    then have "sum_list (map unat ts) \<le> pads + (one - 1) * n" using k(3) by (simp add: n_def)
    moreover have "length ts = n" by (simp add: ts length_spread n)
    moreover have "\<forall>a \<in> set ts. 1 \<le> unat a \<and> unat a \<le> max one max_batch"
      using el assms(2) by (fastforce simp: max_def)
    moreover have "\<forall>a \<in> set ts. \<forall>b \<in> set ts. unat a \<le> unat b + 1"
      using el by (meson add_le_mono1 le_trans)
    ultimately show ?thesis using n by (simp add: max_def)
  qed
  then show "length ts = max 1 (min threads pads)" "\<forall>a \<in> set ts. 1 \<le> unat a \<and> unat a \<le> max one max_batch"
      "\<forall>a \<in> set ts. \<forall>b \<in> set ts. unat a \<le> unat b + 1"
      "sum_list (map unat ts) \<le> max 1 pads + (one - 1) * length ts"
    unfolding n_def by blast+
qed

section \<open>Device lists describe the batches\<close>

text \<open>
  The meaning of a device list: entries separated by commas, an entry \<^verbatim>\<open>cpu*b^c\<close> stands for
  \<open>c\<close> threads of batch \<open>b\<close>, and both suffixes default to one.
\<close>

definition digits_value :: "string \<Rightarrow> nat" where
  "digits_value s = foldl (\<lambda>v c. 10 * v + (of_char c - 48)) 0 s"

definition is_digit :: "char \<Rightarrow> bool" where
  "is_digit c \<longleftrightarrow> c \<in> set ''0123456789''"

fun suffix_value :: "char \<Rightarrow> string \<Rightarrow> nat \<times> string" where
  "suffix_value m (c # s) =
     (if c = m then (digits_value (takeWhile is_digit s), dropWhile is_digit s)
      else (1, c # s))"
| "suffix_value m [] = (1, [])"

definition entry_threads :: "string \<Rightarrow> nat list" where
  "entry_threads e =
     (let (b, r) = suffix_value CHR ''*'' (drop 3 e); (c, r) = suffix_value CHR ''^'' r in replicate c b)"

fun split_commas :: "string \<Rightarrow> string list" where
  "split_commas [] = [[]]"
| "split_commas (c # s) =
     (if c = CHR '','' then [] # split_commas s else (c # hd (split_commas s)) # tl (split_commas s))"

definition devs_threads :: "string \<Rightarrow> nat list" where
  "devs_threads s = (if s = [] then [] else concat (map entry_threads (split_commas s)))"

lemma to_string_digits: "set (to_string n) \<subseteq> set ''0123456789''"
proof (induction n rule: to_string.induct)
  case (1 n)
  have d: "char_of (48 + k) \<in> set ''0123456789''" if "k < 10" for k :: nat
  proof -
    have "k \<in> {0, 1, 2, 3, 4, 5, 6, 7, 8, 9}" using that by auto
    then show ?thesis by (elim insertE emptyE) (simp_all add: char_of_def bit_Suc_0_iff)
  qed
  show ?case using 1 d [of n] d [of "n mod 10"] by (cases "n < 10") (simp_all add: to_string.simps [of n])
qed

lemma digits_value_to_string [simp]: "digits_value (to_string n) = n"
proof (induction n rule: to_string.induct)
  case (1 n)
  show ?case
    using 1 by (cases "n < 10") (simp_all add: to_string.simps [of n] digits_value_def)
qed

lemma split_commas_not_Nil [simp]: "split_commas s \<noteq> []"
  by (cases s) auto

lemma split_commas_append: "split_commas (s @ CHR '','' # t) = split_commas s @ split_commas t"
  by (induction s) simp_all

lemma split_commas_single: "CHR '','' \<notin> set e \<Longrightarrow> split_commas e = [e]"
  by (induction e) auto

lemma devs_threads_add:
  assumes "CHR '','' \<notin> set e" and "e \<noteq> []"
  shows "devs_threads (add_result_dev res e) = devs_threads res @ entry_threads e"
  using assms by (simp add: devs_threads_def add_result_dev_def split_commas_append split_commas_single)

lemma takeWhile_digits:
  assumes "r = [] \<or> \<not> is_digit (hd r)"
  shows "takeWhile is_digit (to_string n @ r) = to_string n"
    and "dropWhile is_digit (to_string n @ r) = r"
proof -
  have "\<And>c. c \<in> set (to_string n) \<Longrightarrow> is_digit c" using to_string_digits by (auto simp: is_digit_def simp del: set_simps)
  moreover have "takeWhile is_digit r = []" "dropWhile is_digit r = r"
    using assms by (cases r, simp_all)+
  ultimately show "takeWhile is_digit (to_string n @ r) = to_string n"
      "dropWhile is_digit (to_string n @ r) = r"
    by (simp_all only: takeWhile_append2 dropWhile_append2 append_Nil2)
qed

lemma suffix_value_present:
  "r = [] \<or> \<not> is_digit (hd r) \<Longrightarrow> suffix_value m (m # to_string n @ r) = (n, r)"
  by (simp add: takeWhile_digits)

lemma entry_threads_printed:
  "entry_threads (''cpu'' @ (if b \<noteq> 1 then ''*'' @ to_string b else '''') @ (if c \<noteq> 1 then ''^'' @ to_string c else '''')) =
    replicate c b"
proof -
  have hat: "suffix_value CHR ''^'' (CHR ''^'' # to_string c) = (c, [])"
    using suffix_value_present [of "[]" "CHR ''^''" c] by simp
  have star: "suffix_value CHR ''*'' (CHR ''*'' # to_string b @ r) = (b, r)" if "r = [] \<or> hd r = CHR ''^''" for r
    using suffix_value_present [of r "CHR ''*''" b] that by (auto simp: is_digit_def)
  have none: "suffix_value CHR ''*'' (CHR ''^'' # to_string c) = (1, CHR ''^'' # to_string c)" by simp
  show ?thesis
    using none hat star [of "[]"] star [of "CHR ''^'' # to_string c"]
    by (cases "b = 1"; cases "c = 1") (simp_all add: entry_threads_def del: suffix_value.simps(1))
qed

lemma add_last_dev_threads:
  assumes "same \<noteq> 0" and "prev \<noteq> 0"
  shows "add_last_dev (res, prev, same) = (fst (add_last_dev (res, prev, same)), prev, 0)
    \<and> devs_threads (fst (add_last_dev (res, prev, same))) = devs_threads res @ replicate (unat same) (unat prev)"
proof -
  let ?e = "''cpu'' @ (if unat prev \<noteq> 1 then ''*'' @ to_string (unat prev) else '''') @
      (if unat same \<noteq> 1 then ''^'' @ to_string (unat same) else '''')"
  have one: "unat w = 1 \<longleftrightarrow> w = 1" for w :: u32 by (metis unsigned_1 unsigned_word_eqI)
  have "fst (add_last_dev (res, prev, same)) = add_result_dev res ?e"
    using assms by (simp add: add_result_dev_def one del: One_nat_def)
  moreover have "CHR '','' \<notin> set ?e"
    using to_string_digits [of "unat prev"] to_string_digits [of "unat same"] by auto
  ultimately have "devs_threads (fst (add_last_dev (res, prev, same))) = devs_threads res @ entry_threads ?e"
    using devs_threads_add [of ?e res] by simp
  then show ?thesis unfolding entry_threads_printed using assms by (simp add: Let_def)
qed

lemma group_devs_threads:
  assumes "\<forall>b \<in> set ts. b \<noteq> 0" and "unat same + length ts < 2 ^ 32" and "same = 0 \<or> prev \<noteq> 0"
  shows "devs_threads (fst (add_last_dev (foldl group_step (res, prev, same) ts))) =
    devs_threads res @ replicate (unat same) (unat prev) @ map unat ts"
  using assms
proof (induction ts arbitrary: res prev same)
  case Nil
  then show ?case using add_last_dev_threads [of same prev res] by (cases "same = 0") simp_all
next
  case (Cons b ts)
  have b: "b \<noteq> 0" using Cons.prems(1) by simp
  show ?case
  proof (cases "same \<noteq> 0 \<and> prev \<noteq> b")
    case True
    define res' where "res' = fst (add_last_dev (res, prev, same))"
    have l: "add_last_dev (res, prev, same) = (res', prev, 0)"
        "devs_threads res' = devs_threads res @ replicate (unat same) (unat prev)"
      using add_last_dev_threads [of same prev res] True Cons.prems(3) by (auto simp: res'_def)
    have "group_step (res, prev, same) b = (res', b, 1)"
      using True l(1) by (simp del: add_last_dev.simps)
    moreover have "unat (1 :: u32) + length ts < 2 ^ 32" using Cons.prems(2) by simp
    ultimately show ?thesis
      using Cons.IH [of 1 b res'] Cons.prems(1) b l(2) by (simp del: add_last_dev.simps group_step.simps)
  next
    case False
    have "unat (same + 1) = unat same + 1" using Cons.prems(2) by (simp add: unat_word_ariths)
    moreover have "group_step (res, prev, same) b = (res, b, same + 1)"
      using False by (cases "same = 0") (simp_all del: add_last_dev.simps)
    moreover have "replicate (unat same) (unat prev) = replicate (unat same) (unat b)"
      using False by (cases "same = 0") auto
    ultimately show ?thesis
      using Cons.IH [of "same + 1" b res] Cons.prems b
      by (simp add: replicate_append_same [symmetric] del: add_last_dev.simps group_step.simps)
  qed
qed

section \<open>Runs of the sampler\<close>

text \<open>A worker's dispatches, each with its number of hashes and whether it ran on a GPU: the reports due.\<close>

fun sampling_run :: "u32 \<Rightarrow> u32 \<Rightarrow> (u64 \<times> bool) list \<Rightarrow> bool list" where
  "sampling_run cpu_interval remaining [] = []"
| "sampling_run cpu_interval remaining ((hashes, is_gpu) # ds) =
     (let (due, remaining) = hashrate_check_due hashes is_gpu remaining cpu_interval
      in due # sampling_run cpu_interval remaining ds)"

lemma length_sampling_run [simp]: "length (sampling_run iv r ds) = length ds"
  by (induction iv r ds rule: sampling_run.induct) (simp_all split: prod.split)

lemma unat_pred: "\<not> r \<le> 1 \<Longrightarrow> unat (r - 1) = unat (r :: u32) - 1 \<and> 1 < unat r"
  using unat_minus_one [of r] by (cases "r = 0") (simp_all add: word_le_nat_alt)

lemma sampling_run_due:
  assumes "max 1 (unat r) \<le> length (filter (\<lambda>(h, g). h \<noteq> 0) ds)"
  shows "True \<in> set (sampling_run iv r ds)"
  using assms
proof (induction ds arbitrary: r)
  case (Cons d ds)
  obtain h g where d: "d = (h, g)" by fastforce
  show ?case
  proof (cases "h = 0 \<or> g \<or> r \<le> 1")
    case True
    then show ?thesis using Cons d by (cases "h = 0") (auto simp: hashrate_check_due_def)
  next
    case False
    then have "unat (r - 1) = unat r - 1" "1 < unat r" using unat_pred [of r] by simp_all
    then have "True \<in> set (sampling_run iv (r - 1) ds)"
      using Cons.IH [of "r - 1"] Cons.prems False d by auto
    then show ?thesis using False d by (simp add: hashrate_check_due_def)
  qed
qed simp

lemma sampling_run_phase:
  assumes "\<forall>(h, g) \<in> set ds. h \<noteq> 0 \<and> \<not> g" and "0 < r" and "r \<le> iv" and "i < length ds"
  shows "sampling_run iv r ds ! i \<longleftrightarrow> unat iv dvd i + 1 + (unat iv - unat r)"
  using assms
proof (induction ds arbitrary: r i)
  case (Cons d ds)
  obtain h g where d: "d = (h, g)" "h \<noteq> 0" "\<not> g" using Cons.prems(1) by fastforce
  have r: "0 < unat r" "unat r \<le> unat iv" using Cons.prems(2,3) by (simp_all add: word_less_nat_alt word_le_nat_alt)
  show ?case
  proof (cases "r \<le> 1")
    case True
    then have r1: "unat r = 1" using r by (simp add: word_le_nat_alt)
    have "0 < iv" "iv \<le> iv" using r by (simp_all add: word_less_nat_alt)
    note IH = Cons.IH [OF _ this]
    show ?thesis
    proof (cases i)
      case 0
      then show ?thesis using True d r r1 by (simp add: hashrate_check_due_def)
    next
      case (Suc j)
      have "unat iv dvd j + 1 \<longleftrightarrow> unat iv dvd Suc j + 1 + (unat iv - 1)"
        using r r1 dvd_add_left_iff [of "unat iv" "unat iv" "j + 1"] by (simp add: add.commute)
      then show ?thesis
        using IH [of j] Cons.prems(1,4) True d r r1 Suc by (simp add: hashrate_check_due_def)
    qed
  next
    case False
    then have m: "unat (r - 1) = unat r - 1" "1 < unat r" using unat_pred [of r] by simp_all
    then have r': "0 < r - 1" "r - 1 \<le> iv" using r by (simp_all add: word_less_nat_alt word_le_nat_alt)
    show ?thesis
    proof (cases i)
      case 0
      then show ?thesis
        using False d r m nat_dvd_not_less [of "1 + (unat iv - unat r)" "unat iv"]
        by (simp add: hashrate_check_due_def)
    next
      case (Suc j)
      have "j + 1 + (unat iv - unat (r - 1)) = Suc j + 1 + (unat iv - unat r)" using r m by simp
      then show ?thesis
        using Cons.IH [OF _ r', of j] Cons.prems(1,4) False d Suc by (simp add: hashrate_check_due_def)
    qed
  qed
qed simp

text \<open>Dispatches without hashes leave no trace, GPU dispatches start a new interval.\<close>

lemma sampling_run_zero:
  "sampling_run iv r (xs @ (0, g) # ys) =
     (let due = sampling_run iv r (xs @ ys) in take (length xs) due @ False # drop (length xs) due)"
proof (induction xs arbitrary: r)
  case Nil
  then show ?case by (simp add: hashrate_check_due_def)
next
  case (Cons x xs)
  then show ?case by (cases x) (simp add: Let_def split: prod.split)
qed

lemma sampling_run_gpu:
  assumes "h \<noteq> 0"
  shows "sampling_run iv r (xs @ (h, True) # ys) = sampling_run iv r xs @ True # sampling_run iv iv ys"
proof (induction xs arbitrary: r)
  case Nil
  then show ?case using assms by (simp add: hashrate_check_due_def)
next
  case (Cons x xs)
  then show ?case by (cases x) (simp split: prod.split)
qed

section \<open>Properties\<close>



text \<open>
  C18. Resources, for every algorithm outside RandomX, a thread count below the largest unsigned
  value and caches up to about 2 GiB. The chosen batches never need more L3 cache than there is
  (one scratchpad is used even when none fits), never more threads than the machine has, and
  differ by at most one between threads. Every batch is at least one and at most the batch limit;
  only a GhostRider thread, which starts with eight hashes in one scratchpad, may exceed a limit below eight.
\<close>

theorem cpu_thread_batches_resources:
  assumes "\<not> starts_with algo ''rx/''" and "0 < batch_mem" and "thread_count \<noteq> -1"
    and "2 * unat l3cache + unat batch_mem < 2 ^ 32"
  shows "\<exists>threads. cpu_thread_batches algo max_cpu_batch socket_count thread_count l3cache batch_mem = Some (Inr threads)
    \<and> threads \<noteq> [] \<and> length threads \<le> max 1 (unat thread_count)
    \<and> (let first = (if algo = ''ghostrider'' then 8 else 1)
        in sum_list (map unat threads) * unat batch_mem
             \<le> max (unat l3cache) (unat batch_mem) + (first - 1) * length threads * unat batch_mem
         \<and> (\<forall>a \<in> set threads. 1 \<le> unat a \<and> unat a \<le> max first (unat max_cpu_batch)))
    \<and> (\<forall>a \<in> set threads. \<forall>b \<in> set threads. unat a \<le> unat b + 1)"
proof -
  let ?M = "unat batch_mem" and ?C = "unat l3cache"
  define first where "first = (if algo = ''ghostrider'' then 8 else 1 :: nat)"
  define ts where "ts = batches_spec (\<not> starts_with algo ''argon2/'') first (unat max_cpu_batch) (unat thread_count) (?C div ?M)"
  have m: "unat max_cpu_batch < 2 ^ 32" using unsigned_less [of max_cpu_batch, where ?'a = nat] by simp
  have f: "0 < first" "first < 2 ^ 32" by (simp_all add: first_def)
  note res = batches_spec_resources [OF m f ts_def]
  have "sum_list (map unat ts) * ?M \<le> (max 1 (?C div ?M) + (first - 1) * length ts) * ?M" using res(4) by (rule mult_le_mono1)
  also have "\<dots> \<le> max ?C ?M + (first - 1) * length ts * ?M"
  proof (cases "?C div ?M \<le> 1")
    case True
    then show ?thesis by (simp add: add_mult_distrib)
  next
    case False
    then have "max 1 (?C div ?M) * ?M \<le> ?C" using div_times_less_eq_dividend [of ?C ?M] by (simp add: max_def)
    then show ?thesis by (simp only: add_mult_distrib)
  qed
  finally have mem: "sum_list (map unat ts) * ?M \<le> max ?C ?M + (first - 1) * length ts * ?M" .
  have "cpu_thread_batches algo max_cpu_batch socket_count thread_count l3cache batch_mem = Some (Inr ts)"
    using cpu_thread_batches_spec [OF assms] by (simp add: ts_def first_def)
  moreover have "ts \<noteq> []" "length ts \<le> max 1 (unat thread_count)" using res(1) by auto
  ultimately show ?thesis unfolding first_def [symmetric] Let_def using mem res(2,3) by (intro exI [of _ ts]) simp
qed

theorem cpu_thread_batches_resources_witness:
  "\<exists>threads. cpu_thread_batches ''cn/0'' 5 1 8 33554432 2097152 = Some (Inr threads)
    \<and> sum_list (map unat threads) * 2097152 \<le> 33554432 \<and> length threads \<le> 8"
  using cpu_thread_batches_resources [of "''cn/0''" 2097152 8 33554432 5 1] by (auto simp: starts_with_def)

text \<open>
  C27. RandomX: a zero scratchpad size or socket count is the division error; otherwise there is
  one process per socket, all with the same batch. The batch is the largest one with which the
  sockets together need no more threads than there are and no more scratchpads than fit into
  the cache, or one when even a batch of two would need more.
\<close>

theorem cpu_thread_batches_randomx:
  assumes "starts_with algo ''rx/''"
  shows "(batch_mem = 0 \<or> socket_count = 0 \<longrightarrow>
      cpu_thread_batches algo max_cpu_batch socket_count thread_count l3cache batch_mem = Some (Inl Division_By_Zero))
    \<and> (batch_mem \<noteq> 0 \<and> socket_count \<noteq> 0 \<longrightarrow>
      (\<exists>b. cpu_thread_batches algo max_cpu_batch socket_count thread_count l3cache batch_mem =
          Some (Inr (replicate (unat socket_count) b)) \<and> 0 < unat b \<and>
        (\<forall>k > 1. k \<le> unat b \<longleftrightarrow> unat socket_count * k \<le> unat thread_count \<and>
          unat socket_count * k * unat batch_mem \<le> unat l3cache)))"
proof -
  define b where "b = max 1 (min thread_count (l3cache div batch_mem) div socket_count)"
  let ?q = "unat l3cache div unat batch_mem" and ?s = "unat socket_count"
  have ub: "unat b = max 1 (min (unat thread_count) ?q div ?s)"
    by (simp add: b_def max_def min_def word_le_nat_alt unat_div)
  have "k \<le> unat b \<longleftrightarrow> ?s * k \<le> unat thread_count \<and> ?s * k * unat batch_mem \<le> unat l3cache"
    if "1 < k" and pos: "batch_mem \<noteq> 0" "socket_count \<noteq> 0" for k
  proof -
    have "k \<le> unat b \<longleftrightarrow> k \<le> min (unat thread_count) ?q div ?s" using that(1) by (auto simp: ub)
    also have "\<dots> \<longleftrightarrow> ?s * k \<le> min (unat thread_count) ?q"
      using pos(2) by (simp add: less_eq_div_iff_mult_less_eq unat_gt_0 mult.commute)
    also have "\<dots> \<longleftrightarrow> ?s * k \<le> unat thread_count \<and> ?s * k * unat batch_mem \<le> unat l3cache"
      using pos(1) by (simp add: less_eq_div_iff_mult_less_eq unat_gt_0)
    finally show ?thesis .
  qed
  moreover have "0 < unat b" by (simp add: ub)
  ultimately show ?thesis using assms by (auto simp: cpu_thread_batches_def b_def [symmetric])
qed

theorem cpu_thread_batches_randomx_witness:
  "cpu_thread_batches ''rx/0'' 1 2 8 8388608 2097152 = Some (Inr [2, 2])
    \<and> cpu_thread_batches ''rx/0'' 1 0 8 8388608 2097152 = Some (Inl Division_By_Zero)"
proof -
  have rx: "starts_with ''rx/0'' ''rx/''" by (simp add: starts_with_def)
  obtain b :: u32 where b: "cpu_thread_batches ''rx/0'' 1 2 8 8388608 2097152 = Some (Inr (replicate 2 b))"
    and k: "\<forall>k > 1. k \<le> unat b \<longleftrightarrow> 2 * k \<le> 8 \<and> 2 * k * 2097152 \<le> 8388608"
    using cpu_thread_batches_randomx [OF rx, of 2097152 2 1 8 8388608] by auto
  have "2 \<le> unat b" "\<not> 3 \<le> unat b" using k [rule_format, of 2] k [rule_format, of 3] by simp_all
  then have "unat b = unat (2 :: u32)" by simp
  then have "b = 2" by (simp only: unsigned_word_eqI)
  then show ?thesis
    using b cpu_thread_batches_randomx [OF rx, of 2097152 0 1 8 8388608] by (simp add: numeral_2_eq_2)
qed

text \<open>
  C29. Round trip: the printed device list, read back as runs of equal batches, is the list of
  batches, appended to whatever the list described before.
\<close>

theorem append_grouped_cpu_devs_round_trip:
  assumes "\<forall>b \<in> set threads. b \<noteq> 0" and "length threads < 2 ^ 32"
  shows "devs_threads (append_grouped_cpu_devs result_dev threads) = devs_threads result_dev @ map unat threads"
  using group_devs_threads [of threads 0 0 result_dev] assms by (simp add: append_grouped_cpu_devs_def)

theorem append_grouped_cpu_devs_round_trip_witness:
  "devs_threads (append_grouped_cpu_devs [] [2, 2, 1]) = [2, 2, 1]"
  using append_grouped_cpu_devs_round_trip [of "[2, 2, 1]" "[]"] by (simp add: devs_threads_def)

text \<open>
  C28. Sampling. A dispatch without hashes is never a sample and does not change what the others
  do; a GPU dispatch with hashes always is one and starts a new interval; as soon as the
  dispatches with hashes number the remaining count a report is due; and on a run of CPU
  dispatches from a fresh interval the reports are due exactly at the multiples of the interval.
\<close>

theorem hashrate_sampling:
  assumes "max 1 (unat r) \<le> length (filter (\<lambda>(h, g). h \<noteq> 0) ds)" and "h \<noteq> 0"
    and "\<forall>(h, g) \<in> set cpu. h \<noteq> 0 \<and> \<not> g" and "0 < interval" and "i < length cpu"
  shows "sampling_run interval q (before @ (0, g) # rest) =
      (let due = sampling_run interval q (before @ rest) in take (length before) due @ False # drop (length before) due)
    \<and> sampling_run interval q (before @ (h, True) # rest) =
      sampling_run interval q before @ True # sampling_run interval interval rest
    \<and> True \<in> set (sampling_run interval r ds)
    \<and> (sampling_run interval interval cpu ! i \<longleftrightarrow> unat interval dvd i + 1)"
  using sampling_run_zero sampling_run_gpu [OF assms(2)] sampling_run_due [OF assms(1)] sampling_run_phase [OF assms(3,4) _ assms(5)]
  by simp

theorem hashrate_sampling_witness:
  "sampling_run 2 2 [(1, False), (0, True), (1, False), (5, True), (1, False)] = [False, False, True, True, False]"
proof -
  have zero: "sampling_run 2 2 ([(1, False)] @ (0, True) # [(1, False), (5, True), (1, False)]) =
      (let due = sampling_run 2 2 ([(1, False)] @ [(1, False), (5, True), (1, False)]) in take 1 due @ False # drop 1 due)"
    and gpu: "sampling_run 2 2 ([(1, False), (1, False)] @ (5, True) # [(1, False)]) =
      sampling_run 2 2 [(1, False), (1, False)] @ True # sampling_run 2 2 [(1, False)]"
    using hashrate_sampling [of 2 "[(1, False), (1, False)]" 5 "[(1, False), (1, False)]" 2 0 2 "[(1, False)]" True "[(1, False), (5, True), (1, False)]"]
      hashrate_sampling [of 2 "[(1, False), (1, False)]" 5 "[(1, False), (1, False)]" 2 0 2 "[(1, False), (1, False)]" True "[(1, False)]"]
    by simp_all
  have "\<not> sampling_run 2 2 [(1, False), (1, False)] ! 0" "sampling_run 2 2 [(1, False), (1, False)] ! 1"
    "\<not> sampling_run 2 2 [(1, False)] ! 0"
    using hashrate_sampling [of 2 "[(1, False), (1, False)]" 5 "[(1, False), (1, False)]" 2 0]
      hashrate_sampling [of 2 "[(1, False), (1, False)]" 5 "[(1, False), (1, False)]" 2 1]
      hashrate_sampling [of 2 "[(1, False), (1, False)]" 5 "[(1, False)]" 2 0]
    by simp_all
  moreover have "length (sampling_run 2 2 [(1, False), (1, False)]) = 2" "length (sampling_run 2 2 [(1, False)]) = 1"
    by (simp_all only: length_sampling_run list.size)
  ultimately have "sampling_run 2 2 [(1, False), (1, False)] = [False, True]" "sampling_run 2 2 [(1, False)] = [False]"
    by (auto simp: length_Suc_conv numeral_2_eq_2)
  with zero gpu show ?thesis by simp
qed

end
