(* ===== verification/Gpu_Capacity.thy ===== *)
theory Gpu_Capacity
  imports Job_Boundary
begin

text \<open>
  The host-side arithmetic that sizes GPU work: \<^verbatim>\<open>sycl/pow-intensity.h\<close> (device profiles, PearlHash
  allocation footprints, dispatch intensity), \<^verbatim>\<open>sycl/workgroup-limits.h\<close>, \<^verbatim>\<open>sycl/cn_gpu/launch.h\<close>,
  \<^verbatim>\<open>sycl/cn_gpu/reductions.h\<close> (its integer part), \<^verbatim>\<open>sycl/pearlhash/claim.h\<close>,
  \<^verbatim>\<open>sycl/pearlhash/esimd_route.h\<close> and \<^verbatim>\<open>sycl/kawpow/epoch.h\<close>. Every quantity has the width it has
  in the source (\<^verbatim>\<open>size_t\<close> is 64 bits wide) and wraps; a division by zero is the value \<open>None\<close>.
\<close>

section \<open>Device profiles and PearlHash allocations\<close>

definition kMiB :: u64 where
  "kMiB = push_bit 20 1"

definition kGiB :: u64 where
  "kGiB = push_bit 30 1"

definition round_down_to_multiple :: "u32 \<Rightarrow> u32 \<Rightarrow> u32 option" where
  "round_down_to_multiple v step = (if step = 0 then None else Some (v - v mod step))"

record PowDeviceProfile =
  compute_units :: u32
  global_mem :: u64
  dev_max_alloc :: u64

record pearlhash_profile_t =
  shape_m :: u32
  shape_n :: u32
  shape_k :: u32
  shape_rank :: u32

definition pearlhash_intel_capability_profile ::
  "u32 \<Rightarrow> bool \<Rightarrow> bool \<Rightarrow> u64 \<Rightarrow> u32 \<Rightarrow> pearlhash_profile_t" where
  "pearlhash_intel_capability_profile simd_width level_zero_gpu discrete_gpu mem execution_units =
     (let ordinary = \<lparr>shape_m = 131072, shape_n = 131072, shape_k = 2048, shape_rank = 128\<rparr>
      in if \<not> level_zero_gpu \<or> \<not> discrete_gpu \<or> mem < 8 * kGiB then ordinary
         else if simd_width = 16 then \<lparr>shape_m = 131072, shape_n = 131072, shape_k = 4096, shape_rank = 128\<rparr>
         else if simd_width = 8 then
           \<lparr>shape_m = 131072 * (if 512 \<le> execution_units then 4 else if 256 \<le> execution_units then 2 else 1),
            shape_n = 131072, shape_k = 2048, shape_rank = 128\<rparr>
         else ordinary)"

definition pearlhash_result_allocation_bytes :: u64 where
  "pearlhash_result_allocation_bytes = 64"

definition pearlhash_runtime_reserve_bytes :: u64 where
  "pearlhash_runtime_reserve_bytes = 512 * kMiB"

record PearlHashAllocationCounts =
  cnt_m_rank :: u64
  cnt_n_rank :: u64
  cnt_m_k :: u64
  cnt_n_k :: u64
  cnt_cva_bytes :: u64
  cnt_cvb_bytes :: u64
  cnt_max_alloc :: u64
  cnt_total_bytes :: u64

definition no_counts :: PearlHashAllocationCounts where
  "no_counts = \<lparr>cnt_m_rank = 0, cnt_n_rank = 0, cnt_m_k = 0, cnt_n_k = 0,
     cnt_cva_bytes = 0, cnt_cvb_bytes = 0, cnt_max_alloc = 0, cnt_total_bytes = 0\<rparr>"

definition cv_bytes :: "u64 \<Rightarrow> u64" where
  "cv_bytes x = (2 * (x div 1024 + (if x mod 1024 \<noteq> 0 then 1 else 0)) + 2) * 32"

text \<open>The return value and the final value of \<^verbatim>\<open>out\<close>.\<close>

definition pearlhash_allocation_counts ::
  "pearlhash_profile_t \<Rightarrow> bool \<Rightarrow> bool \<times> PearlHashAllocationCounts" where
  "pearlhash_allocation_counts shape hip_jit =
     (if \<not> valid_pearlhash_shape (ucast (shape_m shape)) (ucast (shape_n shape)) (ucast (shape_k shape))
           (ucast (shape_rank shape)) then (False, no_counts)
      else
        let m_rank = ucast (shape_m shape) * ucast (shape_rank shape);
            n_rank = ucast (shape_n shape) * ucast (shape_rank shape);
            m_k = ucast (shape_m shape) * ucast (shape_k shape);
            n_k = ucast (shape_n shape) * ucast (shape_k shape);
            cva_bytes = cv_bytes m_k;
            cvb_bytes = cv_bytes n_k;
            noise_bytes = ucast (shape_k shape) * 4;
            largest = foldl max m_rank [n_rank, m_k, n_k, cva_bytes, cvb_bytes, noise_bytes,
              pearlhash_result_allocation_bytes];
            size_max = (- 1 :: u64)
        in if size_max < largest then (False, no_counts)
           else
             let total = m_rank + 2 * n_rank + m_k + n_k + cva_bytes + cvb_bytes + 4 * noise_bytes + 4 * 32 +
                   pearlhash_result_allocation_bytes + (if hip_jit then m_k + n_k else 0)
             in (True, \<lparr>cnt_m_rank = m_rank, cnt_n_rank = n_rank, cnt_m_k = m_k, cnt_n_k = n_k,
                   cnt_cva_bytes = cva_bytes, cnt_cvb_bytes = cvb_bytes, cnt_max_alloc = largest,
                   cnt_total_bytes = total\<rparr>))"

definition pearlhash_required_memory_fits :: "PowDeviceProfile \<Rightarrow> pearlhash_profile_t \<Rightarrow> bool" where
  "pearlhash_required_memory_fits device shape \<longleftrightarrow>
     (let (valid, counts) = pearlhash_allocation_counts shape False
      in dev_max_alloc device \<noteq> 0 \<and> pearlhash_runtime_reserve_bytes \<le> global_mem device \<and> valid \<and>
         cnt_max_alloc counts \<le> dev_max_alloc device \<and>
         cnt_total_bytes counts \<le> global_mem device - pearlhash_runtime_reserve_bytes)"

definition pearlhash_optional_allocation_fits ::
  "PowDeviceProfile \<Rightarrow> PearlHashAllocationCounts \<Rightarrow> u64 \<Rightarrow> bool" where
  "pearlhash_optional_allocation_fits device required optional_bytes \<longleftrightarrow>
     dev_max_alloc device \<noteq> 0 \<and> optional_bytes \<le> dev_max_alloc device \<and>
     pearlhash_runtime_reserve_bytes \<le> global_mem device \<and>
     cnt_total_bytes required \<le> global_mem device - pearlhash_runtime_reserve_bytes \<and>
     optional_bytes \<le> global_mem device - pearlhash_runtime_reserve_bytes - cnt_total_bytes required"

definition pearlhash_capacity_profile :: "PowDeviceProfile \<Rightarrow> pearlhash_profile_t \<Rightarrow> pearlhash_profile_t" where
  "pearlhash_capacity_profile device preferred =
     (if global_mem device = 0 \<or> dev_max_alloc device = 0 then preferred
      else if pearlhash_required_memory_fits device preferred then preferred
      else
        let compact = \<lparr>shape_m = 65536, shape_n = 65536, shape_k = 4096, shape_rank = 256\<rparr>
        in if pearlhash_required_memory_fits device compact then compact
           else \<lparr>shape_m = 0, shape_n = 0, shape_k = 0, shape_rank = 0\<rparr>)"

section \<open>Dispatch intensity\<close>

record PowIntensityScale =
  fallback_workgroup :: u32
  base_work_items :: u32
  compute_unit_divisor :: u32

record PowIntensityHeuristic =
  h_compact :: PowIntensityScale
  h_balanced :: PowIntensityScale
  h_wide :: PowIntensityScale
  max_work_items_per_gib :: u32

definition progpow_intensity_heuristic :: PowIntensityHeuristic where
  "progpow_intensity_heuristic =
     \<lparr>h_compact = \<lparr>fallback_workgroup = 256, base_work_items = 16384, compute_unit_divisor = 48\<rparr>,
      h_balanced = \<lparr>fallback_workgroup = 256, base_work_items = 32768, compute_unit_divisor = 48\<rparr>,
      h_wide = \<lparr>fallback_workgroup = 256, base_work_items = 32768, compute_unit_divisor = 36\<rparr>,
      max_work_items_per_gib = 4\<rparr>"

definition pow_device_score :: "PowDeviceProfile \<Rightarrow> nat option" where
  "pow_device_score profile =
     (if compute_units profile = 0 then None
      else
        let mem_per_cu = global_mem profile div ucast (compute_units profile)
        in Some ((if 128 \<le> compute_units profile then 2 else if 64 \<le> compute_units profile then 1 else 0) +
                 (if 8 * kGiB \<le> global_mem profile then 2 else if 6 * kGiB \<le> global_mem profile then 1 else 0) +
                 (if 2 * kGiB \<le> dev_max_alloc profile then 1 else 0) +
                 (if 48 * kMiB \<le> mem_per_cu then 1 else 0)))"

definition select_pow_intensity_scale ::
  "PowDeviceProfile \<Rightarrow> PowIntensityHeuristic \<Rightarrow> PowIntensityScale option" where
  "select_pow_intensity_scale profile heuristic =
     (case pow_device_score profile of
        None \<Rightarrow> None
      | Some score \<Rightarrow>
          Some (if 5 \<le> score then h_wide heuristic else if 3 \<le> score then h_balanced heuristic
                else h_compact heuristic))"

definition pow_intensity :: "PowDeviceProfile \<Rightarrow> PowIntensityHeuristic \<Rightarrow> u32 \<Rightarrow> u32 \<Rightarrow> u32 option" where
  "pow_intensity profile heuristic loc explicit_max =
     (case select_pow_intensity_scale profile heuristic of
        None \<Rightarrow> None
      | Some scale \<Rightarrow>
          if compute_unit_divisor scale = 0 then None
          else
            let intensity64 = ucast loc * ucast (base_work_items scale) * ucast (compute_units profile) :: u64;
                intensity64 = intensity64 div ucast (compute_unit_divisor scale);
                per_gib = (if explicit_max \<noteq> 0 then explicit_max else max_work_items_per_gib heuristic);
                intensity64 =
                  (if per_gib \<noteq> 0 then
                     let memory_depth_cap = max 1 (global_mem profile div kGiB) * ucast per_gib * kMiB
                     in min intensity64 memory_depth_cap
                   else intensity64);
                intensity64 = min intensity64 (ucast (- 1 :: u32))
            in case round_down_to_multiple (ucast intensity64) loc of
                 None \<Rightarrow> None
               | Some intensity \<Rightarrow> Some (max intensity (loc * 4096)))"

section \<open>Launch limits\<close>

definition mom_subgroup_supports_team :: "u64 \<Rightarrow> u32 \<Rightarrow> bool" where
  "mom_subgroup_supports_team subgroup team_size \<longleftrightarrow>
     team_size \<noteq> 0 \<and> ucast team_size \<le> subgroup \<and> subgroup mod ucast team_size = 0"

definition mom_workgroup_fits :: "u32 \<Rightarrow> u64 \<Rightarrow> u64 \<Rightarrow> u64 \<Rightarrow> u64 \<Rightarrow> u64 \<Rightarrow> u64 \<Rightarrow> u32 \<Rightarrow> bool" where
  "mom_workgroup_fits workgroup max_workgroup max_work_items local_bytes fixed_local_bytes
       local_bytes_per_item local_bytes_per_team team_size \<longleftrightarrow>
     (if workgroup = 0 \<or> max_workgroup < ucast workgroup \<or> max_work_items < ucast workgroup \<or>
         local_bytes < fixed_local_bytes \<or> team_size = 0 \<or> workgroup mod team_size \<noteq> 0 then False
      else
        let available = local_bytes - fixed_local_bytes;
            teams = workgroup div team_size
        in if available div ucast teams < local_bytes_per_team then False
           else
             let available = available - local_bytes_per_team * ucast teams
             in local_bytes_per_item \<le> available div ucast workgroup)"

definition cn_gpu_lanes_per_hash :: u32 where
  "cn_gpu_lanes_per_hash = 16"

definition cn_gpu_intel_backend :: "bool \<Rightarrow> bool \<Rightarrow> string" where
  "cn_gpu_intel_backend needs_opencl all_native_width8 =
     (if needs_opencl then ''sycl-opencl'' else if all_native_width8 then ''sycl-native'' else ''sycl-l0'')"

definition cn_gpu_padded_batch :: "u32 \<Rightarrow> u32" where
  "cn_gpu_padded_batch batch = (if batch \<noteq> 0 \<and> batch \<noteq> - 1 then (batch + 1) AND NOT 1 else 0)"

definition cn_gpu_intel_level_zero_batch :: "u32 \<Rightarrow> bool \<Rightarrow> u64 \<Rightarrow> u64 \<Rightarrow> u32 \<Rightarrow> u32" where
  "cn_gpu_intel_level_zero_batch cus native_width8 mem alloc requested_batch =
     (let reserve = push_bit 20 512;
          scratch_bytes = push_bit 20 2;
          bytes_per_hash = scratch_bytes + 200 + 135 + 32
      in if cus = 0 \<or> mem \<le> reserve \<or> alloc = 0 then 0
         else
           let capacity = min (min ((mem - reserve) div bytes_per_hash) (alloc div scratch_bytes))
                 (ucast (- 1 - 1 :: u32));
               even_capacity = (ucast capacity :: u32) AND NOT 1;
               default_batch = max 8 ((ucast cus * (if native_width8 then 8 else 3)) AND NOT 7);
               wanted = (if requested_batch \<noteq> 0 then ucast requested_batch else default_batch) :: u64
           in ucast (min wanted (ucast even_capacity)))"

definition cn_gpu_recurrence_group_size :: "bool \<Rightarrow> u32" where
  "cn_gpu_recurrence_group_size native_width8 = cn_gpu_lanes_per_hash * (if native_width8 then 1 else 2)"

definition cn_gpu_aes_group_rows :: "u32 \<Rightarrow> u32" where
  "cn_gpu_aes_group_rows padded_batch = (if padded_batch mod 4 = 0 then 4 else 2)"

section \<open>Reductions of the cn/gpu recurrence\<close>

text \<open>Arrays of 32-bit integers; the exclusive or does not depend on their sign.\<close>

definition cn_gpu_reduce_int :: "u32 list \<Rightarrow> nat \<Rightarrow> u32" where
  "cn_gpu_reduce_int raw lane =
     (let b = (lane div 4) * 16 + lane mod 4
      in raw ! b XOR raw ! (b + 4) XOR raw ! (b + 8) XOR raw ! (b + 12))"

definition cn_gpu_reduce_staged_int :: "u32 list \<Rightarrow> u32 list \<Rightarrow> nat \<Rightarrow> u32" where
  "cn_gpu_reduce_staged_int raw partials lane =
     (let load = (\<lambda>index. if index < 16 then partials ! index else raw ! index)
      in partials ! lane XOR load (lane + 4) XOR load (lane + 8) XOR load (lane + 12))"

section \<open>PearlHash claims and routes\<close>

text \<open>The loop over the factors; \<open>None\<close> is the return value false.\<close>

fun adjust_factors :: "u64 \<Rightarrow> u64 list \<Rightarrow> u64 option" where
  "adjust_factors factor [] = Some factor"
| "adjust_factors factor (v # vs) =
     (if v = 0 \<or> ucast (- 1 :: u32) div v < factor then None else adjust_factors (factor * v) vs)"

definition pearlhash_adjustment_factor :: "u64 \<Rightarrow> u64 \<Rightarrow> u64 \<Rightarrow> u64 \<Rightarrow> u32 option" where
  "pearlhash_adjustment_factor selected_rows selected_columns k rank =
     (if selected_rows = 0 \<or> selected_columns = 0 \<or> rank = 0 then None
      else
        let dot = k - k mod rank;
            steps = dot div rank
        in map_option ucast (adjust_factors selected_rows [selected_columns, steps, 128]))"

definition pearlhash_esimd_route :: "bool \<Rightarrow> bool \<Rightarrow> bool \<Rightarrow> bool \<Rightarrow> u32 \<Rightarrow> bool" where
  "pearlhash_esimd_route tuned_sycl supported_backend discrete_gpu intel_matrix dpas_width \<longleftrightarrow>
     tuned_sycl \<and> supported_backend \<and> discrete_gpu \<and> intel_matrix \<and> (dpas_width = 8 \<or> dpas_width = 16)"

definition pearlhash_dpasw_route :: "bool \<Rightarrow> u32 \<Rightarrow> bool \<Rightarrow> int \<Rightarrow> bool" where
  "pearlhash_dpasw_route esimd_allowed dpas_width dg2 rank \<longleftrightarrow>
     esimd_allowed \<and> dpas_width = 8 \<and> dg2 \<and> (rank = 128 \<or> rank = 256)"

definition pearlhash_wide_pipeline_route :: "u32 \<Rightarrow> int \<Rightarrow> int \<Rightarrow> bool" where
  "pearlhash_wide_pipeline_route dpas_width rank columns \<longleftrightarrow>
     dpas_width = 16 \<and> rank = 128 \<and> 0 < columns \<and> columns mod 64 = 0"

definition pearlhash_esimd_stripe_position :: "u32 \<Rightarrow> u32 \<Rightarrow> (u32 \<times> u32) option" where
  "pearlhash_esimd_stripe_position wi tiles_w =
     (let block = wi div 32; inner = wi mod 32;
          blocks_w = tiles_w div 2
      in if 4 * blocks_w = 0 then None
         else
           let stripe = block div (4 * blocks_w); within = block mod (4 * blocks_w)
           in Some ((4 * stripe + within mod 4) * 16 + inner div 2, (within div 4) * 2 + inner mod 2))"

section \<open>Epochs\<close>

definition FIROPOW_EPOCH_LENGTH :: u32 where
  "FIROPOW_EPOCH_LENGTH = 1300"

definition FIROPOW_TERMINAL_HEIGHT :: u32 where
  "FIROPOW_TERMINAL_HEIGHT = 1205100"

definition FIROPOW_TERMINAL_EPOCH :: u32 where
  "FIROPOW_TERMINAL_EPOCH = 650"

definition firopow_epoch :: "u32 \<Rightarrow> u32" where
  "firopow_epoch height =
     (if FIROPOW_TERMINAL_HEIGHT \<le> height then FIROPOW_TERMINAL_EPOCH else height div FIROPOW_EPOCH_LENGTH)"

section \<open>Wrapping arithmetic that does not wrap\<close>

lemma unat_ucast_u32 [simp]: "unat (ucast (w :: u32) :: u64) = unat w"
  by (rule unat_ucast_up) simp

lemma u32_bound: "unat (w :: u32) < 2 ^ 32"
  using unsigned_less [of w, where ?'a = nat] by simp

lemma u64_bound: "unat (w :: u64) < 2 ^ 64"
  using unsigned_less [of w, where ?'a = nat] by simp

lemma unat_mult_u32: "unat (ucast (a :: u32) * ucast (b :: u32) :: u64) = unat a * unat b"
proof -
  have "unat a * unat b < 2 ^ 32 * 2 ^ 32" by (intro mult_strict_mono u32_bound) simp_all
  then show ?thesis by (simp add: unat_word_ariths)
qed

lemma unat_mult_le: "unat a * unat b \<le> unat c \<Longrightarrow> unat (a * b) = unat a * unat (b :: u64)" for a b c :: u64
  using u64_bound [of c] by (simp add: unat_word_ariths)

lemma le_minus_iff: "b \<le> a \<Longrightarrow> c \<le> a - b \<longleftrightarrow> unat c + unat b \<le> unat a" for a b c :: u64
  by (auto simp: word_le_nat_alt unat_sub)

lemma le_div_word_iff: "c \<noteq> 0 \<Longrightarrow> a \<le> b div c \<longleftrightarrow> unat a * unat c \<le> unat b" for a b c :: u64
  by (simp add: word_le_nat_alt unat_div le_div_iff_mult unat_gt_0)

section \<open>Launch limits\<close>

lemma mom_workgroup_fits_iff:
  "mom_workgroup_fits w max_w max_i bytes fixed per_item per_team team \<longleftrightarrow>
     w \<noteq> 0 \<and> unat w \<le> unat max_w \<and> unat w \<le> unat max_i \<and> team \<noteq> 0 \<and> unat team dvd unat w \<and>
     unat fixed + unat per_team * (unat w div unat team) + unat per_item * unat w \<le> unat bytes"
proof (cases "w = 0 \<or> team = 0 \<or> w mod team \<noteq> 0 \<or> bytes < fixed")
  case True
  then show ?thesis
    by (auto simp: mom_workgroup_fits_def word_less_nat_alt word_unat_eq_iff [of "w mod team"] unat_mod dvd_eq_mod_eq_0)
next
  case False
  define teams where "teams = w div team"
  have t: "unat teams = unat w div unat team" by (simp add: teams_def unat_div)
  have dvd: "unat team dvd unat w" using False by (simp add: word_unat_eq_iff [of "w mod team"] unat_mod dvd_eq_mod_eq_0)
  then have "0 < unat teams"
    using False dvd_imp_le [OF dvd] unfolding t by (simp add: div_greater_zero_iff unat_gt_0)
  then have teams: "(ucast teams :: u64) \<noteq> 0" by (auto simp: word_unat_eq_iff)
  have w: "(ucast w :: u64) \<noteq> 0" using False by (auto simp: word_unat_eq_iff)
  define avail where "avail = bytes - fixed"
  have avail: "unat avail = unat bytes - unat fixed" "unat fixed \<le> unat bytes"
    using False by (simp_all add: avail_def unat_sub not_less word_le_nat_alt)
  have team_ok: "\<not> avail div ucast teams < per_team \<longleftrightarrow> unat per_team * unat teams \<le> unat avail"
    using le_div_word_iff [OF teams, of per_team avail] by (simp add: not_less)
  have item_ok: "per_item \<le> (avail - per_team * ucast teams) div ucast w \<longleftrightarrow>
      unat per_item * unat w + unat per_team * unat teams \<le> unat avail" if "unat per_team * unat teams \<le> unat avail"
  proof -
    have "unat (per_team * ucast teams) = unat per_team * unat teams"
      using unat_mult_le [of per_team "ucast teams" avail] that by simp
    moreover from this have "per_team * ucast teams \<le> avail" using that by (simp add: word_le_nat_alt)
    ultimately have "unat (avail - per_team * ucast teams) = unat avail - unat per_team * unat teams"
      by (simp add: unat_sub)
    then show ?thesis using le_div_word_iff [OF w, of per_item] that by auto
  qed
  have "mom_workgroup_fits w max_w max_i bytes fixed per_item per_team team \<longleftrightarrow>
      unat w \<le> unat max_w \<and> unat w \<le> unat max_i \<and> unat per_team * unat teams \<le> unat avail \<and>
      unat per_item * unat w + unat per_team * unat teams \<le> unat avail"
    using False team_ok item_ok
    by (auto simp: mom_workgroup_fits_def Let_def teams_def [symmetric] avail_def [symmetric] word_less_nat_alt)
  then show ?thesis using False dvd avail unfolding t by auto
qed

section \<open>PearlHash memory\<close>

definition shape_of :: "pearlhash_profile_t \<Rightarrow> bool" where
  "shape_of s \<longleftrightarrow> pearl_shape (unat (shape_m s)) (unat (shape_n s)) (unat (shape_k s)) (unat (shape_rank s))"

text \<open>The footprint in unbounded arithmetic: two chaining values of 32 bytes per KiB, rounded up.\<close>

definition cv_size :: "nat \<Rightarrow> nat" where
  "cv_size x = (2 * ((x + 1023) div 1024) + 2) * 32"

definition pearl_total :: "pearlhash_profile_t \<Rightarrow> bool \<Rightarrow> nat" where
  "pearl_total s hip =
     (let m = unat (shape_m s); n = unat (shape_n s); k = unat (shape_k s); r = unat (shape_rank s)
      in m * r + 2 * (n * r) + m * k + n * k + cv_size (m * k) + cv_size (n * k) + 16 * k + 192 +
         (if hip then m * k + n * k else 0))"

definition pearl_largest :: "pearlhash_profile_t \<Rightarrow> nat" where
  "pearl_largest s =
     (let m = unat (shape_m s); n = unat (shape_n s); k = unat (shape_k s); r = unat (shape_rank s)
      in foldl max (m * r) [n * r, m * k, n * k, cv_size (m * k), cv_size (n * k), 4 * k, 64])"

lemma unat_cv_bytes:
  assumes "unat x < 2 ^ 40"
  shows "unat (cv_bytes x) = cv_size (unat x) \<and> cv_size (unat x) < 2 ^ 37"
proof -
  define q where "q = (unat x + 1023) div 1024"
  have q: "q < 2 ^ 30 + 1" unfolding q_def using assms by (simp add: div_less_iff_less_mult)
  define y where "y = x div 1024 + (if x mod 1024 \<noteq> 0 then 1 else 0)"
  have "unat y = q"
  proof -
    have "unat x div 1024 < 2 ^ 30" using assms by (simp add: div_less_iff_less_mult)
    then have "unat (x div 1024 + (if x mod 1024 \<noteq> 0 then 1 else 0)) =
        unat x div 1024 + (if unat x mod 1024 \<noteq> 0 then 1 else 0)"
      by (simp add: unat_word_ariths unat_div word_unat_eq_iff [of "x mod 1024"] unat_mod)
    also have "(if unat x mod 1024 \<noteq> 0 then 1 else 0) = (unat x mod 1024 + 1023) div 1024"
      by (cases "unat x mod 1024 = 0") (simp_all add: div_nat_eqI)
    also have "unat x div 1024 + (unat x mod 1024 + 1023) div 1024 = q"
      unfolding q_def by (simp add: div_add1_eq [of "unat x" 1023])
    finally show ?thesis by (simp only: y_def)
  qed
  then have "unat (cv_bytes x) = (2 * q + 2) * 32"
    using q unfolding cv_bytes_def y_def [symmetric] by (simp add: unat_word_ariths)
  then show ?thesis using q by (simp add: cv_size_def q_def)
qed

lemma unat_max: "unat (max a b) = max (unat a) (unat (b :: u64))"
  by (simp add: max_def word_le_nat_alt)

lemma unat_add_small: "unat a + unat b < 2 ^ 64 \<Longrightarrow> unat (a + b) = unat a + unat (b :: u64)"
  by (simp add: unat_word_ariths)

lemma pearl_bounds:
  assumes "shape_of s"
  shows "unat (shape_m s) * unat (shape_rank s) < 2 ^ 31" "unat (shape_n s) * unat (shape_rank s) < 2 ^ 31"
    "unat (shape_m s) * unat (shape_k s) < 2 ^ 31" "unat (shape_n s) * unat (shape_k s) < 2 ^ 40" "unat (shape_k s) \<le> 2 ^ 16"
proof -
  show b: "unat (shape_m s) * unat (shape_rank s) < 2 ^ 31" "unat (shape_n s) * unat (shape_rank s) < 2 ^ 31"
    "unat (shape_m s) * unat (shape_k s) < 2 ^ 31" "unat (shape_k s) \<le> 2 ^ 16"
    using assms by (simp_all add: shape_of_def pearl_shape_def)
  have "128 \<le> unat (shape_rank s)" using assms by (auto simp: shape_of_def pearl_shape_def)
  then have "unat (shape_n s) * 128 \<le> unat (shape_n s) * unat (shape_rank s)" by (rule mult_le_mono2)
  then have "unat (shape_n s) * 128 < 2 ^ 31" using b(2) by (rule le_less_trans)
  then have "unat (shape_n s) < 2 ^ 24" by simp
  moreover have "0 < unat (shape_k s)" using assms by (simp add: shape_of_def pearl_shape_def)
  ultimately have "unat (shape_n s) * unat (shape_k s) < 2 ^ 24 * 2 ^ 16"
    using b(4) by (intro mult_less_le_imp_less) simp_all
  then show "unat (shape_n s) * unat (shape_k s) < 2 ^ 40" by simp
qed

lemma valid_shape_iff:
  "valid_pearlhash_shape (ucast (shape_m s)) (ucast (shape_n s)) (ucast (shape_k s)) (ucast (shape_rank s)) \<longleftrightarrow> shape_of s"
  by (simp add: valid_pearlhash_shape_iff shape_of_def)

lemma pearl_counts_invalid: "\<not> shape_of s \<Longrightarrow> pearlhash_allocation_counts s hip = (False, no_counts)"
  by (simp add: pearlhash_allocation_counts_def valid_shape_iff)

lemma pearl_counts_valid:
  assumes "shape_of s"
  shows "\<exists>c. pearlhash_allocation_counts s hip = (True, c) \<and> unat (cnt_max_alloc c) = pearl_largest s \<and>
    unat (cnt_total_bytes c) = pearl_total s hip \<and> pearl_total s hip < 2 ^ 42"
proof -
  define mr nr mk nk where "mr = (ucast (shape_m s) * ucast (shape_rank s) :: u64)"
    and "nr = (ucast (shape_n s) * ucast (shape_rank s) :: u64)"
    and "mk = (ucast (shape_m s) * ucast (shape_k s) :: u64)" and "nk = (ucast (shape_n s) * ucast (shape_k s) :: u64)"
  define ca cb nb where "ca = cv_bytes mk" and "cb = cv_bytes nk" and "nb = (ucast (shape_k s) * 4 :: u64)"
  define largest where "largest = foldl max mr [nr, mk, nk, ca, cb, nb, pearlhash_result_allocation_bytes]"
  define total where "total = mr + 2 * nr + mk + nk + ca + cb + 4 * nb + 4 * 32 +
      pearlhash_result_allocation_bytes + (if hip then mk + nk else 0)"
  note B = pearl_bounds [OF assms]
  have u: "unat mr = unat (shape_m s) * unat (shape_rank s)" "unat nr = unat (shape_n s) * unat (shape_rank s)"
      "unat mk = unat (shape_m s) * unat (shape_k s)" "unat nk = unat (shape_n s) * unat (shape_k s)"
    by (simp_all only: mr_def nr_def mk_def nk_def unat_mult_u32)
  have ca: "unat ca = cv_size (unat mk)" "unat ca < 2 ^ 37" and cb: "unat cb = cv_size (unat nk)" "unat cb < 2 ^ 37"
    using unat_cv_bytes [of mk] unat_cv_bytes [of nk] B by (simp_all add: ca_def cb_def u)
  have nb: "unat nb = 4 * unat (shape_k s)" using B by (simp add: nb_def unat_word_ariths)
  have two: "unat (2 * nr) = 2 * unat nr" "unat (4 * nb) = 4 * unat nb"
    using B by (simp_all add: unat_word_ariths u nb)
  have counts: "pearlhash_allocation_counts s hip = (True, \<lparr>cnt_m_rank = mr, cnt_n_rank = nr, cnt_m_k = mk, cnt_n_k = nk,
      cnt_cva_bytes = ca, cnt_cvb_bytes = cb, cnt_max_alloc = largest, cnt_total_bytes = total\<rparr>)"
  proof -
    have "\<not> (- 1 :: u64) < largest" by (simp add: not_less)
    then show ?thesis
      unfolding pearlhash_allocation_counts_def valid_shape_iff Let_def
      unfolding mr_def [symmetric] nr_def [symmetric] mk_def [symmetric] nk_def [symmetric]
      unfolding ca_def [symmetric] cb_def [symmetric] nb_def [symmetric]
      unfolding largest_def [symmetric] total_def [symmetric]
      using assms by simp
  qed
  have "unat pearlhash_result_allocation_bytes = 64" by (simp add: pearlhash_result_allocation_bytes_def)
  then have "unat largest = pearl_largest s"
    by (simp only: largest_def unat_max foldl_Cons foldl_Nil pearl_largest_def Let_def nb ca cb u)
  moreover have "unat total = pearl_total s hip \<and> pearl_total s hip < 2 ^ 42"
  proof -
    have lim: "unat mr < 2 ^ 31" "unat nr < 2 ^ 31" "unat mk < 2 ^ 31" "unat nk < 2 ^ 40" "unat nb \<le> 2 ^ 18"
      using B by (simp_all only: u nb) simp_all
    have "unat total = unat mr + 2 * unat nr + unat mk + unat nk + unat ca + unat cb + 4 * unat nb + 192 +
        (if hip then unat mk + unat nk else 0)"
      using lim ca(2) cb(2)
      by (simp add: total_def unat_add_small two pearlhash_result_allocation_bytes_def)
    moreover from this have "unat total < 2 ^ 42" using lim ca(2) cb(2) by (simp split: if_splits)
    moreover have "pearl_total s hip = unat mr + 2 * unat nr + unat mk + unat nk + unat ca + unat cb + 4 * unat nb + 192 +
        (if hip then unat mk + unat nk else 0)"
      by (simp add: pearl_total_def Let_def ca cb nb u)
    ultimately show ?thesis by simp
  qed
  ultimately show ?thesis using counts by simp
qed

lemma unat_mult_small: "unat a * unat b < 2 ^ 64 \<Longrightarrow> unat (a * b) = unat a * unat (b :: u64)"
  by (simp add: unat_word_ariths)

lemma reserve: "unat pearlhash_runtime_reserve_bytes = 2 ^ 29"
  by (simp add: pearlhash_runtime_reserve_bytes_def kMiB_def unat_word_ariths)

lemma required_memory_fits_iff:
  "pearlhash_required_memory_fits d s \<longleftrightarrow>
     shape_of s \<and> pearl_largest s \<le> unat (dev_max_alloc d) \<and> pearl_total s False + 2 ^ 29 \<le> unat (global_mem d)"
proof (cases "shape_of s")
  case True
  obtain c where c: "pearlhash_allocation_counts s False = (True, c)" "unat (cnt_max_alloc c) = pearl_largest s"
      "unat (cnt_total_bytes c) = pearl_total s False"
    using pearl_counts_valid [OF True, of False] by blast
  have "64 \<le> pearl_largest s" by (simp only: pearl_largest_def Let_def foldl_Cons foldl_Nil max.cobounded2)
  then have "dev_max_alloc d \<noteq> 0" if "pearl_largest s \<le> unat (dev_max_alloc d)" using that by auto
  then show ?thesis
    using True c le_minus_iff [of pearlhash_runtime_reserve_bytes "global_mem d" "cnt_total_bytes c"]
    by (auto simp: pearlhash_required_memory_fits_def word_le_nat_alt reserve)
qed (simp add: pearlhash_required_memory_fits_def pearl_counts_invalid)

lemma optional_allocation_fits_iff:
  "pearlhash_optional_allocation_fits d c b \<longleftrightarrow>
     dev_max_alloc d \<noteq> 0 \<and> unat b \<le> unat (dev_max_alloc d) \<and>
     unat (cnt_total_bytes c) + unat b + 2 ^ 29 \<le> unat (global_mem d)"
proof (cases "pearlhash_runtime_reserve_bytes \<le> global_mem d \<and>
    cnt_total_bytes c \<le> global_mem d - pearlhash_runtime_reserve_bytes")
  case True
  then have "unat (global_mem d - pearlhash_runtime_reserve_bytes) = unat (global_mem d) - 2 ^ 29"
    by (simp add: unat_sub reserve)
  moreover have "unat (cnt_total_bytes c) + 2 ^ 29 \<le> unat (global_mem d)"
    using True le_minus_iff [of pearlhash_runtime_reserve_bytes "global_mem d" "cnt_total_bytes c"] by (simp add: reserve)
  ultimately show ?thesis
    using True le_minus_iff [of "cnt_total_bytes c" "global_mem d - pearlhash_runtime_reserve_bytes" b]
    by (auto simp: pearlhash_optional_allocation_fits_def word_le_nat_alt)
next
  case False
  then show ?thesis
    using le_minus_iff [of pearlhash_runtime_reserve_bytes "global_mem d" "cnt_total_bytes c"]
    by (auto simp: pearlhash_optional_allocation_fits_def word_le_nat_alt reserve)
qed

section \<open>Intensity\<close>

lemma unat_minus_mod: "unat (v - v mod s) = unat s * (unat v div unat (s :: 'a::len word))"
proof -
  have "v mod s \<le> v" by (simp add: word_le_nat_alt unat_mod)
  then have "unat (v - v mod s) = unat v - unat (v mod s)" by (rule unat_sub)
  then show ?thesis by (simp only: unat_mod minus_mod_eq_mult_div)
qed

lemma round_down:
  "0 < step \<Longrightarrow> \<exists>v'. round_down_to_multiple v step = Some v' \<and> unat v' = unat step * (unat v div unat step)"
  using unat_minus_mod [of v step] by (auto simp: round_down_to_multiple_def)

text \<open>The limits a dispatch must respect, in unbounded arithmetic.\<close>

definition intensity_limit :: "PowDeviceProfile \<Rightarrow> PowIntensityScale \<Rightarrow> u32 \<Rightarrow> u32 \<Rightarrow> nat" where
  "intensity_limit p scale loc per_gib =
     (let scaled = unat loc * unat (base_work_items scale) * unat (compute_units p) div unat (compute_unit_divisor scale);
          depth = max 1 (unat (global_mem p) div 2 ^ 30) * unat per_gib * 2 ^ 20
      in min (if per_gib = 0 then scaled else min scaled depth) (2 ^ 32 - 1))"

lemma pow_intensity_value:
  assumes "select_pow_intensity_scale p h = Some scale" and "0 < compute_unit_divisor scale" and "0 < loc"
    and "unat loc * 4096 < 2 ^ 32"
    and "per_gib = (if explicit_max \<noteq> 0 then explicit_max else max_work_items_per_gib h)"
    and "unat per_gib < 2 ^ 10" and "unat loc * unat (base_work_items scale) * unat (compute_units p) < 2 ^ 64"
  shows "\<exists>i. pow_intensity p h loc explicit_max = Some i \<and>
    unat i = max (unat loc * (intensity_limit p scale loc per_gib div unat loc)) (unat loc * 4096)"
proof -
  define scaled where "scaled = (ucast loc * ucast (base_work_items scale) * ucast (compute_units p) :: u64) div
      ucast (compute_unit_divisor scale)"
  define depth where "depth = max 1 (global_mem p div kGiB) * ucast per_gib * kMiB"
  define lim where "lim = min (if per_gib \<noteq> 0 then min scaled depth else scaled) (ucast (- 1 :: u32))"
  have gib: "unat kGiB = 2 ^ 30" "unat kMiB = 2 ^ 20" by (simp_all add: kGiB_def kMiB_def)
  have us: "unat scaled = unat loc * unat (base_work_items scale) * unat (compute_units p) div unat (compute_unit_divisor scale)"
    using assms(7) by (simp add: scaled_def unat_div unat_word_ariths unat_mult_u32 mod_mult_left_eq)
  have ud: "unat depth = max 1 (unat (global_mem p) div 2 ^ 30) * unat per_gib * 2 ^ 20"
  proof -
    have g: "unat (max 1 (global_mem p div kGiB)) = max 1 (unat (global_mem p) div 2 ^ 30)"
      by (simp add: unat_max unat_div gib)
    have "unat (global_mem p) div 2 ^ 30 < 2 ^ 34" using u64_bound [of "global_mem p"] by (simp add: div_less_iff_less_mult)
    then have "max 1 (unat (global_mem p) div 2 ^ 30) * unat per_gib \<le> 2 ^ 34 * 1023"
      using assms(6) by (intro mult_le_mono) simp_all
    moreover have "x * 2 ^ 20 < 2 ^ 64 \<and> x < 2 ^ 64" if "x \<le> 2 ^ 34 * 1023" for x :: nat using that by simp
    ultimately have "max 1 (unat (global_mem p) div 2 ^ 30) * unat per_gib * 2 ^ 20 < 2 ^ 64"
      "max 1 (unat (global_mem p) div 2 ^ 30) * unat per_gib < 2 ^ 64" by blast+
    then show ?thesis
      unfolding depth_def by (simp only: unat_mult_small g gib unat_ucast_u32)
  qed
  have ul: "unat lim = intensity_limit p scale loc per_gib"
    by (simp add: lim_def intensity_limit_def Let_def us ud min_def word_le_nat_alt unsigned_minus_1_eq_mask mask_eq_exp_minus_1)
  have "intensity_limit p scale loc per_gib < 2 ^ 32" by (simp add: intensity_limit_def Let_def min_def)
  then have uc: "unat (ucast lim :: u32) = intensity_limit p scale loc per_gib"
    by (simp add: unsigned_ucast_eq ul take_bit_nat_eq_self)
  obtain v where v: "round_down_to_multiple (ucast lim) loc = Some v" "unat v = unat loc * (unat (ucast lim :: u32) div unat loc)"
    using round_down [OF assms(3), of "ucast lim"] by blast
  have "pow_intensity p h loc explicit_max = Some (max v (loc * 4096))"
    using assms(1,2) v(1) [unfolded lim_def] unfolding pow_intensity_def
    by (cases "per_gib = 0")
      (auto simp: assms(5) [symmetric] scaled_def [symmetric] depth_def [symmetric] Let_def)
  moreover have "unat (max v (loc * 4096)) = max (unat v) (unat loc * 4096)"
    using assms(4) by (simp add: max_def word_le_nat_alt unat_word_ariths)
  ultimately show ?thesis using v(2) uc by (intro exI [of _ "max v (loc * 4096)"]) simp
qed

section \<open>The cn/gpu batch\<close>

lemma and_not_mask: "w AND NOT (mask k) = push_bit k (drop_bit k (w :: 'a::len word))"
  by (rule bit_word_eqI) (auto simp: bit_simps dest: bit_imp_le_length)

lemma unat_and_not_1: "unat (w AND - 2) = 2 * (unat (w :: u32) div 2)"
proof -
  have "w AND - 2 = drop_bit 1 w * 2" using and_not_mask [of w 1] by (simp add: push_bit_eq_mult)
  then have "unat (w AND - 2) = unat (drop_bit 1 w) * 2 mod 2 ^ 32" by (simp add: unat_word_ariths)
  also have "unat (drop_bit 1 w) = unat w div 2" by (simp add: drop_bit_eq_div unat_div)
  also have "unat w div 2 * 2 mod 2 ^ 32 = 2 * (unat w div 2)"
    using u32_bound [of w] by (simp add: mult.commute)
  finally show ?thesis .
qed

lemma padded_batch:
  assumes "batch \<noteq> 0" and "batch \<noteq> - 1"
  shows "unat (cn_gpu_padded_batch batch) = 2 * ((unat batch + 1) div 2)"
proof -
  have "unat batch \<noteq> 2 ^ 32 - 1"
  proof
    assume "unat batch = 2 ^ 32 - 1"
    then have "unat batch = unat (- 1 :: u32)" by (simp add: unsigned_minus_1_eq_mask mask_eq_exp_minus_1)
    then show False using assms(2) unsigned_word_eqI by blast
  qed
  then have "unat (batch + 1) = unat batch + 1" using u32_bound [of batch] by (simp add: unat_word_ariths)
  then show ?thesis using assms by (simp add: cn_gpu_padded_batch_def unat_and_not_1)
qed

definition cn_hash_bytes :: nat where
  "cn_hash_bytes = 2 ^ 21 + 367"

lemma level_zero_batch:
  assumes "b = cn_gpu_intel_level_zero_batch cus w8 mem alloc req" and "b \<noteq> 0"
  shows "2 * ((unat b + 1) div 2) * cn_hash_bytes + 2 ^ 29 \<le> unat mem \<and> 2 * ((unat b + 1) div 2) * 2 ^ 21 \<le> unat alloc \<and>
    unat b < 2 ^ 32 - 1 \<and> (req \<noteq> 0 \<longrightarrow> unat b \<le> unat req)"
proof -
  define cap where "cap = min (min ((mem - push_bit 20 512) div (push_bit 20 2 + 200 + 135 + 32)) (alloc div push_bit 20 2))
      (ucast (- 1 - 1 :: u32) :: u64)"
  define ev where "ev = (ucast cap :: u32) AND NOT 1"
  define wanted where "wanted = (if req \<noteq> 0 then ucast req else max 8 ((ucast cus * (if w8 then 8 else 3)) AND NOT 7) :: u64)"
  have mem: "push_bit 20 512 < mem" and b: "b = ucast (min wanted (ucast ev))"
    using assms by (auto simp: cn_gpu_intel_level_zero_batch_def Let_def cap_def ev_def wanted_def not_le split: if_splits)
  have um: "unat (mem - push_bit 20 512) = unat mem - 2 ^ 29" "2 ^ 29 < unat mem"
    using mem by (simp_all add: unat_sub less_imp_le word_less_nat_alt)
  have uc: "unat cap \<le> (unat mem - 2 ^ 29) div cn_hash_bytes" "unat cap \<le> unat alloc div 2 ^ 21" "unat cap \<le> 2 ^ 32 - 2"
    by (auto simp: cap_def min_def word_le_nat_alt unat_div um [simplified] cn_hash_bytes_def)
  have ue: "unat ev = 2 * (unat cap div 2)"
    using uc(3) by (simp add: ev_def unat_and_not_1 unsigned_ucast_eq take_bit_nat_eq_self)
  have ub: "unat b = min (unat wanted) (unat ev)"
    using u32_bound [of ev] by (auto simp: b min_def word_le_nat_alt unsigned_ucast_eq take_bit_nat_eq_self)
  have pad: "2 * ((unat b + 1) div 2) \<le> unat cap"
  proof -
    have "unat b \<le> 2 * (unat cap div 2)" using ub ue by simp
    then have "(unat b + 1) div 2 \<le> unat cap div 2" by linarith
    then show ?thesis using times_div_less_eq_dividend [of 2 "unat cap"] by linarith
  qed
  have "2 * ((unat b + 1) div 2) * cn_hash_bytes \<le> unat mem - 2 ^ 29"
    using pad uc(1) by (simp add: le_div_iff_mult [symmetric] cn_hash_bytes_def)
  moreover have "2 * ((unat b + 1) div 2) * 2 ^ 21 \<le> unat alloc"
    using pad uc(2) by (simp add: le_div_iff_mult [symmetric])
  moreover have "unat b \<le> unat cap" using ub ue by simp
  moreover have "req \<noteq> 0 \<Longrightarrow> unat b \<le> unat req" using ub by (simp add: wanted_def)
  ultimately show ?thesis using um uc(3) by auto
qed

section \<open>Work factors, stripes and staged reductions\<close>

lemma adjust_step:
  fixes f v :: u64
  assumes "v \<noteq> 0"
  shows "ucast (- 1 :: u32) div v < f \<longleftrightarrow> 2 ^ 32 \<le> unat f * unat v"
proof -
  have "f \<le> ucast (- 1 :: u32) div v \<longleftrightarrow> unat f * unat v \<le> 2 ^ 32 - 1"
    using le_div_word_iff [OF assms, of f "ucast (- 1 :: u32)"]
    by (simp add: unsigned_minus_1_eq_mask mask_eq_exp_minus_1)
  then show ?thesis by (auto simp: not_le [symmetric])
qed

lemma adjust_factors_iff:
  "0 < unat f \<Longrightarrow> unat f < 2 ^ 32 \<Longrightarrow>
     (\<exists>x. adjust_factors f vs = Some x \<and> unat x = y) \<longleftrightarrow>
     0 \<notin> set vs \<and> y = unat f * prod_list (map unat vs) \<and> y < 2 ^ 32"
proof (induction vs arbitrary: f)
  case (Cons v vs)
  show ?case
  proof (cases "v \<noteq> 0 \<and> unat f * unat v < 2 ^ 32")
    case True
    then have m: "unat (f * v) = unat f * unat v" by (intro unat_mult_small) simp
    have "0 < unat f * unat v" using True Cons.prems by (simp add: unat_gt_0)
    then have "(\<exists>x. adjust_factors (f * v) vs = Some x \<and> unat x = y) \<longleftrightarrow>
        0 \<notin> set vs \<and> y = unat f * unat v * prod_list (map unat vs) \<and> y < 2 ^ 32"
      using Cons.IH [of "f * v"] True m by simp
    then show ?thesis using True adjust_step [of v f] by (auto simp: ac_simps)
  next
    case False
    show ?thesis
    proof (cases "v = 0")
      case nz: False
      then have big: "2 ^ 32 \<le> unat f * unat v" using False by simp
      have "0 \<notin> set vs \<Longrightarrow> 0 < prod_list (map unat vs)" by (induction vs) (auto simp: unat_gt_0)
      then have "2 ^ 32 \<le> unat f * unat v * prod_list (map unat vs)" if "0 \<notin> set vs"
        using mult_le_mono [OF big, of 1 "prod_list (map unat vs)"] that by simp
      then show ?thesis using nz big adjust_step [OF nz, of f] by (auto simp: mult.assoc)
    qed simp
  qed
qed auto

lemma adjustment_factor_iff:
  "pearlhash_adjustment_factor rows cols k rank = Some x \<longleftrightarrow>
     rank \<noteq> 0 \<and> 0 < unat x \<and> unat x = unat rows * unat cols * (unat k div unat rank) * 128"
proof (cases "rows = 0 \<or> cols = 0 \<or> rank = 0")
  case True
  then show ?thesis by (auto simp: pearlhash_adjustment_factor_def)
next
  case False
  define steps where "steps = (k - k mod rank) div rank"
  have "unat steps = unat rank * (unat k div unat rank) div unat rank"
    by (simp only: steps_def unat_div unat_minus_mod)
  then have st: "unat steps = unat k div unat rank" using False by (simp add: unat_gt_0)
  have e: "pearlhash_adjustment_factor rows cols k rank = map_option ucast (adjust_factors rows [cols, steps, 128])"
    using False by (simp add: pearlhash_adjustment_factor_def Let_def steps_def)
  show ?thesis
  proof (cases "unat rows < 2 ^ 32")
    case True
    have iff: "(\<exists>z. adjust_factors rows [cols, steps, 128] = Some z \<and> unat z = y) \<longleftrightarrow>
        0 < unat steps \<and> y = unat rows * unat cols * unat steps * 128 \<and> y < 2 ^ 32" for y
    proof -
      have "0 \<notin> set [cols, steps, 128] \<longleftrightarrow> 0 < unat steps" using False by (auto simp: unat_gt_0)
      moreover have "unat rows * prod_list (map unat [cols, steps, 128]) = unat rows * unat cols * unat steps * 128"
        by simp
      moreover have "0 < unat rows" using False by (simp add: unat_gt_0)
      ultimately show ?thesis using adjust_factors_iff [of rows "[cols, steps, 128]" y] True by (simp only:)
    qed
    have "pearlhash_adjustment_factor rows cols k rank = Some x \<longleftrightarrow>
        (\<exists>z. adjust_factors rows [cols, steps, 128] = Some z \<and> unat z = unat x)"
    proof
      assume "pearlhash_adjustment_factor rows cols k rank = Some x"
      then obtain z where z: "adjust_factors rows [cols, steps, 128] = Some z" "x = ucast z" by (auto simp: e)
      then have "unat z < 2 ^ 32" using iff [of "unat z"] by blast
      then have "unat (ucast z :: u32) = unat z" by (simp add: unsigned_ucast_eq take_bit_nat_eq_self)
      then show "\<exists>z. adjust_factors rows [cols, steps, 128] = Some z \<and> unat z = unat x" using z by auto
    next
      assume "\<exists>z. adjust_factors rows [cols, steps, 128] = Some z \<and> unat z = unat x"
      then obtain z where z: "adjust_factors rows [cols, steps, 128] = Some z" "unat z = unat x" by blast
      then have "unat (ucast z :: u32) = unat x" using u32_bound [of x] by (simp add: unsigned_ucast_eq take_bit_nat_eq_self)
      then have "ucast z = x" using unsigned_word_eqI by blast
      then show "pearlhash_adjustment_factor rows cols k rank = Some x" using z by (simp add: e)
    qed
    also have "\<dots> \<longleftrightarrow> rank \<noteq> 0 \<and> 0 < unat x \<and> unat x = unat rows * unat cols * (unat k div unat rank) * 128"
    proof -
      have "(0 < q \<and> X = R * C * q * 128 \<and> X < 2 ^ 32) \<longleftrightarrow> 0 < X \<and> X = R * C * q * 128"
        if "0 < R" "0 < C" "X < 2 ^ 32" for R C X q :: nat
        using that by (cases "q = 0") auto
      moreover have "0 < unat rows" "0 < unat cols" using False by (simp_all add: unat_gt_0)
      ultimately show ?thesis unfolding iff st using False u32_bound [of x] by blast
    qed
    finally show ?thesis .
  next
    case big: False
    have "adjust_factors rows [cols, steps, 128] = None"
      using False big adjust_step [of cols rows] mult_le_mono [of "2 ^ 32" "unat rows" 1 "unat cols"]
      by (simp add: unat_gt_0 Suc_le_eq not_less)
    moreover have "\<not> (0 < unat x \<and> unat x = unat rows * unat cols * (unat k div unat rank) * 128)"
    proof
      assume x: "0 < unat x \<and> unat x = unat rows * unat cols * (unat k div unat rank) * 128"
      then have "unat rows dvd unat x" by (simp add: mult.assoc)
      then have "unat rows \<le> unat x" using x dvd_imp_le by blast
      then show False using big u32_bound [of x] by simp
    qed
    ultimately show ?thesis by (auto simp: e)
  qed
qed

text \<open>The work item that computes a tile, from its row and column.\<close>

definition stripe_index :: "nat \<Rightarrow> nat \<Rightarrow> nat \<Rightarrow> nat" where
  "stripe_index blocks_w row column =
     32 * (4 * blocks_w * (row div 64) + 4 * (column div 2) + (row div 16) mod 4) + 2 * (row mod 16) + column mod 2"

lemma stripe_arith:
  fixes w B :: nat
  assumes "0 < B"
  defines "row \<equiv> (4 * (w div 32 div (4 * B)) + (w div 32 mod (4 * B)) mod 4) * 16 + w mod 32 div 2"
    and "column \<equiv> (w div 32 mod (4 * B)) div 4 * 2 + w mod 32 mod 2"
  shows "row div 64 = w div 32 div (4 * B)" and "column < 2 * B" and "stripe_index B row column = w"
proof -
  define s t i where "s = w div 32 div (4 * B)" and "t = w div 32 mod (4 * B)" and "i = w mod 32"
  have t: "t < 4 * B" using assms(1) by (simp add: t_def)
  have i: "i div 2 < 16" "i mod 2 < 2" by (auto simp: i_def)
  have row: "row = 64 * s + (16 * (t mod 4) + i div 2)" by (simp add: row_def s_def t_def i_def)
  have col: "column = 2 * (t div 4) + i mod 2" by (simp add: column_def t_def i_def)
  have lo: "16 * (t mod 4) + i div 2 < 64" using i(1) mod_less_divisor [of 4 t] by linarith
  show "row div 64 = w div 32 div (4 * B)" unfolding row s_def [symmetric] using lo by simp
  have "t div 4 < B" using t by (simp add: div_less_iff_less_mult mult.commute)
  then show "column < 2 * B" unfolding col using i(2) by linarith
  have r16: "row div 16 mod 4 = t mod 4"
  proof -
    have "row = 16 * (4 * s + t mod 4) + i div 2" by (simp add: row)
    then have "row div 16 = 4 * s + t mod 4" using i(1) by simp
    then show ?thesis by simp
  qed
  have rm: "row mod 16 = i div 2"
  proof -
    have "row = i div 2 + 16 * (4 * s + t mod 4)" by (simp add: row)
    then have "row mod 16 = i div 2 mod 16" by (simp only: mod_mult_self2)
    then show ?thesis using i(1) by simp
  qed
  have cd: "column div 2 = t div 4" "column mod 2 = i mod 2" unfolding col using i(2) by simp_all
  have "stripe_index B row column = 32 * (4 * B * s + (4 * (t div 4) + t mod 4)) + (2 * (i div 2) + i mod 2)"
    unfolding stripe_index_def r16 rm cd using \<open>row div 64 = _\<close> by (simp add: s_def)
  also have "\<dots> = 32 * (4 * B * s + t) + i" by simp
  also have "4 * B * s + t = w div 32" by (simp add: s_def t_def)
  finally show "stripe_index B row column = w" by (simp add: i_def)
qed

lemma stripe_position_nat:
  assumes "2 \<le> unat tiles_w" and "unat tiles_w < 2 ^ 30"
  shows "\<exists>row column. pearlhash_esimd_stripe_position wi tiles_w = Some (row, column) \<and>
    unat row div 64 = unat wi div 32 div (4 * (unat tiles_w div 2)) \<and> unat column < 2 * (unat tiles_w div 2) \<and>
    stripe_index (unat tiles_w div 2) (unat row) (unat column) = unat wi"
proof -
  let ?B = "unat tiles_w div 2" and ?w = "unat wi"
  have B: "0 < ?B" "4 * ?B < 2 ^ 32" using assms by simp_all
  have u4: "unat (4 * (tiles_w div 2)) = 4 * ?B" using B by (simp add: unat_word_ariths unat_div)
  then have nz: "4 * (tiles_w div 2) \<noteq> 0" using B(1) by auto
  define s t i where "s = wi div 32 div (4 * (tiles_w div 2))" and "t = wi div 32 mod (4 * (tiles_w div 2))"
    and "i = wi mod 32"
  have us: "unat s = ?w div 32 div (4 * ?B)" "unat t = ?w div 32 mod (4 * ?B)" "unat i = ?w mod 32"
    unfolding s_def t_def i_def by (simp_all add: unat_div unat_mod u4)
  have "?w div 32 div (4 * ?B) \<le> ?w div 32 div 4" using B(1) by (intro div_le_mono2) simp_all
  moreover have "?w div 32 div 4 < 2 ^ 25" using u32_bound [of wi] by (simp add: div_less_iff_less_mult)
  ultimately have sb: "unat s < 2 ^ 25" using us(1) by linarith
  have tb: "unat t < 4 * ?B" "unat i < 32" using us B(1) by simp_all
  have row: "unat ((4 * s + t mod 4) * 16 + i div 2) = (4 * unat s + unat t mod 4) * 16 + unat i div 2"
  proof -
    have "(4 * unat s + unat t mod 4) * 16 + unat i div 2 < 2 ^ 32"
      using sb tb(2) mod_less_divisor [of 4 "unat t"] by simp
    then show ?thesis by (simp add: unat_word_ariths unat_div unat_mod)
  qed
  have col: "unat ((t div 4) * 2 + i mod 2) = (unat t div 4) * 2 + unat i mod 2"
  proof -
    have "unat t div 4 * 2 + unat i mod 2 < 2 ^ 32"
      using tb(1) B(2) mod_less_divisor [of 2 "unat i"] by simp
    then show ?thesis by (simp add: unat_word_ariths unat_div unat_mod)
  qed
  have "pearlhash_esimd_stripe_position wi tiles_w = Some ((4 * s + t mod 4) * 16 + i div 2, (t div 4) * 2 + i mod 2)"
    unfolding pearlhash_esimd_stripe_position_def Let_def s_def t_def i_def by (simp only: nz if_False)
  then show ?thesis
    using stripe_arith [OF B(1), of ?w] unfolding us [symmetric] row [symmetric] col [symmetric] by blast
qed

text \<open>The second stage as the lanes execute it, in the given order, on the shared array.\<close>

definition staged_writes :: "(nat \<Rightarrow> u32) \<Rightarrow> u32 list \<Rightarrow> u32 list \<Rightarrow> nat list \<Rightarrow> u32 list" where
  "staged_writes g raw partials order =
     foldl (\<lambda>raw l. raw[l := cn_gpu_reduce_staged_int raw partials l XOR g l]) raw order"

lemma staged_int_tail:
  "drop 16 raw = drop 16 raw' \<Longrightarrow> lane < 16 \<Longrightarrow> 28 \<le> length raw \<Longrightarrow> 28 \<le> length raw' \<Longrightarrow>
   cn_gpu_reduce_staged_int raw partials lane = cn_gpu_reduce_staged_int raw' partials lane"
proof -
  assume d: "drop 16 raw = drop 16 raw'" and l: "lane < 16" "28 \<le> length raw" "28 \<le> length raw'"
  have "raw ! i = raw' ! i" if "16 \<le> i" "i < 28" for i
  proof -
    have "drop 16 raw ! (i - 16) = drop 16 raw' ! (i - 16)" using d by simp
    then show ?thesis using that l by simp
  qed
  then show ?thesis using l by (simp add: cn_gpu_reduce_staged_int_def Let_def)
qed

lemma staged_writes_snapshot:
  assumes "set order \<subseteq> {..<16}" and "28 \<le> length raw"
  shows "length (staged_writes g raw partials order) = length raw \<and>
    drop 16 (staged_writes g raw partials order) = drop 16 raw \<and>
    (\<forall>l < 16. staged_writes g raw partials order ! l =
      (if l \<in> set order then cn_gpu_reduce_staged_int raw partials l XOR g l else raw ! l))"
  using assms(1)
proof (induction order rule: rev_induct)
  case Nil
  then show ?case by (simp add: staged_writes_def)
next
  case (snoc x order)
  let ?r = "staged_writes g raw partials order"
  have x: "x < 16" using snoc.prems by simp
  have IH: "length ?r = length raw" "drop 16 ?r = drop 16 raw"
      "\<forall>l < 16. ?r ! l = (if l \<in> set order then cn_gpu_reduce_staged_int raw partials l XOR g l else raw ! l)"
    using snoc by simp_all
  have "staged_writes g raw partials (order @ [x]) = ?r[x := cn_gpu_reduce_staged_int raw partials x XOR g x]"
    using staged_int_tail [of ?r raw x partials] IH(1,2) x assms(2) by (simp add: staged_writes_def)
  then show ?case using IH x assms(2) by (auto simp: nth_list_update)
qed

lemma foldl_max_le: "foldl max a xs \<le> c \<longleftrightarrow> a \<le> c \<and> (\<forall>x \<in> set xs. x \<le> (c :: nat))"
  by (induction xs arbitrary: a) auto

section \<open>Properties\<close>

text \<open>
  The launch check, in wrapping 64-bit arithmetic with divisions in place of products,
  accepts exactly the workgroups whose dimensions are in range and whose fixed, per-team and
  per-item local memory together fit.
\<close>

theorem mom_workgroup_fits_correct:
  "mom_workgroup_fits workgroup max_workgroup max_work_items local_bytes fixed_local_bytes
       local_bytes_per_item local_bytes_per_team team_size \<longleftrightarrow>
     workgroup \<noteq> 0 \<and> unat workgroup \<le> unat max_workgroup \<and> unat workgroup \<le> unat max_work_items \<and>
     team_size \<noteq> 0 \<and> unat team_size dvd unat workgroup \<and>
     unat fixed_local_bytes + unat local_bytes_per_team * (unat workgroup div unat team_size) +
       unat local_bytes_per_item * unat workgroup \<le> unat local_bytes"
  by (rule mom_workgroup_fits_iff)

text \<open>
  C19. PearlHash admission: when the device limits are known, the chosen shape is either rejected
  (all zero) or legal, its largest buffer fits a single allocation and all required buffers,
  computed without overflow below 4 TiB, leave 512 MiB of the device memory free; an optional
  buffer admitted on top leaves the same reserve.
\<close>

theorem pearlhash_capacity_safe:
  assumes "global_mem d \<noteq> 0" and "dev_max_alloc d \<noteq> 0" and "pearlhash_capacity_profile d preferred = s"
    and "shape_m s \<noteq> 0"
  shows "\<exists>c. pearlhash_allocation_counts s False = (True, c) \<and> shape_of s
    \<and> unat (cnt_total_bytes c) = pearl_total s False \<and> pearl_total s False < 2 ^ 42
    \<and> unat (cnt_max_alloc c) = pearl_largest s \<and> pearl_largest s \<le> unat (dev_max_alloc d)
    \<and> pearl_total s False + 2 ^ 29 \<le> unat (global_mem d)
    \<and> (\<forall>b. pearlhash_optional_allocation_fits d c b \<longleftrightarrow>
        unat b \<le> unat (dev_max_alloc d) \<and> pearl_total s False + unat b + 2 ^ 29 \<le> unat (global_mem d))"
proof -
  have fits: "pearlhash_required_memory_fits d s"
    using assms by (auto simp: pearlhash_capacity_profile_def Let_def split: if_splits)
  then have "shape_of s" by (simp add: required_memory_fits_iff)
  then show ?thesis
    using pearl_counts_valid [of s False] fits assms(2)
    by (auto simp: required_memory_fits_iff optional_allocation_fits_iff)
qed

theorem pearlhash_capacity_safe_witness:
  "\<exists>c. pearlhash_allocation_counts \<lparr>shape_m = 131072, shape_n = 131072, shape_k = 2048, shape_rank = 128\<rparr> False = (True, c)
    \<and> unat (cnt_total_bytes c) + 2 ^ 29 \<le> 2 ^ 33"
proof -
  let ?d = "\<lparr>compute_units = 32, global_mem = 0x200000000, dev_max_alloc = 0x100000000\<rparr>"
  let ?s = "\<lparr>shape_m = 131072, shape_n = 131072, shape_k = 2048, shape_rank = 128\<rparr>"
  have "shape_of ?s" by (simp add: shape_of_def pearl_shape_def)
  moreover have "pearl_largest ?s \<le> unat (dev_max_alloc ?d)"
    unfolding pearl_largest_def Let_def foldl_max_le by (simp add: cv_size_def)
  moreover have "pearl_total ?s False + 2 ^ 29 \<le> unat (global_mem ?d)"
    by (simp add: pearl_total_def cv_size_def)
  ultimately have "pearlhash_required_memory_fits ?d ?s" by (simp only: required_memory_fits_iff simp_thms)
  then have "pearlhash_capacity_profile ?d ?s = ?s" by (simp add: pearlhash_capacity_profile_def)
  then show ?thesis using pearlhash_capacity_safe [of ?d ?s ?s] by auto
qed

text \<open>
  C30. Dispatch intensity: the result is the scaled work limited by the memory depth and the
  32-bit range, rounded down to whole workgroups, and at least 4096 of them.
\<close>

theorem pow_intensity_correct:
  assumes "select_pow_intensity_scale p h = Some scale" and "0 < compute_unit_divisor scale" and "0 < loc"
    and "unat loc * 4096 < 2 ^ 32"
    and "per_gib = (if explicit_max \<noteq> 0 then explicit_max else max_work_items_per_gib h)"
    and "unat per_gib < 2 ^ 10" and "unat loc * unat (base_work_items scale) * unat (compute_units p) < 2 ^ 64"
  shows "\<exists>i. pow_intensity p h loc explicit_max = Some i \<and> unat loc dvd unat i \<and> unat loc * 4096 \<le> unat i
    \<and> unat i \<le> max (intensity_limit p scale loc per_gib) (unat loc * 4096)
    \<and> intensity_limit p scale loc per_gib < unat i + unat loc"
proof -
  define L where "L = intensity_limit p scale loc per_gib"
  obtain i where i: "pow_intensity p h loc explicit_max = Some i"
      "unat i = max (unat loc * (L div unat loc)) (unat loc * 4096)"
    using pow_intensity_value [OF assms] by (auto simp: L_def)
  have "0 < unat loc" using assms(3) by (simp add: word_less_nat_alt)
  then have "L < unat loc * (L div unat loc) + unat loc" using dividend_less_times_div [of "unat loc" L] by simp
  moreover have "unat loc * (L div unat loc) \<le> L" by simp
  moreover have "unat loc dvd unat i" unfolding i(2) by (simp add: max_def)
  moreover have "Y \<le> X \<and> X \<le> max L Y \<and> L < X + m" if "X = max A Y" "A \<le> L" "L < A + m" for X Y A m :: nat
    using that by (auto simp: max_def)
  ultimately show ?thesis using i unfolding L_def [symmetric] by blast
qed

theorem pow_intensity_correct_witness:
  "\<exists>i. pow_intensity \<lparr>compute_units = 48, global_mem = 0x200000000, dev_max_alloc = 0x80000000\<rparr>
      progpow_intensity_heuristic 256 0 = Some i \<and> 256 dvd unat i"
proof -
  let ?p = "\<lparr>compute_units = 48, global_mem = 0x200000000, dev_max_alloc = 0x80000000\<rparr>"
  let ?scale = "\<lparr>fallback_workgroup = 256, base_work_items = 32768, compute_unit_divisor = 48\<rparr>"
  have "pow_device_score ?p = Some 4" by (simp add: pow_device_score_def kGiB_def kMiB_def)
  then have sel: "select_pow_intensity_scale ?p progpow_intensity_heuristic = Some ?scale"
    by (simp add: select_pow_intensity_scale_def progpow_intensity_heuristic_def)
  have "4 = (if (0 :: u32) \<noteq> 0 then 0 else max_work_items_per_gib progpow_intensity_heuristic)"
    by (simp add: progpow_intensity_heuristic_def)
  then have "\<exists>i. pow_intensity ?p progpow_intensity_heuristic 256 0 = Some i \<and> unat (256 :: u32) dvd unat i"
    using pow_intensity_correct [OF sel, of 256 4 0] by auto
  then show ?thesis by simp
qed

text \<open>
  C20. The Level Zero batch of cn/gpu keeps every padded hash inside the device: rounding the
  batch up to an even number does not wrap, the padded batch with its states and results leaves
  512 MiB free, the scratchpads fit one allocation, and a requested batch is never exceeded.
\<close>

theorem cn_gpu_batch_fits_memory:
  assumes "cn_gpu_intel_level_zero_batch cus w8 mem alloc req = b" and "b \<noteq> 0"
  shows "unat (cn_gpu_padded_batch b) * cn_hash_bytes + 2 ^ 29 \<le> unat mem
    \<and> unat (cn_gpu_padded_batch b) * 2 ^ 21 \<le> unat alloc \<and> unat b \<le> unat (cn_gpu_padded_batch b)
    \<and> even (unat (cn_gpu_padded_batch b)) \<and> (req \<noteq> 0 \<longrightarrow> unat b \<le> unat req)"
proof -
  note l = level_zero_batch [OF assms(1) [symmetric] assms(2)]
  have "b \<noteq> - 1"
    using l by (auto simp: unsigned_minus_1_eq_mask mask_eq_exp_minus_1)
  then have "unat (cn_gpu_padded_batch b) = 2 * ((unat b + 1) div 2)" using padded_batch assms(2) by blast
  then show ?thesis using l by (simp only:) auto
qed

theorem cn_gpu_batch_fits_memory_witness:
  "cn_gpu_intel_level_zero_batch 32 True 0x200000000 0x100000000 7 = 7
    \<and> unat (cn_gpu_padded_batch 7) * cn_hash_bytes + 2 ^ 29 \<le> 2 ^ 33"
proof -
  have "cn_gpu_intel_level_zero_batch 32 True 0x200000000 0x100000000 7 = 7"
    by (simp add: cn_gpu_intel_level_zero_batch_def Let_def)
  then show ?thesis using cn_gpu_batch_fits_memory [of 32 True "0x200000000" "0x100000000" 7 7] by simp
qed

text \<open>
  The work factor of a PearlHash claim is accepted exactly when the product of rows, columns,
  whole ranks and 128 is positive and fits 32 bits, and then it is that product.
\<close>

theorem pearlhash_adjustment_factor_correct:
  "pearlhash_adjustment_factor selected_rows selected_columns k rank = Some x \<longleftrightarrow>
     rank \<noteq> 0 \<and> 0 < unat x \<and> unat x = unat selected_rows * unat selected_columns * (unat k div unat rank) * 128"
  by (rule adjustment_factor_iff)

text \<open>
  The stripe traversal visits every tile once: work items of a grid of whole stripes get
  distinct tiles inside the grid, because each tile determines its work item.
\<close>

theorem pearlhash_esimd_stripe_bijective:
  assumes "2 \<le> unat tiles_w" and "unat tiles_w < 2 ^ 30" and "unat wi < 32 * (4 * (unat tiles_w div 2) * stripes)"
  shows "\<exists>row column. pearlhash_esimd_stripe_position wi tiles_w = Some (row, column)
    \<and> unat row < 64 * stripes \<and> unat column < unat tiles_w
    \<and> stripe_index (unat tiles_w div 2) (unat row) (unat column) = unat wi"
proof -
  obtain row column where p: "pearlhash_esimd_stripe_position wi tiles_w = Some (row, column)"
      "unat row div 64 = unat wi div 32 div (4 * (unat tiles_w div 2))" "unat column < 2 * (unat tiles_w div 2)"
      "stripe_index (unat tiles_w div 2) (unat row) (unat column) = unat wi"
    using stripe_position_nat [OF assms(1,2), of wi] by blast
  have "unat wi div 32 < 4 * (unat tiles_w div 2) * stripes" using assms(3) by (simp add: div_less_iff_less_mult mult.commute)
  then have "unat wi div 32 div (4 * (unat tiles_w div 2)) < stripes"
    using assms(1) by (simp add: div_less_iff_less_mult mult.commute)
  then have "unat row < 64 * stripes" using p(2) by (simp add: div_less_iff_less_mult mult.commute)
  moreover have "unat column < unat tiles_w"
    using p(3) times_div_less_eq_dividend [of 2 "unat tiles_w"] by linarith
  ultimately show ?thesis using p(1,4) by blast
qed

theorem pearlhash_esimd_stripe_bijective_witness:
  "pearlhash_esimd_stripe_position 35 4 = Some (17, 1) \<and> stripe_index 2 17 1 = 35"
proof -
  have e: "pearlhash_esimd_stripe_position 35 4 = Some (17, 1)" by (simp add: pearlhash_esimd_stripe_position_def)
  then show ?thesis using pearlhash_esimd_stripe_bijective [of 4 35 1] by auto
qed

text \<open>
  The second reduction stage of cn/gpu is free of races: whatever the order in which lanes
  overwrite the first sixteen words, each lane computes the value it would compute from the
  array before the stage.
\<close>

theorem cn_gpu_staged_reduction_order_free:
  assumes "set order \<subseteq> {..<16}" and "28 \<le> length raw" and "l \<in> set order"
  shows "staged_writes g raw partials order ! l = cn_gpu_reduce_staged_int raw partials l XOR g l"
proof -
  have "l < 16" using assms(1,3) by auto
  then show ?thesis using staged_writes_snapshot [OF assms(1,2), of g partials] assms(3) by simp
qed

theorem cn_gpu_staged_reduction_order_free_witness:
  "staged_writes (\<lambda>_. 1) (replicate 64 5) (replicate 32 2) [3, 0] ! 0 =
    cn_gpu_reduce_staged_int (replicate 64 5) (replicate 32 2) 0 XOR 1"
  using cn_gpu_staged_reduction_order_free [of "[3, 0]" "replicate 64 5" 0 "\<lambda>_. 1" "replicate 32 2"] by simp

end
