(* ===== verification/Reciprocal.thy ===== *)
theory Reciprocal
  imports MoM_Prelude
begin

text \<open>
  Reciprocals of the RandomX instruction \<^verbatim>\<open>IMUL_RCP\<close>: \<^verbatim>\<open>xmrig/crypto/randomx/reciprocal.c\<close>. A division
  by a constant becomes a multiplication with \<open>2 ^ x div divisor\<close> for the largest \<open>x\<close> whose
  quotient fits a 64-bit word. The portable version computes the quotient bit by bit, the fast
  version with two hardware divisions; a zero divisor is the value \<open>None\<close>.
\<close>

section \<open>The two implementations\<close>

function bsr_loop :: "u64 \<Rightarrow> u32 \<Rightarrow> u32" where
  "bsr_loop b bsr = (if 0 < b then bsr_loop (drop_bit 1 b) (bsr + 1) else bsr)"
  by pat_completeness auto
termination
proof (relation "measure (\<lambda>(b, bsr). unat b)")
  fix b :: u64 and bsr :: u32
  assume "0 < b"
  then have "unat b div 2 < unat b" by (simp add: word_less_nat_alt)
  then show "((drop_bit 1 b, bsr + 1), b, bsr) \<in> measure (\<lambda>(b, bsr). unat b)"
    by (simp add: drop_bit_eq_div unat_div)
qed simp

declare bsr_loop.simps [simp del]

fun rcp_step :: "u64 \<Rightarrow> u64 \<times> u64 \<Rightarrow> u64 \<times> u64" where
  "rcp_step divisor (quot, rmd) =
     (if divisor - rmd \<le> rmd then (quot * 2 + 1, rmd * 2 - divisor) else (quot * 2, rmd * 2))"

definition randomx_reciprocal :: "u64 \<Rightarrow> u64 option" where
  "randomx_reciprocal divisor =
     (if divisor = 0 then None
      else
        let p2exp63 = push_bit 63 1;
            bsr = bsr_loop divisor 0
        in Some (fst ((rcp_step divisor ^^ unat bsr) (p2exp63 div divisor, p2exp63 mod divisor))))"

text \<open>\<^verbatim>\<open>__builtin_clzll\<close>: the number of leading zero bits of a non-zero word.\<close>

fun bit_length :: "nat \<Rightarrow> nat" where
  "bit_length n = (if n = 0 then 0 else Suc (bit_length (n div 2)))"

declare bit_length.simps [simp del]

definition clzll :: "u64 \<Rightarrow> nat" where
  "clzll x = 64 - bit_length (unat x)"

definition randomx_reciprocal_fast :: "u64 \<Rightarrow> u64 option" where
  "randomx_reciprocal_fast divisor =
     (if divisor = 0 then None
      else
        let q = push_bit 63 1 div divisor;
            r = push_bit 63 1 mod divisor;
            shift = 64 - clzll divisor
        in Some (push_bit shift q + push_bit shift r div divisor))"

section \<open>Both compute the reciprocal\<close>

lemma bit_length_bounds: "0 < n \<Longrightarrow> 2 ^ (bit_length n - 1) \<le> n \<and> n < 2 ^ bit_length n \<and> 0 < bit_length n"
proof (induction n rule: bit_length.induct)
  case (1 n)
  show ?case
  proof (cases "n = 1")
    case True
    then show ?thesis by (simp add: bit_length.simps)
  next
    case False
    define h where "h = n div 2"
    then have h: "0 < h" "2 * h \<le> n" "n < 2 * h + 2" using "1.prems" False by auto
    have IH: "2 ^ (bit_length h - 1) \<le> h \<and> h < 2 ^ bit_length h \<and> 0 < bit_length h"
      using "1.IH" "1.prems" h(1) by (simp add: h_def)
    have len: "bit_length n = Suc (bit_length h)" using "1.prems" by (simp add: bit_length.simps [of n] h_def)
    have "2 ^ bit_length h = 2 * (2 :: nat) ^ (bit_length h - 1)"
      using IH by (cases "bit_length h") simp_all
    then show ?thesis using IH h len by auto
  qed
qed

lemma bit_length_le: "n < 2 ^ k \<Longrightarrow> bit_length n \<le> k"
proof (rule ccontr)
  assume n: "n < 2 ^ k" and "\<not> bit_length n \<le> k"
  then have k: "k \<le> bit_length n - 1" "0 < bit_length n" by simp_all
  then have "0 < n" by (cases "n = 0") (simp_all add: bit_length.simps)
  then have "(2 :: nat) ^ (bit_length n - 1) \<le> n" using bit_length_bounds by blast
  moreover have "(2 :: nat) ^ k \<le> 2 ^ (bit_length n - 1)" using k(1) by (intro power_increasing) simp_all
  ultimately show False using n by linarith
qed

lemma bsr_loop_length: "bsr_loop b c = c + of_nat (bit_length (unat b))"
proof (induction b c rule: bsr_loop.induct)
  case (1 b c)
  show ?case
  proof (cases "b = 0")
    case True
    then show ?thesis by (simp add: bsr_loop.simps bit_length.simps)
  next
    case False
    then have "bsr_loop b c = bsr_loop (drop_bit 1 b) (c + 1)"
      by (simp add: bsr_loop.simps [of b] word_neq_0_conv)
    also have "\<dots> = c + 1 + of_nat (bit_length (unat (drop_bit 1 b)))"
      using 1 False by (simp add: word_neq_0_conv)
    also have "unat (drop_bit 1 b) = unat b div 2" by (simp add: drop_bit_eq_div unat_div)
    finally show ?thesis using False by (simp add: bit_length.simps [of "unat b"] unat_eq_zero)
  qed
qed

lemma first_division:
  "(push_bit 63 1 :: u64) div d = of_nat (2 ^ 63 div unat d)" "(push_bit 63 1 :: u64) mod d = of_nat (2 ^ 63 mod unat d)"
proof -
  have u: "unat (push_bit 63 1 :: u64) = 2 ^ 63" by simp
  have l: "2 ^ 63 div unat d < (2 :: nat) ^ LENGTH(64)" by (rule le_less_trans [OF div_le_dividend]) simp
  have m: "2 ^ 63 mod unat d < (2 :: nat) ^ LENGTH(64)" by (rule le_less_trans [OF mod_less_eq_dividend]) simp
  show "(push_bit 63 1 :: u64) div d = of_nat (2 ^ 63 div unat d)" "(push_bit 63 1 :: u64) mod d = of_nat (2 ^ 63 mod unat d)"
    by (rule unsigned_word_eqI [where ?'a = nat], simp only: unat_div unat_mod u unat_of_nat mod_less [OF l] mod_less [OF m])+
qed

text \<open>After \<open>s\<close> steps the pair is quotient and remainder of \<open>2 ^ (63 + s)\<close>, the quotient modulo \<open>2 ^ 64\<close>.\<close>

lemma rcp_steps:
  assumes "d \<noteq> 0"
  shows "(rcp_step d ^^ s) (push_bit 63 1 div d, push_bit 63 1 mod d) =
    (of_nat (2 ^ (63 + s) div unat d), of_nat (2 ^ (63 + s) mod unat d))"
proof (induction s)
  case 0
  show ?case by (simp add: first_division del: push_bit_of_1)
next
  case (Suc s)
  define D Q R where "D = unat d" and "Q = 2 ^ (63 + s) div D" and "R = 2 ^ (63 + s) mod D"
  have D: "0 < D" "D < 2 ^ 64" using assms unsigned_less [of d, where ?'a = nat] by (simp_all add: D_def unat_gt_0)
  have R: "R < D" using D by (simp add: R_def)
  have d: "d = of_nat D" by (simp add: D_def)
  have pow: "2 ^ (63 + Suc s) = (2 * Q) * D + 2 * R"
  proof -
    have "(2 :: nat) ^ (63 + s) = Q * D + R" unfolding Q_def R_def by (rule div_mult_mod_eq [symmetric])
    moreover have "(2 :: nat) ^ (63 + Suc s) = 2 * 2 ^ (63 + s)" by (simp only: add_Suc_right power_Suc)
    ultimately show ?thesis by (simp only:) simp
  qed
  have uR: "unat (of_nat R :: u64) = R" using R D by (simp add: unat_of_nat)
  have sub: "unat (d - of_nat R) = D - R"
    using R by (simp add: unat_sub word_le_nat_alt uR D_def [symmetric])
  have cond: "d - of_nat R \<le> of_nat R \<longleftrightarrow> D \<le> 2 * R" using R by (auto simp: word_le_nat_alt sub uR)
  have step: "(rcp_step d ^^ Suc s) (push_bit 63 1 div d, push_bit 63 1 mod d) = rcp_step d (of_nat Q, of_nat R)"
    using Suc by (simp add: Q_def R_def D_def)
  show ?case
  proof (cases "D \<le> 2 * R")
    case True
    have "2 ^ (63 + Suc s) = (2 * Q + 1) * D + (2 * R - D)" using pow True by simp
    moreover have "2 * R - D < D" using R by simp
    ultimately have qr: "2 ^ (63 + Suc s) div D = 2 * Q + 1" "2 ^ (63 + Suc s) mod D = 2 * R - D"
      by (simp_all only: div_mult_self3 mod_mult_self3 div_less mod_less div_mult_self_is_m)
    show ?thesis
      unfolding step D_def [symmetric] qr using True cond d by (simp add: of_nat_diff mult.commute)
  next
    case False
    then have qr: "2 ^ (63 + Suc s) div D = 2 * Q" "2 ^ (63 + Suc s) mod D = 2 * R"
      using pow by simp_all
    show ?thesis
      unfolding step D_def [symmetric] qr using False cond by (simp add: mult.commute)
  qed
qed

lemma randomx_reciprocal_value:
  assumes "d \<noteq> 0"
  shows "randomx_reciprocal d = Some (of_nat (2 ^ (63 + bit_length (unat d)) div unat d))"
proof -
  have "bit_length (unat d) \<le> 64" using unsigned_less [of d, where ?'a = nat] by (intro bit_length_le) simp
  then have "unat (bsr_loop d 0) = bit_length (unat d)" by (simp add: bsr_loop_length unat_of_nat)
  then show ?thesis using assms rcp_steps [OF assms] by (simp add: randomx_reciprocal_def)
qed

lemma randomx_reciprocal_fast_value:
  assumes "d \<noteq> 0" and "unat d < 2 ^ 32"
  shows "randomx_reciprocal_fast d = Some (of_nat (2 ^ (63 + bit_length (unat d)) div unat d))"
proof -
  define D b where "D = unat d" and "b = bit_length D"
  define Q R where "Q = (2 :: nat) ^ 63 div D" and "R = (2 :: nat) ^ 63 mod D"
  have D: "0 < D" "D < 2 ^ 32" "d = of_nat D" using assms by (simp_all add: D_def unat_gt_0)
  have b: "b \<le> 32" "D < 2 ^ b" using bit_length_le [OF D(2)] bit_length_bounds [OF D(1)] by (simp_all add: b_def)
  have q: "push_bit 63 1 div d = of_nat Q" and r: "push_bit 63 1 mod d = of_nat R"
    by (simp_all only: first_division Q_def R_def D_def)
  have "R < 2 ^ 32" using mod_less_divisor [OF D(1), of "2 ^ 63"] D(2) by (simp add: R_def)
  then have "R * 2 ^ b < 2 ^ 32 * 2 ^ b" by simp
  also have "\<dots> \<le> 2 ^ 32 * 2 ^ 32" using b(1) by (intro mult_le_mono2 power_increasing) simp_all
  finally have lt: "R * 2 ^ b < 2 ^ LENGTH(64)" by simp
  then have "R * 2 ^ b div D < 2 ^ LENGTH(64)" by (rule le_less_trans [OF div_le_dividend])
  then have rd: "of_nat (R * 2 ^ b) div d = of_nat (R * 2 ^ b div D)"
    by (intro unsigned_word_eqI [where ?'a = nat])
      (simp only: unat_div unat_of_nat mod_less [OF lt] mod_less D_def)
  have "2 ^ (63 + b) = (Q * 2 ^ b) * D + R * 2 ^ b"
  proof -
    have "(2 :: nat) ^ 63 = Q * D + R" unfolding Q_def R_def by (rule div_mult_mod_eq [symmetric])
    then have "(2 :: nat) ^ (63 + b) = (Q * D + R) * 2 ^ b" by (simp only: power_add)
    then show ?thesis by (simp only: algebra_simps)
  qed
  then have "2 ^ (63 + b) div D = Q * 2 ^ b + R * 2 ^ b div D" using D(1) by simp
  moreover have "64 - clzll d = b" using b(1) by (simp add: clzll_def b_def D_def)
  ultimately show ?thesis
    using assms(1) q r rd
    by (simp add: randomx_reciprocal_fast_def Let_def D_def [symmetric] b_def [symmetric] push_bit_eq_mult)
qed

lemma largest_reciprocal:
  assumes "0 < D" and "\<not> (\<exists>k. D = 2 ^ k)"
  shows "2 ^ (63 + bit_length D) div D < 2 ^ 64" and "2 ^ 64 \<le> 2 ^ (64 + bit_length D) div D"
proof -
  note B = bit_length_bounds [OF assms(1)]
  have "2 ^ (bit_length D - 1) < D" using B assms(2) by (metis le_neq_implies_less)
  then have "2 ^ 64 * 2 ^ (bit_length D - 1) < 2 ^ 64 * D" by simp
  moreover have "(2 :: nat) ^ 64 * 2 ^ (bit_length D - 1) = 2 ^ (63 + bit_length D)"
    using B by (cases "bit_length D") (simp_all add: power_add)
  ultimately have "2 ^ (63 + bit_length D) < 2 ^ 64 * D" by linarith
  then show "2 ^ (63 + bit_length D) div D < 2 ^ 64" using assms(1) by (simp add: div_less_iff_less_mult)
  have "2 ^ 64 * D \<le> 2 ^ (64 + bit_length D)" using B by (simp add: power_add)
  then show "2 ^ 64 \<le> 2 ^ (64 + bit_length D) div D" using assms(1) by (simp add: less_eq_div_iff_mult_less_eq)
qed

lemma randomx_reciprocal_fast_wraps: "randomx_reciprocal_fast 0x200000001 = Some 0xFFFFFFFC00000001"
proof -
  let ?L = "bit_length 8589934593"
  have L: "2 ^ (?L - 1) \<le> (8589934593 :: nat)" "(8589934593 :: nat) < 2 ^ ?L" using bit_length_bounds [of 8589934593] by simp_all
  have "(2 :: nat) ^ (?L - 1) < 2 ^ 34" by (rule le_less_trans [OF L(1)]) simp
  moreover have "(2 :: nat) ^ 33 < 2 ^ ?L" by (rule less_trans [OF _ L(2)]) simp
  ultimately have "?L = 34" by (simp only: power_strict_increasing_iff one_less_numeral_iff semiring_norm)
  then have "64 - clzll 8589934593 = 34" by (simp add: clzll_def)
  then show ?thesis by (simp add: randomx_reciprocal_fast_def Let_def)
qed

section \<open>Properties\<close>

text \<open>
  C22. For every divisor that is neither zero nor a power of two the portable reciprocal is
  \<open>2 ^ x div divisor\<close> for the largest \<open>x\<close> whose quotient is below \<open>2 ^ 64\<close>. The fast version agrees with it for
  divisors below \<open>2 ^ 32\<close>, the only ones RandomX uses; beyond them its shift wraps and it may differ,
  as it does for \<open>2 ^ 33 + 1\<close>. Both refuse zero.
\<close>

theorem randomx_reciprocal_correct:
  assumes "divisor \<noteq> 0" and "\<not> (\<exists>k. unat divisor = 2 ^ k)"
  shows "\<exists>x rcp. randomx_reciprocal divisor = Some rcp \<and> unat rcp = 2 ^ x div unat divisor
    \<and> 2 ^ x div unat divisor < 2 ^ 64 \<and> 2 ^ 64 \<le> 2 ^ (x + 1) div unat divisor
    \<and> (unat divisor < 2 ^ 32 \<longrightarrow> randomx_reciprocal_fast divisor = Some rcp)
    \<and> randomx_reciprocal 0 = None \<and> randomx_reciprocal_fast 0 = None
    \<and> randomx_reciprocal_fast 0x200000001 = Some 0xFFFFFFFC00000001"
proof -
  let ?x = "63 + bit_length (unat divisor)"
  have "0 < unat divisor" using assms(1) by (simp add: unat_gt_0)
  then have "2 ^ ?x div unat divisor < 2 ^ 64 \<and> 2 ^ 64 \<le> 2 ^ (?x + 1) div unat divisor"
    using largest_reciprocal [of "unat divisor"] assms(2) by (simp add: add.commute)
  then show ?thesis
    using randomx_reciprocal_value [OF assms(1)] randomx_reciprocal_fast_value [OF assms(1)]
    by (intro exI [of _ ?x] exI [of _ "of_nat (2 ^ ?x div unat divisor)"])
      (simp add: unat_of_nat randomx_reciprocal_fast_wraps, simp add: randomx_reciprocal_def randomx_reciprocal_fast_def)
qed

theorem randomx_reciprocal_correct_witness:
  "\<exists>x rcp. randomx_reciprocal 3 = Some rcp \<and> unat rcp = 2 ^ x div 3 \<and> randomx_reciprocal_fast 3 = Some rcp"
proof -
  have "\<not> (\<exists>k. unat (3 :: u64) = 2 ^ k)"
  proof
    assume "\<exists>k. unat (3 :: u64) = 2 ^ k"
    then obtain k where "3 = (2 :: nat) ^ k" by auto
    then show False by (cases k) (auto, presburger)
  qed
  then show ?thesis using randomx_reciprocal_correct [of 3] by auto
qed

end
