(* ===== verification/Blake_Mix.thy ===== *)
theory Blake_Mix
  imports MoM_Prelude
begin

text \<open>
  The quarter round that BLAKE-256 and BLAKE3 share: the functional form on four words, the
  form on an array of sixteen words the sources use, and the round of eight quarter rounds.
\<close>

section \<open>Specification\<close>

fun blake_g :: "u32 \<times> u32 \<times> u32 \<times> u32 \<Rightarrow> u32 \<Rightarrow> u32 \<Rightarrow> u32 \<times> u32 \<times> u32 \<times> u32" where
  "blake_g (a, b, c, d) x y =
     (let a1 = a + b + x; d1 = word_rotr 16 (d XOR a1); c1 = c + d1; b1 = word_rotr 12 (b XOR c1);
          a2 = a1 + b1 + y; d2 = word_rotr 8 (d1 XOR a2); c2 = c1 + d2; b2 = word_rotr 7 (b1 XOR c2)
      in (a2, b2, c2, d2))"

declare blake_g.simps [simp del]

text \<open>A round mixes the columns of the 4 by 4 state, then its diagonals.\<close>

fun blake_round :: "u32 list \<Rightarrow> u32 list \<Rightarrow> u32 list" where
  "blake_round m [v0, v1, v2, v3, v4, v5, v6, v7, v8, v9, v10, v11, v12, v13, v14, v15] =
     (let (a0, b0, c0, d0) = blake_g (v0, v4, v8, v12) (m ! 0) (m ! 1);
          (a1, b1, c1, d1) = blake_g (v1, v5, v9, v13) (m ! 2) (m ! 3);
          (a2, b2, c2, d2) = blake_g (v2, v6, v10, v14) (m ! 4) (m ! 5);
          (a3, b3, c3, d3) = blake_g (v3, v7, v11, v15) (m ! 6) (m ! 7);
          (a0, b1, c2, d3) = blake_g (a0, b1, c2, d3) (m ! 8) (m ! 9);
          (a1, b2, c3, d0) = blake_g (a1, b2, c3, d0) (m ! 10) (m ! 11);
          (a2, b3, c0, d1) = blake_g (a2, b3, c0, d1) (m ! 12) (m ! 13);
          (a3, b0, c1, d2) = blake_g (a3, b0, c1, d2) (m ! 14) (m ! 15)
      in [a0, a1, a2, a3, b0, b1, b2, b3, c0, c1, c2, c3, d0, d1, d2, d3])"
| "blake_round m v = v"

definition blake_mix :: "u32 list \<Rightarrow> nat \<Rightarrow> nat \<Rightarrow> nat \<Rightarrow> nat \<Rightarrow> u32 \<Rightarrow> u32 \<Rightarrow> u32 list" where
  "blake_mix v a b c d x y =
     (let v = v[a := v ! a + (v ! b + x)];
          v = v[d := word_rotr 16 (v ! d XOR v ! a)];
          v = v[c := v ! c + v ! d];
          v = v[b := word_rotr 12 (v ! b XOR v ! c)];
          v = v[a := v ! a + (v ! b + y)];
          v = v[d := word_rotr 8 (v ! d XOR v ! a)];
          v = v[c := v ! c + v ! d]
      in v[b := word_rotr 7 (v ! b XOR v ! c)])"

lemma length_blake_round [simp]: "length (blake_round m v) = length v"
  by (cases "(m, v)" rule: blake_round.cases) (simp_all add: Let_def split: prod.splits)

section \<open>Quarter rounds on the array\<close>

lemma blake_mix_g:
  assumes "distinct [a, b, c, d]" and len: "a < length v" "b < length v" "c < length v" "d < length v"
    and "blake_g (v ! a, v ! b, v ! c, v ! d) x y = (a', b', c', d')"
  shows "blake_mix v a b c d x y = v[a := a', b := b', c := c', d := d']"
proof -
  define a1 where "a1 = v ! a + (v ! b + x)"
  define d1 where "d1 = word_rotr 16 (v ! d XOR a1)"
  define c1 where "c1 = v ! c + d1"
  define b1 where "b1 = word_rotr 12 (v ! b XOR c1)"
  define a2 where "a2 = a1 + (b1 + y)"
  define d2 where "d2 = word_rotr 8 (d1 XOR a2)"
  define c2 where "c2 = c1 + d2"
  define b2 where "b2 = word_rotr 7 (b1 XOR c2)"
  have ne: "a \<noteq> b" "a \<noteq> c" "a \<noteq> d" "b \<noteq> c" "b \<noteq> d" "c \<noteq> d" "b \<noteq> a" "c \<noteq> a" "d \<noteq> a" "c \<noteq> b" "d \<noteq> b" "d \<noteq> c"
    using assms(1) by auto
  have "blake_g (v ! a, v ! b, v ! c, v ! d) x y = (a2, b2, c2, d2)"
    by (simp add: blake_g.simps Let_def a1_def d1_def c1_def b1_def a2_def d2_def c2_def b2_def add.assoc)
  then have eqs: "a' = a2" "b' = b2" "c' = c2" "d' = d2" using assms(6) by simp_all
  have "blake_mix v a b c d x y = v[a := a1, d := d1, c := c1, b := b1, a := a2, d := d2, c := c2, b := b2]"
    unfolding blake_mix_def Let_def a1_def [symmetric]
    using len ne
    by (simp only: nth_list_update_eq nth_list_update_neq length_list_update ne not_False_eq_True
        d1_def [symmetric] c1_def [symmetric] b1_def [symmetric] a2_def [symmetric] d2_def [symmetric]
        c2_def [symmetric] b2_def [symmetric])
  also have "\<dots> = v[a := a2, b := b2, c := c2, d := d2]"
    by (rule nth_equalityI) (use len ne in \<open>auto simp: nth_list_update\<close>)
  finally show ?thesis by (simp only: eqs)
qed

lemma blake_mix16:
  assumes "blake_g (v ! a, v ! b, v ! c, v ! d) x y = (a', b', c', d')" and "distinct [a, b, c, d]"
    and "length v = 16" and "a < 16" and "b < 16" and "c < 16" and "d < 16"
    and "w = v[a := a', b := b', c := c', d := d']"
  shows "blake_mix v a b c d x y = w"
  using blake_mix_g [of a b c d v x y a' b' c' d'] assms by simp

text \<open>
  Both orders of the diagonal steps that occur in the sources give the round: the diagonals
  touch disjoint words.
\<close>

lemma blake_mixes_round:
  assumes "length v = 16"
  shows "(let v = blake_mix v 0 4 8 12 (m ! 0) (m ! 1);
           v = blake_mix v 1 5 9 13 (m ! 2) (m ! 3);
           v = blake_mix v 2 6 10 14 (m ! 4) (m ! 5);
           v = blake_mix v 3 7 11 15 (m ! 6) (m ! 7);
           v = blake_mix v 0 5 10 15 (m ! 8) (m ! 9);
           v = blake_mix v 1 6 11 12 (m ! 10) (m ! 11);
           v = blake_mix v 2 7 8 13 (m ! 12) (m ! 13)
       in blake_mix v 3 4 9 14 (m ! 14) (m ! 15)) = blake_round m v"
    and "(let v = blake_mix v 0 4 8 12 (m ! 0) (m ! 1);
           v = blake_mix v 1 5 9 13 (m ! 2) (m ! 3);
           v = blake_mix v 2 6 10 14 (m ! 4) (m ! 5);
           v = blake_mix v 3 7 11 15 (m ! 6) (m ! 7);
           v = blake_mix v 3 4 9 14 (m ! 14) (m ! 15);
           v = blake_mix v 2 7 8 13 (m ! 12) (m ! 13);
           v = blake_mix v 0 5 10 15 (m ! 8) (m ! 9)
       in blake_mix v 1 6 11 12 (m ! 10) (m ! 11)) = blake_round m v"
proof -
  obtain v0 v1 v2 v3 v4 v5 v6 v7 v8 v9 v10 v11 v12 v13 v14 v15
    where v: "v = [v0, v1, v2, v3, v4, v5, v6, v7, v8, v9, v10, v11, v12, v13, v14, v15]"
    using assms by (rule list16_cases)
  obtain a0 b0 c0 d0 where g0: "blake_g (v0, v4, v8, v12) (m ! 0) (m ! 1) = (a0, b0, c0, d0)" by (rule prod_cases4)
  obtain a1 b1 c1 d1 where g1: "blake_g (v1, v5, v9, v13) (m ! 2) (m ! 3) = (a1, b1, c1, d1)" by (rule prod_cases4)
  obtain a2 b2 c2 d2 where g2: "blake_g (v2, v6, v10, v14) (m ! 4) (m ! 5) = (a2, b2, c2, d2)" by (rule prod_cases4)
  obtain a3 b3 c3 d3 where g3: "blake_g (v3, v7, v11, v15) (m ! 6) (m ! 7) = (a3, b3, c3, d3)" by (rule prod_cases4)
  obtain e0 f1 g2' h3 where g4: "blake_g (a0, b1, c2, d3) (m ! 8) (m ! 9) = (e0, f1, g2', h3)" by (rule prod_cases4)
  obtain e1 f2 g3' h0 where g5: "blake_g (a1, b2, c3, d0) (m ! 10) (m ! 11) = (e1, f2, g3', h0)" by (rule prod_cases4)
  obtain e2 f3 g0' h1 where g6: "blake_g (a2, b3, c0, d1) (m ! 12) (m ! 13) = (e2, f3, g0', h1)" by (rule prod_cases4)
  obtain e3 f0 g1' h2 where g7: "blake_g (a3, b0, c1, d2) (m ! 14) (m ! 15) = (e3, f0, g1', h2)" by (rule prod_cases4)
  have s: "blake_round m v = [e0, e1, e2, e3, f0, f1, f2, f3, g0', g1', g2', g3', h0, h1, h2, h3]"
    unfolding v blake_round.simps g0 g1 g2 g3 Let_def split g4 g5 g6 g7 ..
  have x0: "blake_mix [v0, v1, v2, v3, v4, v5, v6, v7, v8, v9, v10, v11, v12, v13, v14, v15] 0 4 8 12 (m ! 0) (m ! 1) =
      [a0, v1, v2, v3, b0, v5, v6, v7, c0, v9, v10, v11, d0, v13, v14, v15]"
    by (rule blake_mix16) (simp_all add: g0 [unfolded One_nat_def])
  have x1: "blake_mix [a0, v1, v2, v3, b0, v5, v6, v7, c0, v9, v10, v11, d0, v13, v14, v15] 1 5 9 13 (m ! 2) (m ! 3) =
      [a0, a1, v2, v3, b0, b1, v6, v7, c0, c1, v10, v11, d0, d1, v14, v15]"
    by (rule blake_mix16) (simp_all add: g1 [unfolded One_nat_def])
  have x2: "blake_mix [a0, a1, v2, v3, b0, b1, v6, v7, c0, c1, v10, v11, d0, d1, v14, v15] 2 6 10 14 (m ! 4) (m ! 5) =
      [a0, a1, a2, v3, b0, b1, b2, v7, c0, c1, c2, v11, d0, d1, d2, v15]"
    by (rule blake_mix16) (simp_all add: g2 [unfolded One_nat_def])
  have x3: "blake_mix [a0, a1, a2, v3, b0, b1, b2, v7, c0, c1, c2, v11, d0, d1, d2, v15] 3 7 11 15 (m ! 6) (m ! 7) =
      [a0, a1, a2, a3, b0, b1, b2, b3, c0, c1, c2, c3, d0, d1, d2, d3]"
    by (rule blake_mix16) (simp_all add: g3 [unfolded One_nat_def])
  have y4: "blake_mix [a0, a1, a2, a3, b0, b1, b2, b3, c0, c1, c2, c3, d0, d1, d2, d3] 0 5 10 15 (m ! 8) (m ! 9) =
      [e0, a1, a2, a3, b0, f1, b2, b3, c0, c1, g2', c3, d0, d1, d2, h3]"
    by (rule blake_mix16) (simp_all add: g4 [unfolded One_nat_def])
  have y5: "blake_mix [e0, a1, a2, a3, b0, f1, b2, b3, c0, c1, g2', c3, d0, d1, d2, h3] 1 6 11 12 (m ! 10) (m ! 11) =
      [e0, e1, a2, a3, b0, f1, f2, b3, c0, c1, g2', g3', h0, d1, d2, h3]"
    by (rule blake_mix16) (simp_all add: g5 [unfolded One_nat_def])
  have y6: "blake_mix [e0, e1, a2, a3, b0, f1, f2, b3, c0, c1, g2', g3', h0, d1, d2, h3] 2 7 8 13 (m ! 12) (m ! 13) =
      [e0, e1, e2, a3, b0, f1, f2, f3, g0', c1, g2', g3', h0, h1, d2, h3]"
    by (rule blake_mix16) (simp_all add: g6 [unfolded One_nat_def])
  have y7: "blake_mix [e0, e1, e2, a3, b0, f1, f2, f3, g0', c1, g2', g3', h0, h1, d2, h3] 3 4 9 14 (m ! 14) (m ! 15) =
      [e0, e1, e2, e3, f0, f1, f2, f3, g0', g1', g2', g3', h0, h1, h2, h3]"
    by (rule blake_mix16) (simp_all add: g7 [unfolded One_nat_def])
  have z7: "blake_mix [a0, a1, a2, a3, b0, b1, b2, b3, c0, c1, c2, c3, d0, d1, d2, d3] 3 4 9 14 (m ! 14) (m ! 15) =
      [a0, a1, a2, e3, f0, b1, b2, b3, c0, g1', c2, c3, d0, d1, h2, d3]"
    by (rule blake_mix16) (simp_all add: g7 [unfolded One_nat_def])
  have z6: "blake_mix [a0, a1, a2, e3, f0, b1, b2, b3, c0, g1', c2, c3, d0, d1, h2, d3] 2 7 8 13 (m ! 12) (m ! 13) =
      [a0, a1, e2, e3, f0, b1, b2, f3, g0', g1', c2, c3, d0, h1, h2, d3]"
    by (rule blake_mix16) (simp_all add: g6 [unfolded One_nat_def])
  have z4: "blake_mix [a0, a1, e2, e3, f0, b1, b2, f3, g0', g1', c2, c3, d0, h1, h2, d3] 0 5 10 15 (m ! 8) (m ! 9) =
      [e0, a1, e2, e3, f0, f1, b2, f3, g0', g1', g2', c3, d0, h1, h2, h3]"
    by (rule blake_mix16) (simp_all add: g4 [unfolded One_nat_def])
  have z5: "blake_mix [e0, a1, e2, e3, f0, f1, b2, f3, g0', g1', g2', c3, d0, h1, h2, h3] 1 6 11 12 (m ! 10) (m ! 11) =
      [e0, e1, e2, e3, f0, f1, f2, f3, g0', g1', g2', g3', h0, h1, h2, h3]"
    by (rule blake_mix16) (simp_all add: g5 [unfolded One_nat_def])
  show "(let v = blake_mix v 0 4 8 12 (m ! 0) (m ! 1);
           v = blake_mix v 1 5 9 13 (m ! 2) (m ! 3);
           v = blake_mix v 2 6 10 14 (m ! 4) (m ! 5);
           v = blake_mix v 3 7 11 15 (m ! 6) (m ! 7);
           v = blake_mix v 0 5 10 15 (m ! 8) (m ! 9);
           v = blake_mix v 1 6 11 12 (m ! 10) (m ! 11);
           v = blake_mix v 2 7 8 13 (m ! 12) (m ! 13)
       in blake_mix v 3 4 9 14 (m ! 14) (m ! 15)) = blake_round m v"
    unfolding Let_def s [unfolded v] v x0 x1 x2 x3 y4 y5 y6 y7 ..
  show "(let v = blake_mix v 0 4 8 12 (m ! 0) (m ! 1);
           v = blake_mix v 1 5 9 13 (m ! 2) (m ! 3);
           v = blake_mix v 2 6 10 14 (m ! 4) (m ! 5);
           v = blake_mix v 3 7 11 15 (m ! 6) (m ! 7);
           v = blake_mix v 3 4 9 14 (m ! 14) (m ! 15);
           v = blake_mix v 2 7 8 13 (m ! 12) (m ! 13);
           v = blake_mix v 0 5 10 15 (m ! 8) (m ! 9)
       in blake_mix v 1 6 11 12 (m ! 10) (m ! 11)) = blake_round m v"
    unfolding Let_def s [unfolded v] v x0 x1 x2 x3 z7 z6 z4 z5 ..
qed

end
