(* ===== verification/Blake256.thy ===== *)
theory Blake256
  imports Blake_Mix
begin

text \<open>
  BLAKE-256 and BLAKE-224 with their HMAC, which CryptoNight uses as one of its final hashes:
  \<^verbatim>\<open>xmrig/crypto/cn/c_blake256.c\<close>. Lengths are in bits as in the code; the counter is two 32-bit words
  that the final routine moves back before it feeds padding, so that padding is not counted.
\<close>

section \<open>The compression\<close>

definition U8TO32 :: "bytes \<Rightarrow> u32" where
  "U8TO32 p = push_bit 24 (ucast (p ! 0)) OR push_bit 16 (ucast (p ! 1)) OR
     push_bit 8 (ucast (p ! 2)) OR ucast (p ! 3)"

definition U32TO8 :: "u32 \<Rightarrow> bytes" where
  "U32TO8 v = [ucast (drop_bit 24 v), ucast (drop_bit 16 v), ucast (drop_bit 8 v), ucast v]"

definition sigma :: "nat list list" where
  "sigma =
    [[0, 1, 2, 3, 4, 5, 6, 7, 8, 9, 10, 11, 12, 13, 14, 15],
     [14, 10, 4, 8, 9, 15, 13, 6] @ [1, 12, 0, 2, 11, 7, 5, 3],
     [11, 8, 12, 0, 5, 2, 15, 13] @ [10, 14, 3, 6, 7, 1, 9, 4],
     [7, 9, 3, 1, 13, 12, 11, 14] @ [2, 6, 5, 10, 4, 0, 15, 8],
     [9, 0, 5, 7, 2, 4, 10, 15] @ [14, 1, 11, 12, 6, 8, 3, 13],
     [2, 12, 6, 10, 0, 11, 8, 3] @ [4, 13, 7, 5, 15, 14, 1, 9],
     [12, 5, 1, 15, 14, 13, 4, 10] @ [0, 7, 6, 3, 9, 2, 8, 11],
     [13, 11, 7, 14, 12, 1, 3, 9] @ [5, 0, 15, 4, 8, 6, 2, 10],
     [6, 15, 14, 9, 11, 3, 0, 8] @ [12, 2, 13, 7, 1, 4, 10, 5],
     [10, 2, 8, 4, 7, 6, 1, 5] @ [15, 11, 9, 14, 3, 12, 13, 0],
     [0, 1, 2, 3, 4, 5, 6, 7, 8, 9, 10, 11, 12, 13, 14, 15],
     [14, 10, 4, 8, 9, 15, 13, 6] @ [1, 12, 0, 2, 11, 7, 5, 3],
     [11, 8, 12, 0, 5, 2, 15, 13] @ [10, 14, 3, 6, 7, 1, 9, 4],
     [7, 9, 3, 1, 13, 12, 11, 14] @ [2, 6, 5, 10, 4, 0, 15, 8]]"

definition cst :: "u32 list" where
  "cst = [0x243F6A88, 0x85A308D3, 0x13198A2E, 0x03707344] @ [0xA4093822, 0x299F31D0, 0x082EFA98, 0xEC4E6C89] @
     [0x452821E6, 0x38D01377, 0xBE5466CF, 0x34E90C6C] @ [0xC0AC29B7, 0xC97C50DD, 0x3F84D5B5, 0xB5470917]"

definition b256_padding :: bytes where
  "b256_padding = 0x80 # replicate 63 0"

text \<open>
  The context. The C type of \<^verbatim>\<open>buflen\<close> is \<^verbatim>\<open>int\<close>; it stays below 512 (\<open>blake256_update_inv\<close>), so the
  model counts it in \<open>nat\<close>. \<^verbatim>\<open>nullt\<close> is a flag.
\<close>

record blake_state =
  bs_h :: "u32 list"
  bs_s :: "u32 list"
  bs_t0 :: u32
  bs_t1 :: u32
  bs_buflen :: nat
  bs_nullt :: bool
  bs_buf :: bytes

definition ROT :: "u32 \<Rightarrow> nat \<Rightarrow> u32" where
  "ROT x n = push_bit (32 - n) x OR drop_bit n x"

definition blake256_G :: "nat \<Rightarrow> u32 list \<Rightarrow> u32 list \<Rightarrow> nat \<Rightarrow> nat \<Rightarrow> nat \<Rightarrow> nat \<Rightarrow> nat \<Rightarrow> u32 list" where
  "blake256_G i m v a b c d e =
     (let v = v[a := v ! a + ((m ! (sigma ! i ! e) XOR cst ! (sigma ! i ! (e + 1))) + v ! b)];
          v = v[d := ROT (v ! d XOR v ! a) 16];
          v = v[c := v ! c + v ! d];
          v = v[b := ROT (v ! b XOR v ! c) 12];
          v = v[a := v ! a + ((m ! (sigma ! i ! (e + 1)) XOR cst ! (sigma ! i ! e)) + v ! b)];
          v = v[d := ROT (v ! d XOR v ! a) 8];
          v = v[c := v ! c + v ! d]
      in v[b := ROT (v ! b XOR v ! c) 7])"

text \<open>The body of the loop over the fourteen rounds.\<close>

definition blake256_round :: "u32 list \<Rightarrow> u32 list \<Rightarrow> nat \<Rightarrow> u32 list" where
  "blake256_round m v i =
     (let v = blake256_G i m v 0 4 8 12 0;
          v = blake256_G i m v 1 5 9 13 2;
          v = blake256_G i m v 2 6 10 14 4;
          v = blake256_G i m v 3 7 11 15 6;
          v = blake256_G i m v 3 4 9 14 14;
          v = blake256_G i m v 2 7 8 13 12;
          v = blake256_G i m v 0 5 10 15 8
      in blake256_G i m v 1 6 11 12 10)"

definition blake256_compress :: "blake_state \<Rightarrow> bytes \<Rightarrow> blake_state" where
  "blake256_compress S block =
     (let m = map (\<lambda>i. U8TO32 (drop (i * 4) block)) [0..<16];
          v = map (\<lambda>i. bs_h S ! i) [0..<8] @
              [bs_s S ! 0 XOR 0x243F6A88, bs_s S ! 1 XOR 0x85A308D3,
               bs_s S ! 2 XOR 0x13198A2E, bs_s S ! 3 XOR 0x03707344,
               0xA4093822, 0x299F31D0, 0x082EFA98, 0xEC4E6C89];
          v = (if \<not> bs_nullt S
               then v[12 := v ! 12 XOR bs_t0 S, 13 := v ! 13 XOR bs_t0 S,
                      14 := v ! 14 XOR bs_t1 S, 15 := v ! 15 XOR bs_t1 S]
               else v);
          v = foldl (blake256_round m) v [0..<14];
          h = foldl (\<lambda>h i. h[i mod 8 := h ! (i mod 8) XOR v ! i]) (bs_h S) [0..<16];
          h = foldl (\<lambda>h i. h[i := h ! i XOR bs_s S ! (i mod 4)]) h [0..<8]
      in S\<lparr>bs_h := h\<rparr>)"

section \<open>The incremental hash\<close>

definition IV256 :: "u32 list" where
  "IV256 = [0x6A09E667, 0xBB67AE85, 0x3C6EF372] @ [0xA54FF53A, 0x510E527F, 0x9B05688C] @ [0x1F83D9AB, 0x5BE0CD19]"

definition IV224 :: "u32 list" where
  "IV224 = [0xC1059ED8, 0x367CD507, 0x3070DD17] @ [0xF70E5939, 0xFFC00B31, 0x68581511] @ [0x64F98FA7, 0xBEFA4FA4]"

definition blake256_init :: "blake_state \<Rightarrow> blake_state" where
  "blake256_init S = S\<lparr>bs_h := IV256, bs_s := [0, 0, 0, 0], bs_t0 := 0, bs_t1 := 0, bs_buflen := 0, bs_nullt := False\<rparr>"

definition blake224_init :: "blake_state \<Rightarrow> blake_state" where
  "blake224_init S = S\<lparr>bs_h := IV224, bs_s := [0, 0, 0, 0], bs_t0 := 0, bs_t1 := 0, bs_buflen := 0, bs_nullt := False\<rparr>"

text \<open>Counting a block, which the code writes out before each call of the compression.\<close>

definition count_block :: "blake_state \<Rightarrow> blake_state" where
  "count_block S =
     (let t0 = bs_t0 S + 512
      in S\<lparr>bs_t0 := t0, bs_t1 := (if t0 = 0 then bs_t1 S + 1 else bs_t1 S)\<rparr>)"

function blake256_blocks :: "blake_state \<Rightarrow> bytes \<Rightarrow> u64 \<Rightarrow> blake_state \<times> bytes \<times> u64" where
  "blake256_blocks S data datalen =
     (if 512 \<le> datalen
      then blake256_blocks (blake256_compress (count_block S) (take 64 data)) (drop 64 data) (datalen - 512)
      else (S, data, datalen))"
  by pat_completeness auto
termination
  by (relation "measure (\<lambda>(S, data, datalen). unat datalen)") (auto simp: unat_sub word_le_nat_alt)

declare blake256_blocks.simps [simp del]

definition blake256_update :: "blake_state \<Rightarrow> bytes \<Rightarrow> u64 \<Rightarrow> blake_state" where
  "blake256_update S data datalen =
     (let left = bs_buflen S div 8;
          fill = 64 - left;
          (S, data, datalen, left) =
            (if left \<noteq> 0 \<and> fill \<le> unat (drop_bit 3 datalen AND 0x3F) then
               let S = S\<lparr>bs_buf := memcpy_at (bs_buf S) left (take fill data)\<rparr>;
                   S = blake256_compress (count_block S) (bs_buf S)
               in (S, drop fill data, datalen - of_nat (8 * fill), 0)
             else (S, data, datalen, left));
          (S, data, datalen) = blake256_blocks S data datalen
      in if 0 < datalen
         then S\<lparr>bs_buf := memcpy_at (bs_buf S) left (take (unat (drop_bit 3 datalen)) data),
                bs_buflen := 8 * left + unat datalen\<rparr>
         else S\<lparr>bs_buflen := 0\<rparr>)"

definition blake224_update :: "blake_state \<Rightarrow> bytes \<Rightarrow> u64 \<Rightarrow> blake_state" where
  "blake224_update S data datalen = blake256_update S data datalen"

definition sub_t0 :: "u32 \<Rightarrow> blake_state \<Rightarrow> blake_state" where
  "sub_t0 n S = S\<lparr>bs_t0 := bs_t0 S - n\<rparr>"

definition blake256_final_h :: "blake_state \<Rightarrow> byte \<Rightarrow> byte \<Rightarrow> bytes \<times> blake_state" where
  "blake256_final_h S pa pb =
     (let lo = bs_t0 S + of_nat (bs_buflen S);
          hi = (if lo < of_nat (bs_buflen S) then bs_t1 S + 1 else bs_t1 S);
          msglen = U32TO8 hi @ U32TO8 lo;
          S = (if bs_buflen S = 440 then
                 blake256_update (sub_t0 8 S) [pa] 8
               else
                 let S = (if bs_buflen S < 440 then
                            let n = 440 - bs_buflen S;
                                S = (if bs_buflen S = 0 then S\<lparr>bs_nullt := True\<rparr> else S)
                            in blake256_update (sub_t0 (of_nat n) S) b256_padding (of_nat n)
                          else
                            let n = 512 - bs_buflen S;
                                S = blake256_update (sub_t0 (of_nat n) S) b256_padding (of_nat n);
                                S = blake256_update (sub_t0 440 S) (drop 1 b256_padding) 440
                            in S\<lparr>bs_nullt := True\<rparr>)
                 in sub_t0 8 (blake256_update S [pb] 8));
          S = blake256_update (sub_t0 64 S) msglen 64
      in (concat (map (\<lambda>i. U32TO8 (bs_h S ! i)) [0..<8]), S))"

definition blake256_final :: "blake_state \<Rightarrow> bytes \<times> blake_state" where
  "blake256_final S = blake256_final_h S 0x81 0x01"

definition blake224_final :: "blake_state \<Rightarrow> bytes \<times> blake_state" where
  "blake224_final S = blake256_final_h S 0x80 0x00"

text \<open>The one-shot routines; the argument \<open>S\<close> is the uninitialised context on the stack.\<close>

definition blake256_hash :: "blake_state \<Rightarrow> bytes \<Rightarrow> bytes" where
  "blake256_hash S inp =
     fst (blake256_final (blake256_update (blake256_init S) inp (of_nat (length inp) * 8)))"

definition blake224_hash :: "blake_state \<Rightarrow> bytes \<Rightarrow> bytes" where
  "blake224_hash S inp =
     fst (blake224_final (blake224_update (blake224_init S) inp (of_nat (length inp) * 8)))"

section \<open>HMAC\<close>

record hmac_state =
  hm_inner :: blake_state
  hm_outer :: blake_state

definition xor_pad :: "byte \<Rightarrow> bytes \<Rightarrow> bytes" where
  "xor_pad c key = map (\<lambda>i. if i < length key then c XOR key ! i else c) [0..<64]"

definition hmac_blake256_init :: "blake_state \<Rightarrow> hmac_state \<Rightarrow> bytes \<Rightarrow> hmac_state" where
  "hmac_blake256_init stack S key =
     (let key = (if 64 < length key then take 32 (blake256_hash stack key) else key)
      in S\<lparr>hm_inner := blake256_update (blake256_init (hm_inner S)) (xor_pad 0x36 key) 512,
           hm_outer := blake256_update (blake256_init (hm_outer S)) (xor_pad 0x5c key) 512\<rparr>)"

definition hmac_blake224_init :: "blake_state \<Rightarrow> hmac_state \<Rightarrow> bytes \<Rightarrow> hmac_state" where
  "hmac_blake224_init stack S key =
     (let key = (if 64 < length key then take 28 (blake256_hash stack key) else key)
      in S\<lparr>hm_inner := blake224_update (blake224_init (hm_inner S)) (xor_pad 0x36 key) 512,
           hm_outer := blake224_update (blake224_init (hm_outer S)) (xor_pad 0x5c key) 512\<rparr>)"

definition hmac_blake256_update :: "hmac_state \<Rightarrow> bytes \<Rightarrow> u64 \<Rightarrow> hmac_state" where
  "hmac_blake256_update S data datalen = S\<lparr>hm_inner := blake256_update (hm_inner S) data datalen\<rparr>"

definition hmac_blake224_update :: "hmac_state \<Rightarrow> bytes \<Rightarrow> u64 \<Rightarrow> hmac_state" where
  "hmac_blake224_update S data datalen = S\<lparr>hm_inner := blake224_update (hm_inner S) data datalen\<rparr>"

definition hmac_blake256_final :: "hmac_state \<Rightarrow> bytes \<times> hmac_state" where
  "hmac_blake256_final S =
     (let (ihash, inner) = blake256_final (hm_inner S);
          (digest, outer) = blake256_final (blake256_update (hm_outer S) ihash 256)
      in (digest, S\<lparr>hm_inner := inner, hm_outer := outer\<rparr>))"

definition hmac_blake224_final :: "hmac_state \<Rightarrow> bytes \<times> hmac_state" where
  "hmac_blake224_final S =
     (let (ihash, inner) = blake224_final (hm_inner S);
          (digest, outer) = blake224_final (blake224_update (hm_outer S) ihash 224)
      in (digest, S\<lparr>hm_inner := inner, hm_outer := outer\<rparr>))"

definition hmac_blake256_hash :: "blake_state \<Rightarrow> hmac_state \<Rightarrow> bytes \<Rightarrow> bytes \<Rightarrow> bytes" where
  "hmac_blake256_hash stack S key inp =
     fst (hmac_blake256_final (hmac_blake256_update (hmac_blake256_init stack S key) inp (of_nat (length inp) * 8)))"

definition hmac_blake224_hash :: "blake_state \<Rightarrow> hmac_state \<Rightarrow> bytes \<Rightarrow> bytes \<Rightarrow> bytes" where
  "hmac_blake224_hash stack S key inp =
     fst (hmac_blake224_final (hmac_blake224_update (hmac_blake224_init stack S key) inp (of_nat (length inp) * 8)))"

section \<open>Specification\<close>

text \<open>The ten permutations of the BLAKE submission, repeated after ten rounds.\<close>

definition blake_perm :: "nat \<Rightarrow> nat list" where
  "blake_perm r = take 10 sigma ! (r mod 10)"

definition blake_words :: "nat \<Rightarrow> u32 list \<Rightarrow> u32 list" where
  "blake_words r m =
     concat (map (\<lambda>k. [m ! (blake_perm r ! (2 * k)) XOR cst ! (blake_perm r ! (2 * k + 1)),
                       m ! (blake_perm r ! (2 * k + 1)) XOR cst ! (blake_perm r ! (2 * k))]) [0..<8])"

definition blake_compression :: "u32 list \<Rightarrow> u32 list \<Rightarrow> bytes \<Rightarrow> u32 \<Rightarrow> u32 \<Rightarrow> u32 list" where
  "blake_compression h s block t0 t1 =
     (let m = map (\<lambda>i. le_dec (rev (take 4 (drop (4 * i) block)))) [0..<16];
          v = foldl (\<lambda>v r. blake_round (blake_words r m) v)
                (h @ map2 (XOR) s (take 4 cst) @ map2 (XOR) [t0, t0, t1, t1] (take 4 (drop 4 cst))) [0..<14]
      in map (\<lambda>i. h ! i XOR s ! (i mod 4) XOR v ! i XOR v ! (i + 8)) [0..<8])"

text \<open>
  Padding of a message of whole bytes: a one bit, zeros, the bit that tells BLAKE-256 from
  BLAKE-224, and the length in 64 bits. The counter of a block is the number of message bits
  up to its end, or zero when the block has none.
\<close>

definition blake_filler :: "byte \<Rightarrow> nat \<Rightarrow> bytes" where
  "blake_filler b L =
     (let z = 64 - (L + 8) mod 64
      in if z = 1 then [0x80 OR b] else 0x80 # replicate (z - 2) 0 @ [b])"

definition blake_padded :: "byte \<Rightarrow> bytes \<Rightarrow> bytes" where
  "blake_padded b msg = msg @ blake_filler b (length msg) @ rev (le_enc 8 (of_nat (8 * length msg) :: u64))"

definition blake_counter :: "nat \<Rightarrow> nat \<Rightarrow> nat" where
  "blake_counter L i = (if 64 * i < L then 8 * min (64 * (i + 1)) L else 0)"

definition counter_lo :: "nat \<Rightarrow> u32" where
  "counter_lo c = of_nat c"

definition counter_hi :: "nat \<Rightarrow> u32" where
  "counter_hi c = of_nat (c div 2 ^ 32)"

definition blake_chain :: "u32 list \<Rightarrow> nat \<Rightarrow> bytes \<Rightarrow> nat \<Rightarrow> u32 list" where
  "blake_chain iv L p n =
     foldl (\<lambda>h i. blake_compression h [0, 0, 0, 0] (take 64 (drop (64 * i) p))
              (counter_lo (blake_counter L i)) (counter_hi (blake_counter L i))) iv [0..<n]"

definition blake_spec :: "u32 list \<Rightarrow> byte \<Rightarrow> bytes \<Rightarrow> bytes" where
  "blake_spec iv b msg =
     (let p = blake_padded b msg
      in concat (map (\<lambda>w. rev (le_enc 4 w)) (blake_chain iv (length msg) p (length p div 64))))"

definition BLAKE256 :: "bytes \<Rightarrow> bytes" where
  "BLAKE256 msg = blake_spec IV256 1 msg"

definition BLAKE224 :: "bytes \<Rightarrow> bytes" where
  "BLAKE224 msg = take 28 (blake_spec IV224 0 msg)"

definition HMAC_spec :: "(bytes \<Rightarrow> bytes) \<Rightarrow> bytes \<Rightarrow> bytes \<Rightarrow> bytes" where
  "HMAC_spec H key msg =
     (let k = (if 64 < length key then H key else key);
          k = k @ replicate (64 - length k) 0
      in H (map ((XOR) 0x5c) k @ H (map ((XOR) 0x36) k @ msg)))"

section \<open>The compression meets the specification\<close>

lemma ROT_rotr: "0 < n \<Longrightarrow> n < 32 \<Longrightarrow> ROT x n = word_rotr n x"
  using shifts_or_rotr [of n x] by (simp add: ROT_def or.commute)

lemma blake256_G_mix:
  "blake256_G i m v a b c d e =
   blake_mix v a b c d (m ! (sigma ! i ! e) XOR cst ! (sigma ! i ! (e + 1)))
     (m ! (sigma ! i ! (e + 1)) XOR cst ! (sigma ! i ! e))"
proof -
  have "(m ! (sigma ! i ! e) XOR cst ! (sigma ! i ! (e + 1))) + w = w + (m ! (sigma ! i ! e) XOR cst ! (sigma ! i ! (e + 1)))"
    "(m ! (sigma ! i ! (e + 1)) XOR cst ! (sigma ! i ! e)) + w = w + (m ! (sigma ! i ! (e + 1)) XOR cst ! (sigma ! i ! e))"
    for w by (rule add.commute)+
  moreover have "ROT x 16 = word_rotr 16 x" "ROT x 12 = word_rotr 12 x" "ROT x 8 = word_rotr 8 x" "ROT x 7 = word_rotr 7 x" for x
    by (simp_all add: ROT_rotr)
  ultimately show ?thesis by (simp only: blake256_G_def blake_mix_def)
qed

lemma sigma_perm: "r < 14 \<Longrightarrow> sigma ! r = blake_perm r"
proof -
  have "\<forall>r \<in> set [0..<14]. sigma ! r = blake_perm r" by code_simp
  then show "r < 14 \<Longrightarrow> ?thesis" by simp
qed

lemma blake256_round_spec:
  assumes "length v = 16" and "r < 14"
  shows "blake256_round m v r = blake_round (blake_words r m) v"
proof -
  have words: "blake_words r m =
      [m ! (blake_perm r ! 0) XOR cst ! (blake_perm r ! 1), m ! (blake_perm r ! 1) XOR cst ! (blake_perm r ! 0),
       m ! (blake_perm r ! 2) XOR cst ! (blake_perm r ! 3), m ! (blake_perm r ! 3) XOR cst ! (blake_perm r ! 2),
       m ! (blake_perm r ! 4) XOR cst ! (blake_perm r ! 5), m ! (blake_perm r ! 5) XOR cst ! (blake_perm r ! 4),
       m ! (blake_perm r ! 6) XOR cst ! (blake_perm r ! 7), m ! (blake_perm r ! 7) XOR cst ! (blake_perm r ! 6),
       m ! (blake_perm r ! 8) XOR cst ! (blake_perm r ! 9), m ! (blake_perm r ! 9) XOR cst ! (blake_perm r ! 8),
       m ! (blake_perm r ! 10) XOR cst ! (blake_perm r ! 11), m ! (blake_perm r ! 11) XOR cst ! (blake_perm r ! 10),
       m ! (blake_perm r ! 12) XOR cst ! (blake_perm r ! 13), m ! (blake_perm r ! 13) XOR cst ! (blake_perm r ! 12),
       m ! (blake_perm r ! 14) XOR cst ! (blake_perm r ! 15), m ! (blake_perm r ! 15) XOR cst ! (blake_perm r ! 14)]"
    by (simp add: blake_words_def upt_rec)
  show ?thesis
    unfolding blake256_round_def blake256_G_mix Let_def sigma_perm [OF assms(2)]
    using blake_mixes_round(2) [OF assms(1), of "blake_words r m"] by (simp add: words Let_def)
qed

lemma length_blake_rounds [simp]:
  "length (foldl (\<lambda>v r. blake_round (f r) v) v rs) = length v"
  by (induction rs arbitrary: v) simp_all

lemma blake256_rounds_spec:
  "n \<le> 14 \<Longrightarrow> length v = 16 \<Longrightarrow>
   foldl (blake256_round m) v [0..<n] = foldl (\<lambda>v r. blake_round (blake_words r m) v) v [0..<n]"
  by (induction n) (simp_all add: blake256_round_spec)

lemma U8TO32_dec: "4 \<le> length p \<Longrightarrow> U8TO32 p = le_dec (rev (take 4 p))"
  by (simp add: nth_first_four U8TO32_def push_bit_or push_bit_push_bit or.assoc or.commute or.left_commute)

lemma U32TO8_enc: "U32TO8 v = rev (le_enc 4 v)"
  by (simp add: U32TO8_def numeral_eq_Suc drop_bit_drop_bit)

lemma fold_feedback:
  fixes h v s :: "u32 list"
  assumes "length h = 8" and "length v = 16"
  shows "foldl (\<lambda>h i. h[i := h ! i XOR s ! (i mod 4)])
      (foldl (\<lambda>h i. h[i mod 8 := h ! (i mod 8) XOR v ! i]) h [0..<16]) [0..<8] =
    map (\<lambda>i. h ! i XOR s ! (i mod 4) XOR v ! i XOR v ! (i + 8)) [0..<8]"
proof -
  have "length h = Suc (Suc (Suc (Suc (Suc (Suc (Suc (Suc 0)))))))" using assms(1) by simp
  then obtain h0 h1 h2 h3 h4 h5 h6 h7 where h: "h = [h0, h1, h2, h3, h4, h5, h6, h7]"
    unfolding length_Suc_conv by auto
  obtain v0 v1 v2 v3 v4 v5 v6 v7 v8 v9 v10 v11 v12 v13 v14 v15
    where v: "v = [v0, v1, v2, v3, v4, v5, v6, v7, v8, v9, v10, v11, v12, v13, v14, v15]"
    using assms(2) by (rule list16_cases)
  show ?thesis by (simp add: h v upt_rec ac_simps)
qed

lemma blake256_compress_spec:
  assumes "length (bs_h S) = 8" and "length (bs_s S) = 4" and "length block = 64"
  shows "blake256_compress S block =
    S\<lparr>bs_h := blake_compression (bs_h S) (bs_s S) block
       (if bs_nullt S then 0 else bs_t0 S) (if bs_nullt S then 0 else bs_t1 S)\<rparr>"
proof -
  define m where "m = map (\<lambda>i. U8TO32 (drop (i * 4) block)) [0..<16]"
  have m: "map (\<lambda>i. le_dec (rev (take 4 (drop (4 * i) block)))) [0..<16] = m"
    unfolding m_def by (rule map_cong) (simp_all add: U8TO32_dec assms(3) mult.commute)
  define t0 t1 where "t0 = (if bs_nullt S then 0 else bs_t0 S)" and "t1 = (if bs_nullt S then 0 else bs_t1 S)"
  let ?v0 = "map (\<lambda>i. bs_h S ! i) [0..<8] @
      [bs_s S ! 0 XOR 0x243F6A88, bs_s S ! 1 XOR 0x85A308D3, bs_s S ! 2 XOR 0x13198A2E, bs_s S ! 3 XOR 0x03707344,
       0xA4093822, 0x299F31D0, 0x082EFA98, 0xEC4E6C89]"
  define v where "v = bs_h S @ map2 (XOR) (bs_s S) (take 4 cst) @ map2 (XOR) [t0, t0, t1, t1] (take 4 (drop 4 cst))"
  have h: "map (\<lambda>i. bs_h S ! i) [0..<8] = bs_h S" using map_nth [of "bs_h S"] assms(1) by simp
  have s: "bs_s S = [bs_s S ! 0, bs_s S ! 1, bs_s S ! 2, bs_s S ! 3]"
    using nth_first_four [of "bs_s S"] assms(2) by simp
  have v0: "(if \<not> bs_nullt S then ?v0[12 := ?v0 ! 12 XOR bs_t0 S, 13 := ?v0 ! 13 XOR bs_t0 S,
      14 := ?v0 ! 14 XOR bs_t1 S, 15 := ?v0 ! 15 XOR bs_t1 S] else ?v0) = v"
    unfolding h v_def t0_def t1_def using assms(1)
    by (subst (5) s) (simp add: nth_append list_update_append cst_def xor.commute)
  have len: "length v = 16" by (simp add: v_def assms cst_def)
  show ?thesis
    unfolding blake256_compress_def blake_compression_def Let_def m_def [symmetric] m v0
      t0_def [symmetric] t1_def [symmetric] v_def [symmetric] blake256_rounds_spec [OF order_refl len]
    by (subst fold_feedback) (simp_all add: assms(1) len)
qed

section \<open>The buffer between updates\<close>

text \<open>The chaining value after the first \<open>n\<close> whole blocks of \<open>M\<close>.\<close>

definition full_chain :: "u32 list \<Rightarrow> bytes \<Rightarrow> nat \<Rightarrow> u32 list" where
  "full_chain iv M n =
     foldl (\<lambda>h i. blake_compression h [0, 0, 0, 0] (take 64 (drop (64 * i) M))
              (counter_lo (512 * (i + 1))) (counter_hi (512 * (i + 1)))) iv [0..<n]"

definition absorbed :: "u32 list \<Rightarrow> nat \<Rightarrow> bytes \<Rightarrow> blake_state \<Rightarrow> bool" where
  "absorbed iv n M S \<longleftrightarrow> bs_h S = full_chain iv M n \<and> bs_t0 S = counter_lo (512 * n) \<and>
     bs_t1 S = counter_hi (512 * n) \<and> bs_s S = [0, 0, 0, 0] \<and> \<not> bs_nullt S \<and> length (bs_buf S) = 64"

text \<open>The context stands for the message \<open>M\<close>: whole blocks are compressed, the rest is buffered.\<close>

definition stands_for :: "u32 list \<Rightarrow> bytes \<Rightarrow> blake_state \<Rightarrow> bool" where
  "stands_for iv M S \<longleftrightarrow> absorbed iv (length M div 64) M S \<and> bs_buflen S = 8 * (length M mod 64) \<and>
     take (length M mod 64) (bs_buf S) = drop (64 * (length M div 64)) M"

lemma length_blake_compression [simp]: "length (blake_compression h s b t0 t1) = 8"
  by (simp add: blake_compression_def Let_def)

lemma length_full_chain [simp]: "length iv = 8 \<Longrightarrow> length (full_chain iv M n) = 8"
  by (induction n) (simp_all add: full_chain_def)

lemma full_chain_Suc:
  "full_chain iv M (Suc n) = blake_compression (full_chain iv M n) [0, 0, 0, 0] (take 64 (drop (64 * n) M))
     (counter_lo (512 * (n + 1))) (counter_hi (512 * (n + 1)))"
  by (simp add: full_chain_def)

lemma full_chain_prefix: "64 * n \<le> length M \<Longrightarrow> full_chain iv (M @ D) n = full_chain iv M n"
  unfolding full_chain_def by (rule foldl_cong) auto

lemma counter_carry:
  "(512 * (n + 1)) div 2 ^ 32 = 512 * n div 2 ^ 32 + (if 512 * (n + 1) mod 2 ^ 32 = 0 then 1 else 0 :: nat)"
proof -
  have scale: "512 * k div 2 ^ 32 = k div 2 ^ 23" "512 * k mod 2 ^ 32 = 512 * (k mod 2 ^ 23)" for k :: nat
    using div_mult_mult1 [of 512 k "2 ^ 23 :: nat"] mult_mod_right [of 512 k "2 ^ 23 :: nat"] by simp_all
  show ?thesis by (simp only: scale) (simp add: div_Suc)
qed

lemma count_block_absorbed:
  assumes "bs_t0 S = counter_lo (512 * n)" and "bs_t1 S = counter_hi (512 * n)"
  shows "count_block S = S\<lparr>bs_t0 := counter_lo (512 * (n + 1)), bs_t1 := counter_hi (512 * (n + 1))\<rparr>"
proof -
  have t0: "bs_t0 S + 512 = of_nat (512 * (n + 1))" by (simp add: assms(1) counter_lo_def)
  have "(of_nat (512 * (n + 1)) = (0 :: u32)) \<longleftrightarrow> 512 * (n + 1) mod 2 ^ 32 = 0"
    by (simp only: word_of_nat_eq_0_iff dvd_eq_mod_eq_0) simp
  then show ?thesis
    unfolding count_block_def Let_def t0 counter_lo_def counter_hi_def counter_carry assms(2) by simp
qed

lemma absorbed_step:
  assumes "absorbed iv n M S" and "length iv = 8" and "64 * (n + 1) \<le> length M"
    and "b = take 64 (drop (64 * n) M)"
  shows "absorbed iv (n + 1) M (blake256_compress (count_block S) b) \<and>
    bs_buf (blake256_compress (count_block S) b) = bs_buf S"
proof -
  have c: "count_block S = S\<lparr>bs_t0 := counter_lo (512 * (n + 1)), bs_t1 := counter_hi (512 * (n + 1))\<rparr>"
    using assms(1) by (intro count_block_absorbed) (simp_all add: absorbed_def)
  have "length b = 64" using assms(3,4) by simp
  then show ?thesis
    unfolding c using assms(1,2) assms(4) [symmetric]
    by (simp add: blake256_compress_spec absorbed_def full_chain_Suc)
qed

lemma absorbed_buf: "absorbed iv n M S \<Longrightarrow> length b = 64 \<Longrightarrow> absorbed iv n M (S\<lparr>bs_buf := b\<rparr>)"
  by (simp add: absorbed_def)

lemma blake256_blocks_absorbed:
  assumes "absorbed iv n M S" and "length iv = 8" and "64 * n \<le> length M" and "8 * (length M - 64 * n) < 2 ^ 64"
  shows "\<exists>S'. blake256_blocks S (drop (64 * n) M) (of_nat (8 * (length M - 64 * n))) =
      (S', drop (64 * (length M div 64)) M, of_nat (8 * (length M mod 64)))
    \<and> absorbed iv (length M div 64) M S' \<and> bs_buf S' = bs_buf S"
  using assms
proof (induction "length M - 64 * n" arbitrary: n S rule: less_induct)
  case less
  let ?l = "8 * (length M - 64 * n)"
  have l: "?l < 2 ^ 64" using less.prems(4) by simp
  have le: "512 \<le> (of_nat ?l :: u64) \<longleftrightarrow> 64 * (n + 1) \<le> length M"
  proof -
    have "512 \<le> (of_nat ?l :: u64) \<longleftrightarrow> 512 \<le> ?l"
      using l by (simp only: word_le_nat_alt unat_of_nat take_bit_nat_eq_self) simp
    also have "\<dots> \<longleftrightarrow> 64 * (n + 1) \<le> length M" using less.prems(3) by arith
    finally show ?thesis .
  qed
  show ?case
  proof (cases "64 * (n + 1) \<le> length M")
    case True
    define S1 where "S1 = blake256_compress (count_block S) (take 64 (drop (64 * n) M))"
    have S1: "absorbed iv (n + 1) M S1" "bs_buf S1 = bs_buf S"
      using absorbed_step [OF less.prems(1,2) True refl] by (simp_all add: S1_def)
    have d: "(of_nat ?l :: u64) - 512 = of_nat (8 * (length M - 64 * (n + 1)))"
      using True by (simp add: of_nat_diff)
    have "drop 64 (drop (64 * n) M) = drop (64 * (n + 1)) M" by (simp add: add.commute)
    then have "blake256_blocks S (drop (64 * n) M) (of_nat ?l) =
        blake256_blocks S1 (drop (64 * (n + 1)) M) (of_nat (8 * (length M - 64 * (n + 1))))"
      using le True by (subst blake256_blocks.simps) (simp only: if_True d S1_def)
    then show ?thesis using less.hyps [OF _ S1(1) less.prems(2) True] less.prems(4) S1(2) True by simp
  next
    case False
    then have n: "n = length M div 64" using less.prems(3) by auto
    then have "length M - 64 * n = length M mod 64" by (simp add: minus_mult_div_eq_mod)
    then show ?thesis
      using less.prems(1) le False n by (subst blake256_blocks.simps) simp
  qed
qed

section \<open>What an update does\<close>

text \<open>
  The message a context stands for after an update. It is the concatenation when the buffer is
  empty or the test on the length modulo 64 sends the update through the buffer. Otherwise the
  whole blocks of the new data overtake the buffered bytes, which are dropped altogether when
  no bytes remain to be buffered.
\<close>

definition fed_message :: "bytes \<Rightarrow> bytes \<Rightarrow> bytes" where
  "fed_message M D =
     (let n = length M div 64; r = length M mod 64; q = length D div 64
      in if r = 0 \<or> 64 - r \<le> length D mod 64 then M @ D
         else if length D mod 64 = 0 then take (64 * n) M @ D
         else take (64 * n) M @ take (64 * q) D @ drop (64 * n) M @ drop (64 * q) D)"

lemma fed_message_append:
  "length M mod 64 = 0 \<or> 64 - length M mod 64 \<le> length D mod 64 \<or> (D \<noteq> [] \<and> length M mod 64 + length D < 64) \<Longrightarrow>
   fed_message M D = M @ D"
  by (auto simp: fed_message_def Let_def dest: dvd_imp_le)

lemma unat_bits: "8 * n < 2 ^ 64 \<Longrightarrow> unat (of_nat (8 * n) :: u64) = 8 * n"
  by (simp add: unat_of_nat take_bit_nat_eq_self del: of_nat_mult)

lemma bits_to_bytes: "8 * n < 2 ^ 64 \<Longrightarrow> unat (drop_bit 3 (of_nat (8 * n) :: u64)) = n"
  using unat_bits [of n] by (simp add: drop_bit_eq_div unat_div del: of_nat_mult)

lemma bits_mod_block: "8 * n < 2 ^ 64 \<Longrightarrow> unat (drop_bit 3 (of_nat (8 * n) :: u64) AND 0x3F) = n mod 64"
proof -
  assume "8 * n < 2 ^ 64"
  moreover have "(0x3F :: u64) = mask 6" by (simp add: mask_eq_exp_minus_1)
  ultimately show ?thesis using bits_to_bytes [of n] unat_bits [of n] unat_bit_field [of 3 "of_nat (8 * n) :: u64" 6]
    by (simp del: of_nat_mult)
qed

lemma absorbed_prefix:
  "absorbed iv n (P @ A) S \<Longrightarrow> 64 * n \<le> length P \<Longrightarrow> absorbed iv n (P @ B) S"
  by (simp add: absorbed_def full_chain_prefix)

text \<open>The loop over the blocks and the final copy, after the buffered block if there is one.\<close>

definition finish_update :: "blake_state \<Rightarrow> bytes \<Rightarrow> u64 \<Rightarrow> nat \<Rightarrow> blake_state" where
  "finish_update S data datalen left =
     (let (S, data, datalen) = blake256_blocks S data datalen
      in if 0 < datalen
         then S\<lparr>bs_buf := memcpy_at (bs_buf S) left (take (unat (drop_bit 3 datalen)) data),
                bs_buflen := 8 * left + unat datalen\<rparr>
         else S\<lparr>bs_buflen := 0\<rparr>)"

lemma blake256_update_finish:
  "blake256_update S data datalen =
     (let left = bs_buflen S div 8; fill = 64 - left
      in if left \<noteq> 0 \<and> fill \<le> unat (drop_bit 3 datalen AND 0x3F) then
           let S = S\<lparr>bs_buf := memcpy_at (bs_buf S) left (take fill data)\<rparr>
           in finish_update (blake256_compress (count_block S) (bs_buf S)) (drop fill data) (datalen - of_nat (8 * fill)) 0
         else finish_update S data datalen left)"
  unfolding blake256_update_def finish_update_def Let_def by (simp only: split: if_split) simp

lemma finish_update_stands_for:
  assumes "absorbed iv n (P @ D) S" and "length iv = 8" and "length P = 64 * n" and "8 * length D < 2 ^ 64"
    and "left + length D mod 64 < 64" and "take left (bs_buf S) = B" and "length B = left"
  shows "stands_for iv (if length D mod 64 = 0 then P @ D
      else P @ take (64 * (length D div 64)) D @ B @ drop (64 * (length D div 64)) D)
    (finish_update S D (of_nat (8 * length D)) left)"
proof -
  let ?q = "length D div 64" and ?m = "length D mod 64"
  have divs: "(64 * n + length D) div 64 = n + ?q" "(64 * n + length D) mod 64 = ?m" by simp_all
  have q: "64 * ?q \<le> length D" by simp
  obtain S' where S': "blake256_blocks S D (of_nat (8 * length D)) = (S', drop (64 * ?q) D, of_nat (8 * ?m))"
    and ab: "absorbed iv (n + ?q) (P @ D) S'" and buf: "bs_buf S' = bs_buf S"
    using blake256_blocks_absorbed [of iv n "P @ D" S] assms(1-4) divs
    by (auto simp: distrib_left)
  have len: "length (bs_buf S) = 64" using assms(1) by (simp add: absorbed_def)
  have m: "8 * ?m < 2 ^ 64" using mod_less_divisor [of 64 "length D"] by simp
  show ?thesis
  proof (cases "?m = 0")
    case True
    then have "length D = 64 * ?q" using mult_div_mod_eq [of 64 "length D"] by simp
    then show ?thesis using True S' ab assms(3) divs
      by (simp add: finish_update_def stands_for_def absorbed_def)
  next
    case False
    have split: "P @ D = (P @ take (64 * ?q) D) @ drop (64 * ?q) D" by simp
    have ab': "absorbed iv (n + ?q) ((P @ take (64 * ?q) D) @ B @ drop (64 * ?q) D) S'"
      using ab unfolding split by (rule absorbed_prefix) (simp add: assms(3) q)
    have pos: "(0 :: u64) < of_nat (8 * ?m)"
      using False unat_bits [OF m] by (simp add: word_less_nat_alt del: of_nat_mult)
    have dlen: "length (drop (64 * ?q) D) = ?m" by (simp add: minus_mult_div_eq_mod)
    have "stands_for iv ((P @ take (64 * ?q) D) @ B @ drop (64 * ?q) D)
      (S'\<lparr>bs_buf := memcpy_at (bs_buf S) left (drop (64 * ?q) D), bs_buflen := 8 * left + 8 * ?m\<rparr>)"
    proof -
      have L: "length ((P @ take (64 * ?q) D) @ B @ drop (64 * ?q) D) = 64 * (n + ?q) + (left + ?m)"
        using assms(3,7) dlen q by simp
      have "length ((P @ take (64 * ?q) D) @ B @ drop (64 * ?q) D) div 64 = n + ?q"
        "length ((P @ take (64 * ?q) D) @ B @ drop (64 * ?q) D) mod 64 = left + ?m"
        unfolding L using assms(5) by (simp_all only: div_mult_self4 mod_mult_self4) simp_all
      moreover have "take (left + ?m) (memcpy_at (bs_buf S) left (drop (64 * ?q) D)) = B @ drop (64 * ?q) D"
        using take_memcpy_at [of left "bs_buf S" "drop (64 * ?q) D", unfolded dlen] assms(5,6) len by simp
      moreover have "absorbed iv (n + ?q) ((P @ take (64 * ?q) D) @ B @ drop (64 * ?q) D)
          (S'\<lparr>bs_buf := memcpy_at (bs_buf S) left (drop (64 * ?q) D), bs_buflen := 8 * left + 8 * ?m\<rparr>)"
        using ab' assms(5) len dlen by (simp add: absorbed_def)
      ultimately show ?thesis unfolding stands_for_def
        using assms(3) q by (simp add: distrib_left)
    qed
    then show ?thesis
      using False S' buf pos unat_bits [OF m] bits_to_bytes [OF m] dlen
      by (simp add: finish_update_def del: of_nat_mult)
  qed
qed

lemma finish_update_aligned:
  assumes "absorbed iv n (P @ D) S" and "length iv = 8" and "length P = 64 * n" and "8 * length D < 2 ^ 64"
  shows "stands_for iv (P @ D) (finish_update S D (of_nat (8 * length D)) 0)"
  using finish_update_stands_for [OF assms, of 0 "[]"] by (simp only: append_Nil append_take_drop_id if_cancel) simp

lemma blake256_update_stands_for:
  assumes "stands_for iv M S" and "length iv = 8" and "8 * length D < 2 ^ 64"
  shows "stands_for iv (fed_message M D) (blake256_update S D (of_nat (8 * length D)))"
proof -
  let ?n = "length M div 64" and ?r = "length M mod 64"
  define P B where "P = take (64 * ?n) M" and "B = drop (64 * ?n) M"
  have PB: "M = P @ B" "length P = 64 * ?n" "length B = ?r"
    by (simp_all add: P_def B_def minus_mult_div_eq_mod)
  have "absorbed iv ?n (P @ B) S" using assms(1) by (simp only: stands_for_def PB(1) [symmetric])
  then have ab: "absorbed iv ?n (P @ X) S" for X by (rule absorbed_prefix) (simp add: PB(2))
  have S: "bs_buflen S div 8 = ?r" "take ?r (bs_buf S) = B" "length (bs_buf S) = 64"
    using assms(1) by (simp_all add: stands_for_def absorbed_def B_def)
  note bits = bits_mod_block [OF assms(3)]
  show ?thesis
  proof (cases "?r = 0 \<or> \<not> 64 - ?r \<le> length D mod 64")
    case True
    have "?r + length D mod 64 < 64" using True by auto
    moreover have "fed_message M D = (if length D mod 64 = 0 then P @ D
        else P @ take (64 * (length D div 64)) D @ B @ drop (64 * (length D div 64)) D)"
    proof (cases "?r = 0")
      case True
      then have "fed_message M D = M @ D" "B = []" using PB(3) by (simp_all add: fed_message_def)
      then show ?thesis unfolding PB(1) by simp
    next
      case False
      then show ?thesis using True unfolding fed_message_def Let_def P_def [symmetric] B_def [symmetric] by simp
    qed
    moreover have "blake256_update S D (of_nat (8 * length D)) = finish_update S D (of_nat (8 * length D)) ?r"
      unfolding blake256_update_finish Let_def S(1) bits using True by (intro if_not_P) simp
    ultimately show ?thesis
      using finish_update_stands_for [OF ab assms(2) PB(2) assms(3) _ S(2) PB(3)] by simp
  next
    case False
    define f where "f = 64 - ?r"
    have f: "f \<le> length D" "f \<le> length D mod 64" "?r + f = 64"
      using False mod_less_eq_dividend [of "length D" 64] by (auto simp: f_def)
    define S1 where "S1 = S\<lparr>bs_buf := B @ take f D\<rparr>"
    have buf: "memcpy_at (bs_buf S) ?r (take f D) = B @ take f D"
      using S f by (subst memcpy_at_full) auto
    define S2 where "S2 = blake256_compress (count_block S1) (B @ take f D)"
    have "length (B @ take f D) = 64" using PB(3) f by simp
    then have S1: "absorbed iv ?n ((P @ B @ take f D) @ drop f D) S1"
      using absorbed_buf [OF ab] by (simp add: S1_def)
    have len: "length (P @ B @ take f D) = 64 * (?n + 1)" using PB(2,3) f by simp
    have block: "B @ take f D = take 64 (drop (64 * ?n) ((P @ B @ take f D) @ drop f D))"
      using PB(2,3) f(3) by (simp add: f_def)
    have S2: "absorbed iv (?n + 1) ((P @ B @ take f D) @ drop f D) S2"
      unfolding S2_def using len by (intro absorbed_step [OF S1 assms(2) _ block, THEN conjunct1]) simp
    have d: "(of_nat (8 * length D) :: u64) - of_nat (8 * f) = of_nat (8 * length (drop f D))"
      using f(1) by (simp add: of_nat_diff algebra_simps)
    have "stands_for iv ((P @ B @ take f D) @ drop f D) (finish_update S2 (drop f D) (of_nat (8 * length (drop f D))) 0)"
      using finish_update_aligned [OF S2 assms(2) len] assms(3) by simp
    moreover have "fed_message M D = M @ D" using False by (simp add: fed_message_def)
    then have "fed_message M D = (P @ B @ take f D) @ drop f D" unfolding PB(1) by simp
    moreover have "blake256_update S D (of_nat (8 * length D)) = finish_update S2 (drop f D) (of_nat (8 * length (drop f D))) 0"
      unfolding blake256_update_finish Let_def S(1) bits f_def [symmetric] d buf
      using False f by (simp add: S2_def S1_def f_def [symmetric] buf)
    ultimately show ?thesis by simp
  qed
qed

section \<open>Padding and the last blocks\<close>

lemma update_short:
  assumes "bs_buflen S = 8 * l" and "l + k < 64" and "0 < k"
  shows "blake256_update S X (of_nat (8 * k)) = S\<lparr>bs_buf := memcpy_at (bs_buf S) l (take k X), bs_buflen := 8 * (l + k)\<rparr>"
proof -
  have k: "8 * k < 2 ^ 64" using assms(2) by simp
  have "\<not> 512 \<le> (of_nat (8 * k) :: u64)" "0 < (of_nat (8 * k) :: u64)"
    using assms(2,3) unat_bits [OF k] by (simp_all add: word_le_nat_alt word_less_nat_alt del: of_nat_mult)
  then have "finish_update S X (of_nat (8 * k)) l = S\<lparr>bs_buf := memcpy_at (bs_buf S) l (take k X), bs_buflen := 8 * (l + k)\<rparr>"
    using unat_bits [OF k] bits_to_bytes [OF k]
    by (simp add: finish_update_def blake256_blocks.simps del: of_nat_mult)
  moreover have "\<not> (l \<noteq> 0 \<and> 64 - l \<le> k)" using assms(2) by linarith
  moreover have "bs_buflen S div 8 = l" "k mod 64 = k" using assms by simp_all
  ultimately show ?thesis
    unfolding blake256_update_finish Let_def bits_mod_block [OF k] by (simp only: if_False)
qed

lemma update_fill:
  assumes "bs_buflen S = 8 * l" and "l + k = 64" and "0 < l" and "0 < k"
  shows "blake256_update S X (of_nat (8 * k)) =
    (blake256_compress (count_block (S\<lparr>bs_buf := memcpy_at (bs_buf S) l (take k X)\<rparr>)) (memcpy_at (bs_buf S) l (take k X)))
      \<lparr>bs_buflen := 0\<rparr>"
proof -
  have k: "8 * k < 2 ^ 64" "k < 64" "64 - l = k" using assms(2,3) by simp_all
  have "finish_update T Y 0 0 = T\<lparr>bs_buflen := 0\<rparr>" for T Y
    by (simp add: finish_update_def blake256_blocks.simps)
  then show ?thesis
    using assms k bits_mod_block [OF k(1)] by (simp add: blake256_update_finish Let_def del: of_nat_mult)
qed

lemma count_parts:
  assumes "r < 64"
  shows "(512 * n + 8 * r) div 2 ^ 32 = 512 * n div 2 ^ 32"
    and "(512 * n + 8 * r) mod 2 ^ 32 = 512 * n mod 2 ^ 32 + 8 * (r :: nat)"
proof -
  define a b where "a = n div 2 ^ 23" and "b = n mod 2 ^ 23"
  have n: "n = 2 ^ 23 * a + b" by (simp add: a_def b_def)
  have "b < 2 ^ 23" by (simp add: b_def)
  then have b: "512 * b + 8 * r < 2 ^ 32" "512 * b < 2 ^ 32" using assms by simp_all
  have "512 * n + 8 * r = 2 ^ 32 * a + (512 * b + 8 * r)" "512 * n = 2 ^ 32 * a + 512 * b"
    by (simp_all add: n)
  then show "(512 * n + 8 * r) div 2 ^ 32 = 512 * n div 2 ^ 32"
    "(512 * n + 8 * r) mod 2 ^ 32 = 512 * n mod 2 ^ 32 + 8 * r"
    using b by (simp_all only: div_mult_self4 mod_mult_self4 div_less mod_less)
qed

lemma counter_parts:
  assumes "r < 64"
  shows "counter_hi (512 * n + 8 * r) = counter_hi (512 * n)"
    and "counter_lo (512 * n) + of_nat (8 * r) = counter_lo (512 * n + 8 * r)"
    and "\<not> counter_lo (512 * n + 8 * r) < of_nat (8 * r)"
    and "0 < r \<Longrightarrow> counter_lo (512 * n + 8 * r) \<noteq> 0"
proof -
  show "counter_hi (512 * n + 8 * r) = counter_hi (512 * n)"
    unfolding counter_hi_def count_parts(1) [OF assms] ..
  show "counter_lo (512 * n) + of_nat (8 * r) = counter_lo (512 * n + 8 * r)"
    by (simp only: counter_lo_def of_nat_add)
  have lo: "unat (counter_lo (512 * n + 8 * r)) = 512 * n mod 2 ^ 32 + 8 * r"
    unfolding counter_lo_def unat_of_nat take_bit_eq_mod using count_parts(2) [OF assms] by simp
  have "unat (of_nat (8 * r) :: u32) = 8 * r"
    using assms by (simp add: unat_of_nat take_bit_nat_eq_self del: of_nat_mult)
  then show "\<not> counter_lo (512 * n + 8 * r) < of_nat (8 * r)"
    using lo by (simp only: word_less_nat_alt not_less le_add2)
  show "counter_lo (512 * n + 8 * r) \<noteq> 0" if "0 < r" using lo that by auto
qed

lemma length_U32TO8 [simp]: "length (U32TO8 w) = 4"
  by (simp add: U32TO8_def)

lemma msglen_spec: "U32TO8 (counter_hi c) @ U32TO8 (counter_lo c) = rev (le_enc 8 (of_nat c :: u64))"
proof -
  have "counter_lo c = ucast (of_nat c :: u64)" "counter_hi c = ucast (drop_bit 32 (of_nat c :: u64))"
    unfolding counter_lo_def counter_hi_def drop_bit_eq_div [of 32 c, symmetric]
    by (rule bit_word_eqI; simp add: bit_simps)+
  then show ?thesis
    by (simp add: U32TO8_enc le_enc_halves)
qed

lemma final_block:
  assumes "bs_buflen S = 448" and "length (bs_buf S) = 64" and "length (bs_h S) = 8" and "length (bs_s S) = 4"
    and "length ml = 8"
  shows "bs_h (blake256_update (sub_t0 64 S) ml 64) =
    blake_compression (bs_h S) (bs_s S) (take 56 (bs_buf S) @ ml)
      (if bs_nullt S then 0 else 448 + bs_t0 S)
      (if bs_nullt S then 0 else if 448 + bs_t0 S = 0 then bs_t1 S + 1 else bs_t1 S)"
proof -
  have b: "memcpy_at (bs_buf S) 56 (take 8 ml) = take 56 (bs_buf S) @ ml"
    using assms by (subst memcpy_at_full) auto
  have "blake256_update (sub_t0 64 S) ml (of_nat (8 * 8)) =
      (blake256_compress (count_block ((sub_t0 64 S)\<lparr>bs_buf := take 56 (bs_buf S) @ ml\<rparr>)) (take 56 (bs_buf S) @ ml))
        \<lparr>bs_buflen := 0\<rparr>"
    using update_fill [of "sub_t0 64 S" 56 8 ml] assms(1) b by (simp add: sub_t0_def del: of_nat_mult)
  then show ?thesis
    using assms by (simp add: blake256_compress_spec count_block_def sub_t0_def Let_def)
qed

text \<open>The chaining value of the padded message in terms of whole blocks, tail and filler.\<close>

lemma blake_chain_Suc:
  "blake_chain iv L p (Suc n) = blake_compression (blake_chain iv L p n) [0, 0, 0, 0] (take 64 (drop (64 * n) p))
     (counter_lo (blake_counter L n)) (counter_hi (blake_counter L n))"
  by (simp add: blake_chain_def)

lemma blake_chain_full:
  assumes "64 * n \<le> length M"
  shows "blake_chain iv (length M) (M @ X) n = full_chain iv M n"
  unfolding blake_chain_def full_chain_def
  by (rule foldl_cong) (use assms in \<open>auto simp: blake_counter_def min_def\<close>)

lemma blake_spec_chain:
  fixes M :: bytes and b :: byte
  defines "n \<equiv> length M div 64" and "r \<equiv> length M mod 64"
  defines "B \<equiv> drop (64 * n) M" and "F \<equiv> blake_filler b (length M)" and "E \<equiv> rev (le_enc 8 (of_nat (8 * length M) :: u64))"
  shows "r < 56 \<Longrightarrow> blake_chain iv (length M) (blake_padded b M) (length (blake_padded b M) div 64) =
      blake_compression (full_chain iv M n) [0, 0, 0, 0] (B @ F @ E)
        (counter_lo (if r = 0 then 0 else 8 * length M)) (counter_hi (if r = 0 then 0 else 8 * length M))"
    and "\<not> r < 56 \<Longrightarrow> blake_chain iv (length M) (blake_padded b M) (length (blake_padded b M) div 64) =
      blake_compression
        (blake_compression (full_chain iv M n) [0, 0, 0, 0] (take 64 (B @ F @ E))
          (counter_lo (8 * length M)) (counter_hi (8 * length M)))
        [0, 0, 0, 0] (drop 64 (B @ F @ E)) 0 0"
proof -
  have len: "length M = 64 * n + r" "r < 64" by (simp_all add: n_def r_def)
  have B: "length B = r" by (simp add: B_def len(1))
  have p: "blake_padded b M = M @ F @ E" by (simp add: blake_padded_def F_def E_def)
  have p': "blake_padded b M = take (64 * n) M @ B @ F @ E" by (simp add: p B_def)
  have tl: "length (take (64 * n) M) = 64 * n" using len by simp
  have E: "length E = 8" by (simp add: E_def)
  have dr: "drop (64 * n) (blake_padded b M) = B @ F @ E" unfolding p' using tl by simp
  have ch: "blake_chain iv (length M) (blake_padded b M) n = full_chain iv M n"
    unfolding p using len by (intro blake_chain_full) simp
  have c: "blake_counter (length M) n = (if r = 0 then 0 else 8 * length M)"
    using len by (auto simp: blake_counter_def min_def)
  show "blake_chain iv (length M) (blake_padded b M) (length (blake_padded b M) div 64) =
      blake_compression (full_chain iv M n) [0, 0, 0, 0] (B @ F @ E)
        (counter_lo (if r = 0 then 0 else 8 * length M)) (counter_hi (if r = 0 then 0 else 8 * length M))" if "r < 56"
  proof -
    have "(length M + 8) mod 64 = r + 8" unfolding len(1) using that by (simp add: add.assoc)
    then have "length F = 56 - r" using that by (simp add: F_def blake_filler_def Let_def, arith)
    then have l: "length (B @ F @ E) = 64" using B E that by simp
    then have "length (blake_padded b M) div 64 = Suc n" unfolding p' using tl by simp
    then show ?thesis using l by (simp add: blake_chain_Suc ch dr c)
  qed
  show "blake_chain iv (length M) (blake_padded b M) (length (blake_padded b M) div 64) =
      blake_compression
        (blake_compression (full_chain iv M n) [0, 0, 0, 0] (take 64 (B @ F @ E))
          (counter_lo (8 * length M)) (counter_hi (8 * length M)))
        [0, 0, 0, 0] (drop 64 (B @ F @ E)) 0 0" if "\<not> r < 56"
  proof -
    have "length M + 8 = 64 * (n + 1) + (r - 56)" using len that by simp
    then have "(length M + 8) mod 64 = r - 56" using len(2) by simp
    then have "length F = 120 - r" using that len(2) by (simp add: F_def blake_filler_def Let_def, arith)
    then have l: "length (B @ F @ E) = 128" using B E that len(2) by simp
    then have "length (blake_padded b M) = 64 * (n + 2)" unfolding p' using tl by simp
    then have N: "length (blake_padded b M) div 64 = Suc (Suc n)" by simp
    have d: "drop (64 * Suc n) (blake_padded b M) = drop 64 (B @ F @ E)"
      unfolding dr [symmetric] by (simp add: add.commute)
    have z: "blake_counter (length M) (Suc n) = 0" using len by (simp add: blake_counter_def)
    have "0 < r" using that by simp
    then show ?thesis
      unfolding N blake_chain_Suc ch dr c d z using l by (simp add: counter_lo_def counter_hi_def)
  qed
qed

lemma length_b256_padding [simp]: "length b256_padding = 64"
  by (simp add: b256_padding_def)

lemma take_padding: "0 < k \<Longrightarrow> k \<le> 64 \<Longrightarrow> take k b256_padding = 0x80 # replicate (k - 1) 0"
  by (cases k) (simp_all add: b256_padding_def min_def)

text \<open>
  The three ways through the final routine up to the length field. Each gives the context
  before the last update; \<open>n\<close> and \<open>r\<close> are the whole blocks and the bytes in the buffer.
\<close>

lemma final_one_byte:
  assumes "bs_buflen S = 440" and "length (bs_buf S) = 64"
  shows "blake256_update (sub_t0 8 S) [pa] 8 =
    S\<lparr>bs_t0 := bs_t0 S - 8, bs_buf := memcpy_at (bs_buf S) 55 [pa], bs_buflen := 448\<rparr>"
  using update_short [of "sub_t0 8 S" 55 1 "[pa]"] assms by (simp add: sub_t0_def)

lemma final_same_block:
  assumes "bs_buflen S = 8 * r" and "r < 55" and "length (bs_buf S) = 64"
  shows "sub_t0 8 (blake256_update (blake256_update (sub_t0 (of_nat (440 - 8 * r)) S) b256_padding (of_nat (440 - 8 * r))) [pb] 8) =
    S\<lparr>bs_t0 := bs_t0 S - of_nat (440 - 8 * r) - 8,
      bs_buf := take r (bs_buf S) @ 0x80 # replicate (54 - r) 0 @ [pb] @ drop 56 (bs_buf S), bs_buflen := 448\<rparr>"
proof -
  let ?f = "0x80 # replicate (54 - r) 0 :: bytes"
  have k: "440 - 8 * r = 8 * (55 - r)" by simp
  have f: "take (55 - r) b256_padding = ?f" "length ?f = 55 - r" using assms(2) by (simp_all add: take_padding)
  define S1 where "S1 = blake256_update (sub_t0 (of_nat (440 - 8 * r)) S) b256_padding (of_nat (440 - 8 * r))"
  have S1: "S1 = S\<lparr>bs_t0 := bs_t0 S - of_nat (440 - 8 * r), bs_buf := memcpy_at (bs_buf S) r ?f, bs_buflen := 8 * 55\<rparr>"
    unfolding S1_def k using update_short [of "sub_t0 (of_nat (8 * (55 - r))) S" r "55 - r" b256_padding] assms f
    by (simp add: sub_t0_def del: of_nat_mult)
  have "memcpy_at (memcpy_at (bs_buf S) r ?f) 55 [pb] = take r (bs_buf S) @ ?f @ [pb] @ drop 56 (bs_buf S)"
    using assms(2,3) f(2) memcpy_at_consecutive [of r ?f 55 "bs_buf S" "[pb]"] by simp
  then show ?thesis
    unfolding S1_def [symmetric] using update_short [of S1 55 1 "[pb]"] by (simp add: S1 sub_t0_def)
qed

lemma final_two_blocks:
  assumes "bs_buflen S = 8 * r" and "55 < r" and "r < 64" and "length (bs_buf S) = 64"
    and "length (bs_h S) = 8" and "length (bs_s S) = 4" and "\<not> bs_nullt S" and "bs_t0 S + of_nat (8 * r) \<noteq> 0"
  shows "\<exists>S'. sub_t0 8 (blake256_update
        ((blake256_update (sub_t0 440 (blake256_update (sub_t0 (of_nat (512 - 8 * r)) S) b256_padding (of_nat (512 - 8 * r))))
          (drop 1 b256_padding) 440)\<lparr>bs_nullt := True\<rparr>) [pb] 8) = S'
    \<and> bs_buflen S' = 448 \<and> bs_nullt S' \<and> length (bs_buf S') = 64 \<and> take 56 (bs_buf S') = replicate 55 0 @ [pb]
    \<and> bs_s S' = bs_s S \<and> bs_h S' = blake_compression (bs_h S) (bs_s S) (take r (bs_buf S) @ 0x80 # replicate (63 - r) 0)
        (bs_t0 S + of_nat (8 * r)) (bs_t1 S)"
proof -
  let ?f = "0x80 # replicate (63 - r) 0 :: bytes" and ?b = "take r (bs_buf S) @ 0x80 # replicate (63 - r) 0 :: bytes"
  have k: "512 - 8 * r = 8 * (64 - r)" by simp
  have f: "take (64 - r) b256_padding = ?f" using assms(3) by (simp add: take_padding)
  have b: "memcpy_at (bs_buf S) r ?f = ?b" using assms(3,4) by (subst memcpy_at_full) simp_all
  have t: "bs_t0 S - of_nat (8 * (64 - r)) + 512 = bs_t0 S + of_nat (8 * r)"
    using assms(3) by (simp add: of_nat_diff algebra_simps)
  define S1 where "S1 = blake256_update (sub_t0 (of_nat (512 - 8 * r)) S) b256_padding (of_nat (512 - 8 * r))"
  have S1: "S1 = S\<lparr>bs_t0 := bs_t0 S + of_nat (8 * r), bs_buf := ?b, bs_buflen := 0,
      bs_h := blake_compression (bs_h S) (bs_s S) ?b (bs_t0 S + of_nat (8 * r)) (bs_t1 S)\<rparr>"
    unfolding S1_def k using update_fill [of "sub_t0 (of_nat (8 * (64 - r))) S" r "64 - r" b256_padding] assms f b t
    by (simp add: sub_t0_def count_block_def blake256_compress_spec Let_def del: of_nat_mult)
  have z: "take 55 (drop 1 b256_padding) = replicate 55 0" by (simp add: b256_padding_def)
  define S2 where "S2 = (blake256_update (sub_t0 440 S1) (drop 1 b256_padding) 440)\<lparr>bs_nullt := True\<rparr>"
  have S2: "S2 = S1\<lparr>bs_t0 := bs_t0 S1 - 440, bs_buf := memcpy_at ?b 0 (replicate 55 0), bs_buflen := 440, bs_nullt := True\<rparr>"
    unfolding S2_def using update_short [of "sub_t0 440 S1" 0 55 "drop 1 b256_padding"] z by (simp add: S1 sub_t0_def)
  have "memcpy_at (memcpy_at ?b 0 (replicate 55 0)) 55 [pb] = replicate 55 0 @ [pb] @ drop 56 ?b"
    using memcpy_at_consecutive [of 0 "replicate 55 0" 55 ?b "[pb]"] by simp
  then have "sub_t0 8 (blake256_update S2 [pb] 8) =
      S2\<lparr>bs_t0 := bs_t0 S2 - 8, bs_buf := replicate 55 0 @ [pb] @ drop 56 ?b, bs_buflen := 448\<rparr>"
    using update_short [of S2 55 1 "[pb]"] by (simp add: S2 sub_t0_def)
  then show ?thesis
    unfolding S1_def [symmetric] S2_def [symmetric] using assms(3,4) by (simp add: S2 S1)
qed

lemma digest_bytes:
  "length h = 8 \<Longrightarrow> concat (map (\<lambda>i. U32TO8 (h ! i)) [0..<8]) = concat (map (\<lambda>w. rev (le_enc 4 w)) h)"
proof -
  assume "length h = 8"
  then have "map (\<lambda>i. U32TO8 (h ! i)) [0..<8] = map (\<lambda>w. rev (le_enc 4 w)) h"
    by (intro nth_equalityI) (simp_all add: U32TO8_enc)
  then show ?thesis by (rule arg_cong)
qed

lemma blake_filler_value:
  "r < 55 \<Longrightarrow> blake_filler b (64 * n + r) = 0x80 # replicate (54 - r) 0 @ [b]"
  "blake_filler b (64 * n + 55) = [0x80 OR b]"
  "55 < r \<Longrightarrow> r < 64 \<Longrightarrow> blake_filler b (64 * n + r) = (0x80 # replicate (63 - r) 0) @ replicate 55 0 @ [b]"
proof -
  have m: "(64 * n + r + 8) mod 64 = (r + 8) mod 64" for r by (simp add: add.assoc)
  show "blake_filler b (64 * n + r) = 0x80 # replicate (54 - r) 0 @ [b]" if "r < 55"
    using that by (auto simp: blake_filler_def Let_def m)
  show "blake_filler b (64 * n + 55) = [0x80 OR b]" by (simp add: blake_filler_def Let_def m)
  assume r: "55 < r" "r < 64"
  then have "(r + 8) mod 64 = r - 56" by (simp add: mod_if)
  moreover have "replicate (118 - r) 0 = replicate (63 - r) 0 @ replicate 55 (0 :: byte)"
    using r by (simp flip: replicate_add)
  moreover have "64 - (r - 56) \<noteq> 1" "64 - (r - 56) - 2 = 118 - r" using r by auto
  ultimately show "blake_filler b (64 * n + r) = (0x80 # replicate (63 - r) 0) @ replicate 55 0 @ [b]"
    by (simp add: blake_filler_def Let_def m)
qed

text \<open>The context before the length field is fed.\<close>

definition final_pad :: "blake_state \<Rightarrow> byte \<Rightarrow> byte \<Rightarrow> blake_state" where
  "final_pad S pa pb =
     (if bs_buflen S = 440 then blake256_update (sub_t0 8 S) [pa] 8
      else sub_t0 8 (blake256_update
        (if bs_buflen S < 440
         then blake256_update (sub_t0 (of_nat (440 - bs_buflen S)) (if bs_buflen S = 0 then S\<lparr>bs_nullt := True\<rparr> else S))
                b256_padding (of_nat (440 - bs_buflen S))
         else (blake256_update (sub_t0 440 (blake256_update (sub_t0 (of_nat (512 - bs_buflen S)) S)
                 b256_padding (of_nat (512 - bs_buflen S)))) (drop 1 b256_padding) 440)\<lparr>bs_nullt := True\<rparr>) [pb] 8))"

lemma blake256_final_h_pad:
  "fst (blake256_final_h S pa pb) =
     (let lo = bs_t0 S + of_nat (bs_buflen S);
          hi = (if lo < of_nat (bs_buflen S) then bs_t1 S + 1 else bs_t1 S);
          T = blake256_update (sub_t0 64 (final_pad S pa pb)) (U32TO8 hi @ U32TO8 lo) 64
      in concat (map (\<lambda>i. U32TO8 (bs_h T ! i)) [0..<8]))"
  unfolding blake256_final_h_def final_pad_def Let_def by (simp only: if_distrib [of "\<lambda>S. blake256_update S _ _"] fst_conv cong: if_cong)

text \<open>The context and the bytes that make the next compression the last one of the padded message.\<close>

definition ready :: "u32 list \<Rightarrow> byte \<Rightarrow> bytes \<Rightarrow> blake_state \<Rightarrow> bool" where
  "ready iv b M T \<longleftrightarrow> bs_buflen T = 448 \<and> length (bs_buf T) = 64 \<and> length (bs_h T) = 8 \<and> length (bs_s T) = 4 \<and>
     blake_compression (bs_h T) (bs_s T) (take 56 (bs_buf T) @ rev (le_enc 8 (of_nat (8 * length M) :: u64)))
       (if bs_nullt T then 0 else 448 + bs_t0 T)
       (if bs_nullt T then 0 else if 448 + bs_t0 T = 0 then bs_t1 T + 1 else bs_t1 T) =
     blake_chain iv (length M) (blake_padded b M) (length (blake_padded b M) div 64)"

lemma counter_0 [simp]: "counter_lo 0 = 0" "counter_hi 0 = 0"
  by (simp_all add: counter_lo_def counter_hi_def)

lemma counter_shift:
  assumes "r \<le> 55"
  shows "448 + (counter_lo (512 * n) - of_nat (440 - 8 * r) - 8) = counter_lo (512 * n + 8 * r)"
  using assms by (simp add: counter_lo_def of_nat_diff algebra_simps)

lemma final_pad_ready:
  assumes "stands_for iv M S" and "length iv = 8"
  shows "ready iv b M (final_pad S (0x80 OR b) b)"
proof -
  define n r where "n = length M div 64" and "r = length M mod 64"
  have len: "length M = 64 * n + r" "r < 64" by (simp_all add: n_def r_def)
  define B where "B = drop (64 * n) M"
  have S: "bs_h S = full_chain iv M n" "bs_t0 S = counter_lo (512 * n)" "bs_t1 S = counter_hi (512 * n)"
    "bs_s S = [0, 0, 0, 0]" "\<not> bs_nullt S" "length (bs_buf S) = 64" "bs_buflen S = 8 * r" "take r (bs_buf S) = B"
    using assms(1) by (simp_all add: stands_for_def absorbed_def n_def r_def B_def)
  have h: "length (bs_h S) = 8" using assms(2) by (simp add: S(1))
  have B: "length B = r" by (simp add: B_def len(1))
  have c: "8 * length M = 512 * n + 8 * r" by (simp add: len(1))
  note cp = counter_parts [OF len(2), of n]
  note chain = blake_spec_chain [of M, folded n_def r_def, folded B_def]
  consider "r = 55" | "r < 55" | "55 < r" by linarith
  then show ?thesis
  proof cases
    case 1
    have "take 56 (memcpy_at (bs_buf S) 55 [0x80 OR b]) = B @ [0x80 OR b]"
      using take_memcpy_at [of 55 "bs_buf S" "[0x80 OR b]"] S(6,8) 1 by simp
    then show ?thesis
      using 1 S h chain(1) final_one_byte [of S "0x80 OR b"] cp counter_shift [of 55 n] blake_filler_value(2) [of b n]
      by (simp add: ready_def final_pad_def c len(1))
  next
    case 2
    define S0 where "S0 = (if r = 0 then S\<lparr>bs_nullt := True\<rparr> else S)"
    have S0: "bs_buflen S0 = 8 * r" "bs_buf S0 = bs_buf S" "bs_h S0 = bs_h S" "bs_s S0 = bs_s S" "bs_t0 S0 = bs_t0 S"
      "bs_t1 S0 = bs_t1 S" "bs_nullt S0 = (r = 0)"
      using S by (simp_all add: S0_def)
    have "final_pad S (0x80 OR b) b = sub_t0 8 (blake256_update (blake256_update (sub_t0 (of_nat (440 - 8 * r)) S0)
        b256_padding (of_nat (440 - 8 * r))) [b] 8)"
      using 2 S(7) by (simp add: final_pad_def S0_def)
    also note final_same_block [OF S0(1) 2, of b, unfolded S0(2), OF S(6)]
    finally have T: "final_pad S (0x80 OR b) b = S0\<lparr>bs_t0 := bs_t0 S0 - of_nat (440 - 8 * r) - 8,
        bs_buf := (B @ 0x80 # replicate (54 - r) 0 @ [b]) @ drop 56 (bs_buf S), bs_buflen := 448\<rparr>"
      using S(8) by simp
    have "length (B @ 0x80 # replicate (54 - r) 0 @ [b]) = 56" using 2 B by simp
    moreover have "bs_buf (final_pad S (0x80 OR b) b) = (B @ 0x80 # replicate (54 - r) 0 @ [b]) @ drop 56 (bs_buf S)"
      unfolding T by simp
    ultimately have "take 56 (bs_buf (final_pad S (0x80 OR b) b)) = B @ 0x80 # replicate (54 - r) 0 @ [b]"
      by (metis append_eq_conv_conj)
    with T show ?thesis
      using 2 S h chain(1) cp counter_shift [of r n] blake_filler_value(1) [OF 2, of b n] S0 B
      by (simp add: ready_def c len(1))
  next
    case 3
    let ?E = "rev (le_enc 8 (of_nat (8 * length M) :: u64))" and ?b = "B @ 0x80 # replicate (63 - r) 0 :: bytes"
    have "length ?b = 64" "B @ blake_filler b (length M) @ ?E = ?b @ replicate 55 0 @ [b] @ ?E"
      using 3 len B blake_filler_value(3) [OF 3 len(2), of b n] by simp_all
    then have cut: "take 64 (B @ blake_filler b (length M) @ ?E) = ?b"
      "drop 64 (B @ blake_filler b (length M) @ ?E) = replicate 55 0 @ [b] @ ?E"
      by (metis append_eq_conv_conj)+
    have t: "bs_t0 S + of_nat (8 * r) = counter_lo (8 * length M)" "counter_lo (8 * length M) \<noteq> 0"
      "bs_t1 S = counter_hi (8 * length M)"
      using cp 3 unfolding c S(2,3) by simp_all
    have pad: "final_pad S (0x80 OR b) b = sub_t0 8 (blake256_update
        ((blake256_update (sub_t0 440 (blake256_update (sub_t0 (of_nat (512 - 8 * r)) S) b256_padding (of_nat (512 - 8 * r))))
          (drop 1 b256_padding) 440)\<lparr>bs_nullt := True\<rparr>) [b] 8)"
      using 3 S(7) by (simp add: final_pad_def)
    have "\<not> r < 56" using 3 by simp
    then show ?thesis
      using final_two_blocks [OF S(7) 3 len(2) S(6) h _ S(5), of b] t S(4) chain(2) [of iv b]
      unfolding ready_def pad cut S(1,8) by simp
  qed
qed

lemma blake256_final_h_spec:
  assumes "stands_for iv M S" and "length iv = 8"
  shows "fst (blake256_final_h S (0x80 OR b) b) = blake_spec iv b M"
proof -
  define n r where "n = length M div 64" and "r = length M mod 64"
  have "64 * n + r = length M" by (simp add: n_def r_def)
  then have r: "r < 64" and c: "512 * n + 8 * r = 8 * length M" by (simp_all add: r_def)
  have S: "bs_t0 S = counter_lo (512 * n)" "bs_t1 S = counter_hi (512 * n)" "bs_buflen S = 8 * r"
    using assms(1) by (simp_all add: stands_for_def absorbed_def n_def r_def)
  let ?T = "final_pad S (0x80 OR b) b" and ?E = "rev (le_enc 8 (of_nat (8 * length M) :: u64))"
  note cp = counter_parts [OF r, of n, unfolded c]
  have lo: "bs_t0 S + of_nat (bs_buflen S) = counter_lo (8 * length M)" unfolding S using cp(2) .
  have hi: "(if counter_lo (8 * length M) < of_nat (bs_buflen S) then bs_t1 S + 1 else bs_t1 S) = counter_hi (8 * length M)"
    unfolding S using cp(1,3) by (simp only: if_False)
  have ready: "ready iv b M ?T" by (rule final_pad_ready [OF assms])
  then have h: "bs_h (blake256_update (sub_t0 64 ?T) ?E 64) =
      blake_chain iv (length M) (blake_padded b M) (length (blake_padded b M) div 64)"
    using final_block [of ?T ?E] by (simp only: ready_def length_rev length_le_enc)
  have "length (blake_chain iv (length M) (blake_padded b M) (length (blake_padded b M) div 64)) = 8"
    using ready by (metis ready_def length_blake_compression)
  then show ?thesis
    unfolding blake256_final_h_pad Let_def lo hi msglen_spec h blake_spec_def by (rule digest_bytes)
qed

lemma blake256_final_spec:
  assumes "stands_for IV256 M S"
  shows "fst (blake256_final S) = BLAKE256 M"
  using blake256_final_h_spec [OF assms, of 1] by (simp add: blake256_final_def BLAKE256_def IV256_def)

lemma blake224_final_spec:
  assumes "stands_for IV224 M S"
  shows "fst (blake224_final S) = blake_spec IV224 0 M"
  using blake256_final_h_spec [OF assms, of 0] by (simp add: blake224_final_def IV224_def)

lemma init_stands_for:
  "length (bs_buf S) = 64 \<Longrightarrow> stands_for IV256 [] (blake256_init S)"
  "length (bs_buf S) = 64 \<Longrightarrow> stands_for IV224 [] (blake224_init S)"
  by (simp_all add: stands_for_def absorbed_def full_chain_def blake256_init_def blake224_init_def)

lemma length_IV [simp]: "length IV256 = 8" "length IV224 = 8"
  by (simp_all add: IV256_def IV224_def)

lemma update_aligned:
  assumes "stands_for iv M S" and "length iv = 8" and "length M mod 64 = 0" and "8 * length D < 2 ^ 64"
  shows "stands_for iv (M @ D) (blake256_update S D (of_nat (length D) * 8))"
  using blake256_update_stands_for [OF assms(1,2,4)] fed_message_append [of M D] assms(3)
  by (simp add: mult.commute)

lemma blake256_hash_spec:
  assumes "length (bs_buf S) = 64" and "8 * length inp < 2 ^ 64"
  shows "blake256_hash S inp = BLAKE256 inp" "blake224_hash S inp = blake_spec IV224 0 inp"
  using update_aligned [OF init_stands_for(1) [OF assms(1)] _ _ assms(2)]
    update_aligned [OF init_stands_for(2) [OF assms(1)] _ _ assms(2)]
  by (simp_all add: blake256_hash_def blake224_hash_def blake224_update_def blake256_final_spec blake224_final_spec)

lemma length_blake_chain [simp]: "length iv = 8 \<Longrightarrow> length (blake_chain iv L p n) = 8"
  by (induction n) (simp_all add: blake_chain_def)

lemma length_words_bytes: "length (concat (map (\<lambda>w. rev (le_enc 4 w)) ws)) = 4 * length ws"
  by (induction ws) simp_all

lemma length_blake_spec [simp]: "length iv = 8 \<Longrightarrow> length (blake_spec iv b msg) = 32"
  by (simp add: blake_spec_def Let_def length_words_bytes)

lemma xor_pad_spec:
  "length k \<le> 64 \<Longrightarrow> xor_pad c k = map ((XOR) c) (k @ replicate (64 - length k) 0)"
  by (rule nth_equalityI) (auto simp: xor_pad_def nth_append)

lemma length_xor_pad [simp]: "length (xor_pad c k) = 64"
  by (simp add: xor_pad_def)

lemma pad_stands_for:
  assumes "length (bs_buf S) = 64"
  shows "stands_for IV256 (xor_pad c k) (blake256_update (blake256_init S) (xor_pad c k) 512)"
    and "stands_for IV224 (xor_pad c k) (blake224_update (blake224_init S) (xor_pad c k) 512)"
  using update_aligned [OF init_stands_for(1) [OF assms], of "xor_pad c k"]
    update_aligned [OF init_stands_for(2) [OF assms], of "xor_pad c k"] by (simp_all add: blake224_update_def)

lemma hmac_blake256_spec:
  assumes "length (bs_buf stack) = 64" "length (bs_buf (hm_inner S)) = 64" "length (bs_buf (hm_outer S)) = 64"
    and "8 * length key < 2 ^ 64" and "8 * length inp < 2 ^ 64"
  shows "hmac_blake256_hash stack S key inp = HMAC_spec BLAKE256 key inp"
proof -
  define k where "k = (if 64 < length key then BLAKE256 key else key)"
  have k: "length k \<le> 64" by (simp add: k_def BLAKE256_def)
  have init: "hmac_blake256_init stack S key =
      S\<lparr>hm_inner := blake256_update (blake256_init (hm_inner S)) (xor_pad 0x36 k) 512,
        hm_outer := blake256_update (blake256_init (hm_outer S)) (xor_pad 0x5c k) 512\<rparr>"
    using blake256_hash_spec(1) [OF assms(1,4)] by (simp add: hmac_blake256_init_def k_def BLAKE256_def Let_def)
  have inner: "fst (blake256_final (blake256_update (blake256_update (blake256_init (hm_inner S)) (xor_pad 0x36 k) 512)
      inp (of_nat (length inp) * 8))) = BLAKE256 (xor_pad 0x36 k @ inp)"
    by (intro blake256_final_spec update_aligned pad_stands_for assms) simp_all
  have "stands_for IV256 (xor_pad 0x5c k @ BLAKE256 m)
      (blake256_update (blake256_update (blake256_init (hm_outer S)) (xor_pad 0x5c k) 512) (BLAKE256 m) 256)" for m
    using update_aligned [OF pad_stands_for(1) [OF assms(3), of "0x5c" k], of "BLAKE256 m"] by (simp add: BLAKE256_def)
  moreover have "HMAC_spec BLAKE256 key inp = BLAKE256 (xor_pad 0x5c k @ BLAKE256 (xor_pad 0x36 k @ inp))"
    using k by (simp add: HMAC_spec_def Let_def k_def [symmetric] xor_pad_spec)
  ultimately show ?thesis
    using inner by (simp add: hmac_blake256_hash_def hmac_blake256_final_def hmac_blake256_update_def init split_beta
        blake256_final_spec)
qed

lemma hmac_blake224_spec:
  assumes "length (bs_buf stack) = 64" "length (bs_buf (hm_inner S)) = 64" "length (bs_buf (hm_outer S)) = 64"
    and "8 * length key < 2 ^ 64" and "8 * length inp < 2 ^ 64"
  shows "take 28 (hmac_blake224_hash stack S key inp) =
    HMAC_spec BLAKE224 (if 64 < length key then take 28 (BLAKE256 key) else key) inp"
proof -
  define k where "k = (if 64 < length key then take 28 (BLAKE256 key) else key)"
  have k: "length k \<le> 64" by (simp add: k_def BLAKE256_def)
  have init: "hmac_blake224_init stack S key =
      S\<lparr>hm_inner := blake224_update (blake224_init (hm_inner S)) (xor_pad 0x36 k) 512,
        hm_outer := blake224_update (blake224_init (hm_outer S)) (xor_pad 0x5c k) 512\<rparr>"
    using blake256_hash_spec(1) [OF assms(1,4)] by (simp add: hmac_blake224_init_def k_def Let_def)
  have inner: "fst (blake224_final (blake256_update (blake224_update (blake224_init (hm_inner S)) (xor_pad 0x36 k) 512)
      inp (of_nat (length inp) * 8))) = blake_spec IV224 0 (xor_pad 0x36 k @ inp)"
    by (intro blake224_final_spec update_aligned pad_stands_for assms) simp_all
  let ?o = "blake224_update (blake224_init (hm_outer S)) (xor_pad 0x5c k) 512"
  have o: "stands_for IV224 (xor_pad 0x5c k) ?o" by (rule pad_stands_for(2) [OF assms(3)])
  then have "bs_buflen ?o = 8 * 0" by (simp add: stands_for_def)
  from update_short [OF this, of 28] have "blake256_update ?o d 224 = blake256_update ?o (take 28 d) 224" for d
    by simp
  moreover have "stands_for IV224 (xor_pad 0x5c k @ BLAKE224 m) (blake256_update ?o (BLAKE224 m) 224)" for m
    using update_aligned [OF o, of "BLAKE224 m"] by (simp add: BLAKE224_def)
  ultimately have outer: "fst (blake224_final (blake256_update ?o (blake_spec IV224 0 m) 224)) =
      blake_spec IV224 0 (xor_pad 0x5c k @ BLAKE224 m)" for m
    using blake224_final_spec by (simp add: BLAKE224_def)
  have "HMAC_spec BLAKE224 k inp = BLAKE224 (xor_pad 0x5c k @ BLAKE224 (xor_pad 0x36 k @ inp))"
    using k by (simp add: HMAC_spec_def Let_def xor_pad_spec)
  then show ?thesis
    using inner outer
    by (simp add: hmac_blake224_hash_def hmac_blake224_final_def hmac_blake224_update_def init split_beta
        blake224_update_def BLAKE224_def k_def [symmetric])
qed

section \<open>Memory safety\<close>

definition blake_inv :: "blake_state \<Rightarrow> bool" where
  "blake_inv S \<longleftrightarrow> length (bs_h S) = 8 \<and> length (bs_s S) = 4 \<and> length (bs_buf S) = 64 \<and> bs_buflen S < 512"

lemma length_foldl_update: "length (foldl (\<lambda>h i. h[f i := g h i]) h is) = length h"
  by (induction "is" arbitrary: h) simp_all

lemma blake_inv_compress: "blake_inv (blake256_compress (count_block S) b) = blake_inv S"
  by (simp add: blake_inv_def blake256_compress_def count_block_def Let_def length_foldl_update)

lemma blake256_compress_buf [simp]:
  "bs_buf (blake256_compress (count_block S) b) = bs_buf S"
  "bs_buflen (blake256_compress (count_block S) b) = bs_buflen S"
  by (simp_all add: blake256_compress_def count_block_def Let_def)

lemma blake256_blocks_inv:
  "blake_inv S \<Longrightarrow> blake256_blocks S data n = (S', data', n') \<Longrightarrow>
   blake_inv S' \<and> bs_buf S' = bs_buf S \<and> unat n' = unat n mod 512"
proof (induction S data n rule: blake256_blocks.induct)
  case (1 S data n)
  show ?case
  proof (cases "512 \<le> n")
    case True
    then have "unat (n - 512) mod 512 = unat n mod 512"
      by (simp add: unat_sub word_le_nat_alt le_mod_geq)
    then show ?thesis using 1 True by (subst (asm) (2) blake256_blocks.simps) (simp add: blake_inv_compress)
  next
    case False
    then have "unat n mod 512 = unat n" by (simp add: word_le_nat_alt)
    then show ?thesis using 1(2,3) False by (subst (asm) blake256_blocks.simps) auto
  qed
qed

lemma finish_update_inv:
  assumes "blake_inv S" and "left + (unat n mod 512) div 8 < 64"
  shows "blake_inv (finish_update S data n left)"
proof -
  obtain S' data' n' where b: "blake256_blocks S data n = (S', data', n')" by (rule prod_cases3)
  have inv: "blake_inv S'" and n': "unat n' = unat n mod 512" using blake256_blocks_inv [OF assms(1) b] by simp_all
  have "unat (drop_bit 3 n') = unat n' div 8" by (simp add: drop_bit_eq_div unat_div)
  moreover have "8 * left + unat n' < 512" using assms(2) n' by linarith
  ultimately show ?thesis
    using assms(2) inv n' by (auto simp: finish_update_def b blake_inv_def memcpy_at_def)
qed

lemma blake_inv_update:
  assumes "blake_inv S"
  shows "blake_inv (blake256_update S data n)"
proof -
  let ?l = "bs_buflen S div 8"
  have l: "?l < 64" "length (bs_buf S) = 64" using assms by (auto simp: blake_inv_def)
  have m: "unat (drop_bit 3 n AND 0x3F) = (unat n mod 512) div 8"
    using unat_bit_field [of 3 n 6] div_mod_pow2_mod [of 3 6 9 "unat n"] by (simp add: mask_eq_exp_minus_1)
  have len: "length (memcpy_at (bs_buf S) ?l (take (64 - ?l) data)) = 64" using l by (subst length_memcpy_at) auto
  show ?thesis
  proof (cases "?l \<noteq> 0 \<and> 64 - ?l \<le> unat (drop_bit 3 n AND 0x3F)")
    case True
    have "blake_inv (S\<lparr>bs_buf := memcpy_at (bs_buf S) ?l (take (64 - ?l) data)\<rparr>)"
      using assms len by (simp add: blake_inv_def)
    then show ?thesis
      using True unfolding blake256_update_finish Let_def
      by (subst if_P) (auto intro!: finish_update_inv simp: blake_inv_compress)
  next
    case False
    then have "?l + (unat n mod 512) div 8 < 64" using m l(1) by linarith
    then show ?thesis
      using False assms unfolding blake256_update_finish Let_def
      by (subst if_not_P) (auto intro: finish_update_inv)
  qed
qed

section \<open>Properties\<close>

text \<open>
  C4. The one-shot routines compute BLAKE-256 and BLAKE-224: padding, message counter and the
  zero counter of blocks without message bits are those of the specification for every length.
  The BLAKE-224 routine writes 32 bytes, four more than its digest.
\<close>

theorem blake256_hash_correct:
  assumes "length (bs_buf S) = 64" and "8 * length inp < 2 ^ 64"
  shows "blake256_hash S inp = BLAKE256 inp \<and> take 28 (blake224_hash S inp) = BLAKE224 inp
    \<and> length (blake256_hash S inp) = 32 \<and> length (BLAKE224 inp) = 28 \<and> length (blake224_hash S inp) = 32"
  using blake256_hash_spec [OF assms] by (simp add: BLAKE256_def BLAKE224_def)

theorem blake256_hash_correct_witness:
  "blake256_hash \<lparr>bs_h = [], bs_s = [], bs_t0 = 7, bs_t1 = 7, bs_buflen = 9, bs_nullt = True, bs_buf = replicate 64 1\<rparr>
     (replicate 100 5) = BLAKE256 (replicate 100 5)"
  by (rule blake256_hash_correct [THEN conjunct1]) simp_all

text \<open>
  C25. The keyed routines compute HMAC over these hashes, except that HMAC-BLAKE-224 replaces a
  key longer than a block by a truncated BLAKE-256 hash where RFC 2104 asks for BLAKE-224.
\<close>

theorem hmac_blake_correct:
  assumes "length (bs_buf stack) = 64" and "length (bs_buf (hm_inner S)) = 64" and "length (bs_buf (hm_outer S)) = 64"
    and "8 * length key < 2 ^ 64" and "8 * length inp < 2 ^ 64"
  shows "hmac_blake256_hash stack S key inp = HMAC_spec BLAKE256 key inp
    \<and> (length key \<le> 64 \<longrightarrow> take 28 (hmac_blake224_hash stack S key inp) = HMAC_spec BLAKE224 key inp)
    \<and> (64 < length key \<longrightarrow> take 28 (hmac_blake224_hash stack S key inp) = HMAC_spec BLAKE224 (take 28 (BLAKE256 key)) inp)"
  using hmac_blake256_spec [OF assms] hmac_blake224_spec [OF assms] by simp

theorem hmac_blake_correct_witness:
  "hmac_blake256_hash
     \<lparr>bs_h = [], bs_s = [], bs_t0 = 0, bs_t1 = 0, bs_buflen = 0, bs_nullt = False, bs_buf = replicate 64 0\<rparr>
     \<lparr>hm_inner = \<lparr>bs_h = [], bs_s = [], bs_t0 = 0, bs_t1 = 0, bs_buflen = 0, bs_nullt = False, bs_buf = replicate 64 0\<rparr>,
      hm_outer = \<lparr>bs_h = [], bs_s = [], bs_t0 = 0, bs_t1 = 0, bs_buflen = 0, bs_nullt = False, bs_buf = replicate 64 0\<rparr>\<rparr>
     (replicate 70 3) [1, 2] = HMAC_spec BLAKE256 (replicate 70 3) [1, 2]"
  by (rule hmac_blake_correct [THEN conjunct1]) simp_all

text \<open>
  C16. What an update does in general. From a context that stands for a message, the update gives
  the context of the concatenation when the buffer is empty, when the new data fits the buffer,
  or when its length modulo 64 fills the buffer; in the remaining cases whole blocks of new data
  overtake the buffered bytes, or the buffered bytes are lost: two different calls then have the
  same digest.
\<close>

theorem blake256_update_characterised:
  assumes "stands_for iv M S" and "length iv = 8" and "8 * length D < 2 ^ 64"
  shows "stands_for iv (fed_message M D) (blake256_update S D (of_nat (8 * length D)))
    \<and> (length M mod 64 = 0 \<or> 64 - length M mod 64 \<le> length D mod 64 \<or> (D \<noteq> [] \<and> length M mod 64 + length D < 64)
        \<longrightarrow> fed_message M D = M @ D)
    \<and> (length D mod 64 = 0 \<and> length M mod 64 \<noteq> 0 \<longrightarrow>
        fed_message M D = take (length M - length M mod 64) M @ D)"
  using blake256_update_stands_for [OF assms] fed_message_append [of M D]
  by (auto simp: fed_message_def Let_def minus_mod_eq_mult_div)

theorem blake256_update_characterised_witness:
  "stands_for IV256 (replicate 64 2)
     (blake256_update (blake256_update (blake256_init
        \<lparr>bs_h = [], bs_s = [], bs_t0 = 0, bs_t1 = 0, bs_buflen = 0, bs_nullt = False, bs_buf = replicate 64 0\<rparr>)
       [1] 8) (replicate 64 2) 512)"
proof -
  let ?S = "blake256_init
      \<lparr>bs_h = [], bs_s = [], bs_t0 = 0, bs_t1 = 0, bs_buflen = 0, bs_nullt = False, bs_buf = replicate 64 0\<rparr>"
  have "stands_for IV256 [] ?S" by (rule init_stands_for(1)) simp
  from blake256_update_characterised [OF this, of "[1]"]
  have "stands_for IV256 [1] (blake256_update ?S [1] 8)" by (simp add: fed_message_def)
  from blake256_update_characterised [OF this, of "replicate 64 2"]
  show ?thesis by (simp add: fed_message_def)
qed

text \<open>
  C26. Invariant: whatever the length passed to an update, the number of buffered bits stays
  below 512 and no copy writes outside the 64 bytes of the buffer.
\<close>

theorem blake256_update_inv:
  assumes "blake_inv S"
  shows "blake_inv (blake256_update S data datalen) \<and> blake_inv (blake256_init S) \<and> blake_inv (blake224_init S)"
  using blake_inv_update [OF assms] assms by (simp add: blake_inv_def blake256_init_def blake224_init_def)

theorem blake256_update_inv_witness:
  "blake_inv (blake256_update
     \<lparr>bs_h = IV256, bs_s = [0, 0, 0, 0], bs_t0 = 0, bs_t1 = 0, bs_buflen = 509, bs_nullt = False, bs_buf = replicate 64 0\<rparr>
     [1, 2, 3] 21)"
  by (rule blake256_update_inv [THEN conjunct1]) (simp add: blake_inv_def)

end
