(* ===== verification/Hoohash_Blake3.thy ===== *)
theory Hoohash_Blake3
  imports Blake_Mix
begin

text \<open>
  The integer part of the canonical hoohash check: \<^verbatim>\<open>sycl/hoohash/host_math.c\<close>. The host recomputes
  a candidate with its own BLAKE3, restricted to the single-chunk messages of this algorithm,
  and expands the seed into the matrix with xoshiro256++. The floating-point mixing with the
  functions of the system's mathematics library is not modelled.
\<close>

section \<open>BLAKE3 for one chunk\<close>

definition B3_IV :: "u32 list" where
  "B3_IV = [0x6A09E667, 0xBB67AE85] @ [0x3C6EF372, 0xA54FF53A] @ [0x510E527F, 0x9B05688C] @ [0x1F83D9AB, 0x5BE0CD19]"

definition B3_MSG :: "nat list list" where
  "B3_MSG =
    [[0, 1, 2, 3, 4, 5, 6, 7, 8, 9, 10, 11, 12, 13, 14, 15],
     [2, 6, 3, 10, 7, 0, 4, 13, 1, 11, 12, 5, 9, 14, 15, 8],
     [3, 4, 10, 12, 13, 2, 7, 14, 6, 5, 9, 0, 11, 15, 8, 1],
     [10, 7, 12, 9, 14, 3, 13, 15, 4, 0, 11, 2, 5, 8, 1, 6],
     [12, 13, 9, 11, 15, 10, 14, 8, 7, 2, 5, 3, 0, 1, 6, 4],
     [9, 14, 11, 5, 8, 12, 15, 1, 13, 3, 0, 10, 2, 6, 4, 7],
     [11, 15, 5, 0, 1, 9, 8, 6, 14, 10, 2, 12, 3, 4, 7, 13]]"

definition load32le :: "bytes \<Rightarrow> u32" where
  "load32le inp = ucast (inp ! 0) OR push_bit 8 (ucast (inp ! 1)) OR push_bit 16 (ucast (inp ! 2)) OR
     push_bit 24 (ucast (inp ! 3))"

definition store32le :: "u32 \<Rightarrow> bytes" where
  "store32le v = [ucast v, ucast (drop_bit 8 v), ucast (drop_bit 16 v), ucast (drop_bit 24 v)]"

definition rotr32 :: "u32 \<Rightarrow> nat \<Rightarrow> u32" where
  "rotr32 v count = drop_bit count v OR push_bit (32 - count) v"

definition b3_mix :: "u32 list \<Rightarrow> nat \<Rightarrow> nat \<Rightarrow> nat \<Rightarrow> nat \<Rightarrow> u32 \<Rightarrow> u32 \<Rightarrow> u32 list" where
  "b3_mix state a b c d x y =
     (let state = state[a := state ! a + (state ! b + x)];
          state = state[d := rotr32 (state ! d XOR state ! a) 16];
          state = state[c := state ! c + state ! d];
          state = state[b := rotr32 (state ! b XOR state ! c) 12];
          state = state[a := state ! a + (state ! b + y)];
          state = state[d := rotr32 (state ! d XOR state ! a) 8];
          state = state[c := state ! c + state ! d]
      in state[b := rotr32 (state ! b XOR state ! c) 7])"

definition b3_round :: "u32 list \<Rightarrow> u32 list \<Rightarrow> nat \<Rightarrow> u32 list" where
  "b3_round state message round =
     (let sched = B3_MSG ! round;
          state = b3_mix state 0 4 8 12 (message ! (sched ! 0)) (message ! (sched ! 1));
          state = b3_mix state 1 5 9 13 (message ! (sched ! 2)) (message ! (sched ! 3));
          state = b3_mix state 2 6 10 14 (message ! (sched ! 4)) (message ! (sched ! 5));
          state = b3_mix state 3 7 11 15 (message ! (sched ! 6)) (message ! (sched ! 7));
          state = b3_mix state 0 5 10 15 (message ! (sched ! 8)) (message ! (sched ! 9));
          state = b3_mix state 1 6 11 12 (message ! (sched ! 10)) (message ! (sched ! 11));
          state = b3_mix state 2 7 8 13 (message ! (sched ! 12)) (message ! (sched ! 13))
      in b3_mix state 3 4 9 14 (message ! (sched ! 14)) (message ! (sched ! 15)))"

definition b3_compress :: "u32 list \<Rightarrow> bytes \<Rightarrow> byte \<Rightarrow> byte \<Rightarrow> bytes" where
  "b3_compress cv block block_length flags =
     (let message = map (\<lambda>i. load32le (drop (4 * i) block)) [0..<16];
          state = map (\<lambda>i. cv ! i) [0..<8] @ map (\<lambda>i. if i < 4 then B3_IV ! i else 0) [0..<8];
          state = state[14 := ucast block_length];
          state = state[15 := ucast flags];
          state = foldl (\<lambda>state round. b3_round state message round) state [0..<7]
      in concat (map (\<lambda>i. store32le (state ! i XOR state ! (i + 8))) [0..<8]) @
         concat (map (\<lambda>i. store32le (state ! (i + 8) XOR cv ! i)) [0..<8]))"

text \<open>The loop over the blocks before the last: the chaining value, the first-block flag, what is left.\<close>

function b3_blocks :: "u32 list \<Rightarrow> byte \<Rightarrow> bytes \<Rightarrow> u32 list \<times> byte \<times> bytes" where
  "b3_blocks cv first inp =
     (if 64 < length inp then
        let compressed = b3_compress cv (take 64 inp) 64 first;
            cv = map (\<lambda>i. load32le (drop (4 * i) compressed)) [0..<8]
        in b3_blocks cv 0 (drop 64 inp)
      else (cv, first, inp))"
  by pat_completeness auto
termination
  by (relation "measure (\<lambda>(cv, first, inp). length inp)") auto

declare b3_blocks.simps [simp del]

definition b3_hash :: "bytes \<Rightarrow> bytes" where
  "b3_hash inp =
     (let (cv, first, rest) = b3_blocks (map (\<lambda>i. B3_IV ! i) [0..<8]) 1 inp;
          tail = length rest;
          block = rest @ replicate (64 - tail) 0
      in take 32 (b3_compress cv block (of_nat tail) (first OR 2 OR 8)))"

section \<open>The matrix generator\<close>

definition load64le :: "bytes \<Rightarrow> u64" where
  "load64le inp = foldl (\<lambda>v i. v OR push_bit (8 * i) (ucast (inp ! i))) 0 [0..<8]"

definition rotl64 :: "u64 \<Rightarrow> nat \<Rightarrow> u64" where
  "rotl64 v count = push_bit count v OR drop_bit (64 - count) v"

text \<open>One iteration of the loop in \<^verbatim>\<open>make_matrix\<close>: the value and the next state.\<close>

fun xoshiro_step :: "u64 \<times> u64 \<times> u64 \<times> u64 \<Rightarrow> u64 \<times> (u64 \<times> u64 \<times> u64 \<times> u64)" where
  "xoshiro_step (s0, s1, s2, s3) =
     (let v = rotl64 (s0 + s3) 23 + s0;
          temporary = push_bit 17 s1;
          s2 = s2 XOR s0;
          s3 = s3 XOR s1;
          s1 = s1 XOR s2;
          s0 = s0 XOR s3;
          s2 = s2 XOR temporary;
          s3 = rotl64 s3 45
      in (v, s0, s1, s2, s3))"

section \<open>The BLAKE3 specification\<close>

definition MSG_PERMUTATION :: "nat list" where
  "MSG_PERMUTATION = [2, 6, 3, 10, 7, 0, 4, 13, 1, 11, 12, 5, 9, 14, 15, 8]"

definition permute :: "u32 list \<Rightarrow> u32 list" where
  "permute m = map (\<lambda>j. m ! j) MSG_PERMUTATION"

fun spec_rounds :: "nat \<Rightarrow> u32 list \<Rightarrow> u32 list \<Rightarrow> u32 list" where
  "spec_rounds 0 m v = v"
| "spec_rounds (Suc n) m v = spec_rounds n (permute m) (blake_round m v)"

text \<open>The compression of a block with its counter, length and flags, all sixteen words.\<close>

definition spec_compress :: "u32 list \<Rightarrow> bytes \<Rightarrow> u64 \<Rightarrow> nat \<Rightarrow> nat \<Rightarrow> u32 list" where
  "spec_compress h block t b d =
     (let m = map (\<lambda>i. le_dec (take 4 (drop (4 * i) block))) [0..<16];
          v = spec_rounds 7 m (h @ take 4 B3_IV @ [ucast t, ucast (drop_bit 32 t), of_nat b, of_nat d])
      in map2 (XOR) (take 8 v) (drop 8 v) @ map2 (XOR) (drop 8 v) h)"

definition spec_block :: "bytes \<Rightarrow> nat \<Rightarrow> bytes" where
  "spec_block d i = (let b = take 64 (drop (64 * i) d) in b @ replicate (64 - length b) 0)"

text \<open>
  The hash of a message of at most one chunk: blocks are chained with the flag of the first
  block, and the last one carries the flags for the end of the chunk and the root.
\<close>

definition spec_chain :: "bytes \<Rightarrow> nat \<Rightarrow> u32 list" where
  "spec_chain d n =
     foldl (\<lambda>cv i. take 8 (spec_compress cv (spec_block d i) 0 64 (if i = 0 then 1 else 0))) B3_IV [0..<n]"

definition spec_blocks :: "bytes \<Rightarrow> nat" where
  "spec_blocks d = max 1 ((length d + 63) div 64)"

definition blake3_chunk :: "bytes \<Rightarrow> bytes" where
  "blake3_chunk d =
     (let l = spec_blocks d - 1
      in take 32 (concat (map (le_enc 4)
           (spec_compress (spec_chain d l) (spec_block d l) 0 (length d - 64 * l) ((if l = 0 then 1 else 0) + 2 + 8)))))"

section \<open>The code meets the specification\<close>

lemma rotr32_rotr: "0 < n \<Longrightarrow> n < 32 \<Longrightarrow> rotr32 x n = word_rotr n x"
  using shifts_or_rotr [of n x] by (simp add: rotr32_def)

lemma b3_mix_blake_mix: "b3_mix = blake_mix"
  by (intro ext) (simp add: b3_mix_def blake_mix_def rotr32_rotr)

lemma b3_round_spec:
  assumes "length v = 16" and m: "\<And>j. j < 16 \<Longrightarrow> message ! (B3_MSG ! r ! j) = m ! j"
  shows "b3_round v message r = blake_round m v"
  unfolding b3_round_def Let_def b3_mix_blake_mix
  using blake_mixes_round(1) [OF assms(1), of m] by (simp add: m Let_def)

lemma length_schedule: "r < 7 \<Longrightarrow> length (B3_MSG ! r) = 16"
  by (auto simp: B3_MSG_def less_Suc_eq numeral_eq_Suc)

lemma schedule_permutes: "r < 6 \<Longrightarrow> B3_MSG ! Suc r = map ((!) (B3_MSG ! r)) MSG_PERMUTATION"
proof -
  have "\<forall>r \<in> set [0..<6]. B3_MSG ! Suc r = map ((!) (B3_MSG ! r)) MSG_PERMUTATION" by code_simp
  then show "r < 6 \<Longrightarrow> ?thesis" by simp
qed

lemma permute_row:
  assumes "length row = 16"
  shows "permute (map ((!) m) row) = map ((!) m) (map ((!) row) MSG_PERMUTATION)"
  using assms by (simp add: permute_def MSG_PERMUTATION_def)

lemma b3_rounds_spec:
  "n \<le> 7 \<Longrightarrow> length v = 16 \<Longrightarrow>
   foldl (\<lambda>state round. b3_round state m round) v [7 - n..<7] = spec_rounds n (map ((!) m) (B3_MSG ! (7 - n))) v"
proof (induction n arbitrary: v)
  case (Suc n)
  let ?r = "7 - Suc n"
  have r: "?r < 7" "Suc ?r = 7 - n" using Suc.prems(1) by auto
  have round: "b3_round v m ?r = blake_round (map ((!) m) (B3_MSG ! ?r)) v"
    by (rule b3_round_spec) (simp_all add: Suc.prems(2) length_schedule r(1))
  have "[?r..<7] = ?r # [7 - n..<7]" using upt_conv_Cons [OF r(1)] r(2) by simp
  then have "foldl (\<lambda>state round. b3_round state m round) v [?r..<7] =
      spec_rounds n (map ((!) m) (B3_MSG ! (7 - n))) (blake_round (map ((!) m) (B3_MSG ! ?r)) v)"
    using Suc.IH [of "blake_round (map ((!) m) (B3_MSG ! ?r)) v"] Suc.prems round by simp
  moreover have "map ((!) m) (B3_MSG ! (7 - n)) = permute (map ((!) m) (B3_MSG ! ?r))" if "n \<noteq> 0"
    using schedule_permutes [of ?r] permute_row [OF length_schedule [OF r(1)], of m] that r by simp
  ultimately show ?case by (cases "n = 0") simp_all
qed simp

lemma schedule_0: "length m = 16 \<Longrightarrow> map ((!) m) (B3_MSG ! 0) = m"
  by (rule nth_equalityI) (auto simp: B3_MSG_def less_Suc_eq numeral_eq_Suc)

lemma load32le_le_dec: "4 \<le> length p \<Longrightarrow> load32le p = le_dec (take 4 p)"
  by (simp add: nth_first_four load32le_def push_bit_or push_bit_push_bit or.assoc)

lemma store32le_le_enc: "store32le v = le_enc 4 v"
  by (simp add: store32le_def numeral_eq_Suc drop_bit_drop_bit)

lemma length_spec_rounds [simp]: "length (spec_rounds n m v) = length v"
  by (induction n m v rule: spec_rounds.induct) simp_all

lemma length_B3_IV [simp]: "length B3_IV = 8"
  by (simp add: B3_IV_def)

lemma map_nth_range: "length xs = n \<Longrightarrow> map ((!) xs) [0..<n] = xs"
  using map_nth [of xs] by simp

lemma b3_compress_spec:
  assumes "length cv = 8" and "length block = 64"
  shows "b3_compress cv block n flags = concat (map (le_enc 4) (spec_compress cv block 0 (unat n) (unat flags)))"
proof -
  define m where "m = map (\<lambda>i. load32le (drop (4 * i) block)) [0..<16]"
  define v where "v = cv @ take 4 B3_IV @ [0, 0, ucast n, ucast flags]"
  have m: "m = map (\<lambda>i. le_dec (take 4 (drop (4 * i) block))) [0..<16]"
    unfolding m_def by (rule map_cong) (simp_all add: load32le_le_dec assms(2))
  have v: "(map ((!) cv) [0..<8] @ map (\<lambda>i. if i < 4 then B3_IV ! i else 0) [0..<8])
      [14 := ucast n, 15 := ucast flags] = v"
    by (rule nth_equalityI)
      (auto simp: v_def assms(1) nth_append nth_list_update B3_IV_def less_Suc_eq numeral_eq_Suc)
  define s where "s = spec_rounds 7 m v"
  have len: "length v = 16" "length m = 16" "length s = 16" by (simp_all add: v_def m_def s_def assms(1))
  have s: "foldl (\<lambda>state round. b3_round state m round) v [0..<7] = s"
    using b3_rounds_spec [of 7 v m] schedule_0 [OF len(2)] by (simp add: s_def len(1))
  have "map (\<lambda>i. store32le (s ! i XOR s ! (i + 8))) [0..<8] = map (le_enc 4) (map2 (XOR) (take 8 s) (drop 8 s))"
    "map (\<lambda>i. store32le (s ! (i + 8) XOR cv ! i)) [0..<8] = map (le_enc 4) (map2 (XOR) (drop 8 s) cv)"
    by (rule nth_equalityI; simp add: len assms(1) add.commute store32le_le_enc)+
  moreover have "cv @ take 4 B3_IV @ [ucast (0 :: u64), ucast (drop_bit 32 (0 :: u64)), of_nat (unat n), of_nat (unat flags)] = v"
    by (simp add: v_def)
  ultimately show ?thesis
    unfolding b3_compress_def spec_compress_def Let_def m_def [symmetric] m [symmetric] v s
    by (simp add: s_def)
qed

lemma length_spec_compress [simp]: "length cv = 8 \<Longrightarrow> length (spec_compress cv b t n f) = 16"
  by (simp add: spec_compress_def Let_def)

lemma length_spec_chain [simp]: "length (spec_chain d n) = 8"
  by (induction n) (simp_all add: spec_chain_def)

lemma spec_chain_Suc:
  "spec_chain d (Suc n) = take 8 (spec_compress (spec_chain d n) (spec_block d n) 0 64 (if n = 0 then 1 else 0))"
  by (simp add: spec_chain_def)

lemma drop_concat_le_enc:
  "drop (4 * i) (concat (map (le_enc 4) ws)) = concat (map (le_enc 4) (drop i ws))"
proof (induction i arbitrary: ws)
  case (Suc i)
  then show ?case by (cases ws) simp_all
qed simp

lemma load_words:
  assumes "n \<le> length ws"
  shows "map (\<lambda>i. load32le (drop (4 * i) (concat (map (le_enc 4) ws)))) [0..<n] = take n (ws :: u32 list)"
proof (rule nth_equalityI)
  fix i assume "i < length (map (\<lambda>i. load32le (drop (4 * i) (concat (map (le_enc 4) ws)))) [0..<n])"
  then have i: "i < n" by simp
  then have "drop i ws = ws ! i # drop (Suc i) ws" using assms by (simp add: Cons_nth_drop_Suc)
  then show "map (\<lambda>i. load32le (drop (4 * i) (concat (map (le_enc 4) ws)))) [0..<n] ! i = take n ws ! i"
    using i by (simp add: drop_concat_le_enc load32le_le_dec le_dec_le_enc take_bit_whole_word)
qed (use assms in simp)

lemma spec_block_inner: "64 * Suc n \<le> length d \<Longrightarrow> spec_block d n = take 64 (drop (64 * n) d)"
  by (simp add: spec_block_def Let_def)

lemma b3_blocks_chain:
  "n = 0 \<or> 64 * n < length d \<Longrightarrow>
   b3_blocks B3_IV 1 d = b3_blocks (spec_chain d n) (if n = 0 then 1 else 0) (drop (64 * n) d)"
proof (induction n)
  case 0
  then show ?case by (simp add: spec_chain_def)
next
  case (Suc n)
  then have len: "64 * Suc n < length d" by simp
  let ?f = "if n = 0 then 1 else 0 :: byte"
  have cv: "map (\<lambda>i. load32le (drop (4 * i) (b3_compress (spec_chain d n) (take 64 (drop (64 * n) d)) 64 ?f))) [0..<8]
      = spec_chain d (Suc n)"
    using len by (simp add: b3_compress_spec load_words spec_chain_Suc spec_block_inner)
  have "b3_blocks B3_IV 1 d = b3_blocks (spec_chain d n) ?f (drop (64 * n) d)"
    using Suc len by simp
  moreover have step: "64 < length (drop (64 * n) d)" and rest: "drop 64 (drop (64 * n) d) = drop (64 * Suc n) d"
    using len by (simp_all add: add.commute)
  ultimately have "b3_blocks B3_IV 1 d = b3_blocks (spec_chain d (Suc n)) 0 (drop (64 * Suc n) d)"
    by (subst (asm) b3_blocks.simps [of "spec_chain d n"]) (simp only: step if_True Let_def cv rest)
  then show ?case by simp
qed

lemma b3_hash_spec: "b3_hash d = blake3_chunk d"
proof -
  define l where "l = spec_blocks d - 1"
  have l: "l = 0 \<or> 64 * l < length d" "length d \<le> 64 * Suc l"
    by (auto simp: l_def spec_blocks_def max_def)
  let ?f = "if l = 0 then 1 else 0 :: byte"
  have rest: "length (drop (64 * l) d) \<le> 64" using l(2) by simp
  have "b3_blocks B3_IV 1 d = (spec_chain d l, ?f, drop (64 * l) d)"
    using b3_blocks_chain [OF l(1)] rest by (subst (asm) b3_blocks.simps [of "spec_chain d l"]) simp
  moreover have "drop (64 * l) d @ replicate (64 - (length d - 64 * l)) 0 = spec_block d l"
    using rest by (simp add: spec_block_def Let_def)
  moreover have "length (spec_block d l) = 64" by (simp add: spec_block_def Let_def)
  moreover have "unat (of_nat (length d - 64 * l) :: byte) = length d - 64 * l"
    using rest by (simp add: unat_of_nat)
  moreover have "unat (?f OR 2 OR 8) = (if l = 0 then 1 else 0) + 2 + 8" by simp
  ultimately show ?thesis
    unfolding b3_hash_def blake3_chunk_def l_def [symmetric] Let_def
    by (simp add: map_nth_range b3_compress_spec)
qed

lemma length_concat_le_enc [simp]: "length (concat (map (le_enc n) ws)) = n * length ws"
  by (induction ws) simp_all

lemma length_blake3_chunk: "length (blake3_chunk d) = 32"
  by (simp add: blake3_chunk_def Let_def)

section \<open>Properties\<close>

text \<open>
  C21. The host's BLAKE3, with its message schedule from a table, chaining through serialised
  blocks and wrapping words, computes the BLAKE3 hash of every message of at most one chunk.
\<close>

theorem b3_hash_correct:
  assumes "length d \<le> 1024"
  shows "b3_hash d = blake3_chunk d \<and> length (b3_hash d) = 32"
  using b3_hash_spec length_blake3_chunk by simp

theorem b3_hash_correct_witness: "b3_hash (replicate 100 7) = blake3_chunk (replicate 100 7)"
  by (rule b3_hash_correct [THEN conjunct1]) simp

end
