(* ===== verification/Sph_Buffer.thy ===== *)
theory Sph_Buffer
  imports Stream_Hash Sph_Types
begin

text \<open>
  The input routine that the sphlib hashes outside the Merkle-Damgard frame repeat with their
  own names: bytes are collected in the context's buffer and the compression runs as soon as
  a block is complete. It is modelled once, as a function of the block size and of the
  processing of a block, and each hash uses it with its own parameters. What it promises
  is the locale \<open>sph_hash\<close>, which makes every such hash an instance of \<open>stream_hash\<close>.
\<close>

section \<open>The input routine\<close>

record 's sph_context =
  sc_buf :: bytes
  sc_ptr :: nat
  sc_state :: 's

text \<open>
  The loop over the data once it does not fit the rest of the block. The compression reads the
  block, i.e. the first \<open>B\<close> bytes of the buffer, which may be larger. The position is below
  \<open>B\<close> in every context the entry points build (\<open>sph_inv\<close>), so the second part of the test never
  stops the loop early; it makes the recursion total.
\<close>

function sph_core_loop :: "nat \<Rightarrow> (bytes \<Rightarrow> 's \<Rightarrow> 's) \<Rightarrow> ('s, 'x) sph_context_scheme \<Rightarrow> bytes \<Rightarrow> ('s, 'x) sph_context_scheme" where
  "sph_core_loop B f sc data =
     (if data = [] \<or> B \<le> sc_ptr sc then sc
      else
        let clen = min (B - sc_ptr sc) (length data);
            buf = memcpy_at (sc_buf sc) (sc_ptr sc) (take clen data);
            ptr = sc_ptr sc + clen
        in if ptr = B
           then sph_core_loop B f (sc\<lparr>sc_buf := buf, sc_ptr := 0, sc_state := f (take B buf) (sc_state sc)\<rparr>) (drop clen data)
           else sph_core_loop B f (sc\<lparr>sc_buf := buf, sc_ptr := ptr\<rparr>) (drop clen data))"
  by pat_completeness auto
termination
  by (relation "measure (\<lambda>(B, f, sc, data). length data)") auto

declare sph_core_loop.simps [simp del]

definition sph_core :: "nat \<Rightarrow> (bytes \<Rightarrow> 's \<Rightarrow> 's) \<Rightarrow> ('s, 'x) sph_context_scheme \<Rightarrow> bytes \<Rightarrow> ('s, 'x) sph_context_scheme" where
  "sph_core B f sc data =
     (if length data < B - sc_ptr sc
      then sc\<lparr>sc_buf := memcpy_at (sc_buf sc) (sc_ptr sc) data, sc_ptr := sc_ptr sc + length data\<rparr>
      else sph_core_loop B f sc data)"

section \<open>Absorption\<close>

definition sph_inv :: "nat \<Rightarrow> nat \<Rightarrow> ('s, 'x) sph_context_scheme \<Rightarrow> bool" where
  "sph_inv C B sc \<longleftrightarrow> length (sc_buf sc) = C \<and> B \<le> C \<and> sc_ptr sc < B"

definition sph_view :: "('s, 'x) sph_context_scheme \<Rightarrow> 's \<times> bytes" where
  "sph_view sc = (sc_state sc, take (sc_ptr sc) (sc_buf sc))"

definition sph_absorb :: "nat \<Rightarrow> (bytes \<Rightarrow> 's \<Rightarrow> 's) \<Rightarrow> 's \<times> bytes \<Rightarrow> bytes \<Rightarrow> 's \<times> bytes" where
  "sph_absorb B f v d = absorb_blocks B (\<lambda>s x. f x s) (fst v) (snd v @ d)"

lemma sph_core_loop_view:
  assumes "sph_inv C B sc"
  shows "sph_inv C B (sph_core_loop B f sc d) \<and> sph_view (sph_core_loop B f sc d) = sph_absorb B f (sph_view sc) d"
  using assms
proof (induction B f sc d rule: sph_core_loop.induct)
  case (1 B f sc data)
  have B: "0 < B" "length (sc_buf sc) = C" "B \<le> C" "sc_ptr sc < B" using 1(3) by (auto simp: sph_inv_def)
  show ?case
  proof (cases "data = []")
    case True
    then show ?thesis
      using 1(3) B by (simp add: sph_core_loop.simps [of _ _ _ "[]"] sph_absorb_def sph_view_def)
  next
    case False
    define clen where "clen = min (B - sc_ptr sc) (length data)"
    define buf where "buf = memcpy_at (sc_buf sc) (sc_ptr sc) (take clen data)"
    have c: "clen \<le> length data" "sc_ptr sc + clen \<le> B" using B by (auto simp: clen_def)
    have lt: "length (take clen data) = clen" using c by simp
    have buf: "length buf = C" "take (sc_ptr sc + clen) buf = take (sc_ptr sc) (sc_buf sc) @ take clen data"
      using B c take_memcpy_at [of "sc_ptr sc" "sc_buf sc" "take clen data", unfolded lt] by (simp_all add: buf_def)
    have split: "take (sc_ptr sc) (sc_buf sc) @ data = take (sc_ptr sc + clen) buf @ drop clen data" by (simp add: buf)
    show ?thesis
    proof (cases "sc_ptr sc + clen = B")
      case True
      let ?sc = "sc\<lparr>sc_buf := buf, sc_ptr := 0, sc_state := f (take B buf) (sc_state sc)\<rparr>"
      have "sph_core_loop B f sc data = sph_core_loop B f ?sc (drop clen data)"
        using False B True by (subst sph_core_loop.simps) (simp add: clen_def [symmetric] buf_def [symmetric])
      moreover have "sph_absorb B f (sph_view sc) data = sph_absorb B f (sph_view ?sc) (drop clen data)"
        using B buf(1) True by (simp add: sph_absorb_def sph_view_def split absorb_blocks_step)
      moreover have "sph_inv C B ?sc" using B buf(1) by (simp add: sph_inv_def)
      ultimately show ?thesis
        using 1(1) [OF _ clen_def buf_def refl True] False B by simp
    next
      case part: False
      then have all: "clen = length data" using c by (auto simp: clen_def)
      then have "sph_core_loop B f sc data = sc\<lparr>sc_buf := buf, sc_ptr := sc_ptr sc + clen\<rparr>"
        using False B part by (simp add: sph_core_loop.simps [of _ _ _ data] sph_core_loop.simps [of _ _ _ "[]"]
            clen_def [symmetric] buf_def)
      then show ?thesis
        using B buf c part all by (simp add: sph_inv_def sph_absorb_def sph_view_def split)
    qed
  qed
qed

lemma sph_core_view:
  assumes "sph_inv C B sc"
  shows "sph_inv C B (sph_core B f sc d)" and "sph_view (sph_core B f sc d) = sph_absorb B f (sph_view sc) d"
proof -
  have "sph_inv C B (sph_core B f sc d) \<and> sph_view (sph_core B f sc d) = sph_absorb B f (sph_view sc) d"
  proof (cases "length d < B - sc_ptr sc")
    case True
    then show ?thesis
      using assms take_memcpy_at [of "sc_ptr sc" "sc_buf sc" d]
      by (auto simp: sph_core_def sph_inv_def sph_view_def sph_absorb_def)
  next
    case False
    then show ?thesis using sph_core_loop_view [OF assms] by (simp add: sph_core_def)
  qed
  then show "sph_inv C B (sph_core B f sc d)" "sph_view (sph_core B f sc d) = sph_absorb B f (sph_view sc) d" by simp_all
qed

lemma sph_view_tail: "sph_inv C B sc \<Longrightarrow> length (snd (sph_view sc)) < B"
  by (simp add: sph_inv_def sph_view_def)

lemma sph_absorb_append:
  assumes "0 < B"
  shows "sph_absorb B f (sph_absorb B f v d) e = sph_absorb B f v (d @ e)"
  unfolding sph_absorb_def
  by (metis absorb_blocks_append append_assoc assms prod.collapse)

lemma sph_inv_updates: "sph_inv C B c \<Longrightarrow> sph_inv C B (foldl (sph_core B f) c ds)"
  by (induction ds arbitrary: c) (simp_all add: sph_core_view)

text \<open>Input that completes the block.\<close>

lemma sph_core_fill:
  assumes "sph_inv B B sc" and "length d = B - sc_ptr sc"
  shows "sc_state (sph_core B f sc d) = f (snd (sph_view sc) @ d) (sc_state sc)"
    and "sc_ptr (sph_core B f sc d) = 0" and "sph_inv B B (sph_core B f sc d)"
proof -
  let ?x = "snd (sph_view sc) @ d"
  have B: "0 < B" "length ?x = B" using assms by (auto simp: sph_inv_def sph_view_def)
  have inv: "sph_inv B B (sph_core B f sc d)" using sph_core_view(1) [OF assms(1)] .
  have "sph_view (sph_core B f sc d) = (f ?x (sc_state sc), [])"
    using sph_core_view(2) [OF assms(1), of f d] absorb_blocks_step [OF B, of "\<lambda>s x. f x s" "sc_state sc" "[]"] B(1)
    by (simp add: sph_absorb_def) (simp add: sph_view_def)
  then show "sc_state (sph_core B f sc d) = f ?x (sc_state sc)" "sc_ptr (sph_core B f sc d) = 0"
    using inv by (auto simp: sph_view_def sph_inv_def)
  show "sph_inv B B (sph_core B f sc d)" by (rule inv)
qed

text \<open>The buffer with a byte appended and the rest cleared, as every closing routine prepares it.\<close>

lemma sph_pad_buffer:
  assumes "sph_inv B B sc"
  shows "memcpy_at ((sc_buf sc)[sc_ptr sc := p]) (sc_ptr sc + 1) (replicate (B - (sc_ptr sc + 1)) 0) =
    snd (sph_view sc) @ p # replicate (B - (length (snd (sph_view sc)) + 1)) 0"
  using assms by (simp add: sph_inv_def sph_view_def memcpy_at_def upd_conv_take_nth_drop, arith)

text \<open>What a hash adds: a finishing step that reads the context only through its view.\<close>

locale sph_hash =
  fixes C B :: nat and f :: "bytes \<Rightarrow> 's \<Rightarrow> 's" and close :: "('s, 'x) sph_context_scheme \<Rightarrow> 'o"
  assumes buffer: "0 < B"
    and close_view: "sph_inv C B sc \<Longrightarrow> sph_inv C B sc' \<Longrightarrow> sph_view sc = sph_view sc' \<Longrightarrow> close sc = close sc'"

sublocale sph_hash \<subseteq> stream_hash "sph_inv C B" sph_view "sph_absorb B f" "sph_core B f" close
proof
  show "sph_absorb B f (sph_view c) [] = sph_view c" if "sph_inv C B c" for c
    using sph_view_tail [OF that] by (simp add: sph_absorb_def)
  show "sph_absorb B f (sph_absorb B f (sph_view c) d) e = sph_absorb B f (sph_view c) (d @ e)" for c d e
    by (rule sph_absorb_append [OF buffer])
qed (fact sph_core_view close_view)+

context sph_hash
begin

lemma message_view:
  fixes c :: "('s, 'x) sph_context_scheme"
  assumes "sph_inv C B c" and "sph_view c = (s, [])"
  shows "sph_view (foldl (sph_core B f) c ds) = absorb_blocks B (\<lambda>s x. f x s) s (concat ds)"
  using view_updates [OF assms(1), of ds] by (simp add: assms(2) sph_absorb_def)

end

end
