(* ===== verification/Keccak.thy ===== *)
theory Keccak
  imports Sph_Buffer
begin

text \<open>
  Keccak as the GhostRider chain uses it, from \<^verbatim>\<open>xmrig/crypto/ghostrider/sph_keccak.c\<close> in its 64-bit
  build. The source never moves a lane: each round works through a permuted list of lanes, given
  as macro arguments, and after a number of rounds that the build chooses the lanes are moved
  back. Some lanes are moreover kept complemented so that most negations disappear. Both builds
  of the input routine and every unrolling are modelled and shown to compute Keccak-f[1600].
\<close>

unbundle bit_operations_syntax

section \<open>Lanes and macro arguments\<close>

text \<open>
  The macro \<^verbatim>\<open>a\<close> followed by two digits names a lane of the state; the digits are written as one
  number here. With \<^verbatim>\<open>SPH_KECCAK_NOCOPY\<close> it is an element of \<^verbatim>\<open>u.wide\<close>, otherwise a local variable
  that \<^verbatim>\<open>READ_STATE\<close> loads from that element and \<^verbatim>\<open>WRITE_STATE\<close> stores there.
\<close>

definition lanes :: "nat list \<Rightarrow> nat list" where
  "lanes = map (\<lambda>a. a div 10 + 5 * (a mod 10))"

text \<open>A macro whose parameters stand for the lanes of a list reads and writes these lanes.\<close>

definition gather :: "nat list \<Rightarrow> 'a list \<Rightarrow> 'a list" where
  "gather p s = map ((!) s) p"

definition scatter :: "nat list \<Rightarrow> 'a list \<Rightarrow> 'a list \<Rightarrow> 'a list" where
  "scatter p v s = fold (\<lambda>(i, x) s. s[i := x]) (zip p v) s"

definition through :: "nat list \<Rightarrow> ('a list \<Rightarrow> 'a list) \<Rightarrow> 'a list \<Rightarrow> 'a list" where
  "through p f s = scatter p (f (gather p s)) s"

text \<open>A run of moves that passes each lane of a cycle to the one before it, through a temporary.\<close>

definition move_cycle :: "nat list \<Rightarrow> 'a list \<Rightarrow> 'a list" where
  "move_cycle c s = (let t = s ! hd c in (fold (\<lambda>(d, v) s. s[d := s ! v]) (zip c (tl c)) s)[last c := t])"

section \<open>The permutation\<close>

definition keccak_RC :: "u64 list" where
  "keccak_RC =
    [0x0000000000000001, 0x0000000000008082, 0x800000000000808A, 0x8000000080008000,
     0x000000000000808B, 0x0000000080000001, 0x8000000080008081, 0x8000000000008009,
     0x000000000000008A, 0x0000000000000088, 0x0000000080008009, 0x000000008000000A,
     0x000000008000808B, 0x800000000000008B, 0x8000000000008089, 0x8000000000008003,
     0x8000000000008002, 0x8000000000000080, 0x000000000000800A, 0x800000008000000A,
     0x8000000080008081, 0x8000000000008080, 0x0000000080000001, 0x8000000080008008]"

definition TH_ELT :: "u64 \<Rightarrow> u64 \<Rightarrow> u64 \<Rightarrow> u64 \<Rightarrow> u64 \<Rightarrow> u64 \<Rightarrow> u64 \<Rightarrow> u64 \<Rightarrow> u64 \<Rightarrow> u64 \<Rightarrow> u64" where
  "TH_ELT c0 c1 c2 c3 c4 d0 d1 d2 d3 d4 =
     (let tt0 = d0 XOR d1; tt1 = d2 XOR d3; tt0 = tt0 XOR d4; tt0 = tt0 XOR tt1;
          tt0 = SPH_ROTL64 tt0 1; tt2 = c0 XOR c1; tt3 = c2 XOR c3; tt0 = tt0 XOR c4;
          tt2 = tt2 XOR tt3
      in tt0 XOR tt2)"

definition KHI_XO :: "u64 \<Rightarrow> u64 \<Rightarrow> u64 \<Rightarrow> u64" where
  "KHI_XO a b c = (let kt = b OR c in a XOR kt)"

definition KHI_XA :: "u64 \<Rightarrow> u64 \<Rightarrow> u64 \<Rightarrow> u64" where
  "KHI_XA a b c = (let kt = b AND c in a XOR kt)"

definition THETA :: "u64 list \<Rightarrow> u64 list" where
  "THETA b =
     (let b00 = b ! 0; b01 = b ! 1; b02 = b ! 2; b03 = b ! 3; b04 = b ! 4;
           b10 = b ! 5; b11 = b ! 6; b12 = b ! 7; b13 = b ! 8; b14 = b ! 9;
           b20 = b ! 10; b21 = b ! 11; b22 = b ! 12; b23 = b ! 13; b24 = b ! 14;
           b30 = b ! 15; b31 = b ! 16; b32 = b ! 17; b33 = b ! 18; b34 = b ! 19;
           b40 = b ! 20; b41 = b ! 21; b42 = b ! 22; b43 = b ! 23; b44 = b ! 24;
           t0 = TH_ELT b40 b41 b42 b43 b44 b10 b11 b12 b13 b14;
           t1 = TH_ELT b00 b01 b02 b03 b04 b20 b21 b22 b23 b24;
           t2 = TH_ELT b10 b11 b12 b13 b14 b30 b31 b32 b33 b34;
           t3 = TH_ELT b20 b21 b22 b23 b24 b40 b41 b42 b43 b44;
           t4 = TH_ELT b30 b31 b32 b33 b34 b00 b01 b02 b03 b04; b00 = b00 XOR t0; b01 = b01 XOR t0;
           b02 = b02 XOR t0; b03 = b03 XOR t0; b04 = b04 XOR t0; b10 = b10 XOR t1; b11 = b11 XOR t1;
           b12 = b12 XOR t1; b13 = b13 XOR t1; b14 = b14 XOR t1; b20 = b20 XOR t2; b21 = b21 XOR t2;
           b22 = b22 XOR t2; b23 = b23 XOR t2; b24 = b24 XOR t2; b30 = b30 XOR t3; b31 = b31 XOR t3;
           b32 = b32 XOR t3; b33 = b33 XOR t3; b34 = b34 XOR t3; b40 = b40 XOR t4; b41 = b41 XOR t4;
           b42 = b42 XOR t4; b43 = b43 XOR t4; b44 = b44 XOR t4
      in [b00, b01, b02, b03, b04, b10, b11, b12, b13, b14,
           b20, b21, b22, b23, b24, b30, b31, b32, b33, b34,
           b40, b41, b42, b43, b44])"

definition RHO :: "u64 list \<Rightarrow> u64 list" where
  "RHO b =
     (let b00 = b ! 0; b01 = b ! 1; b02 = b ! 2; b03 = b ! 3; b04 = b ! 4;
           b10 = b ! 5; b11 = b ! 6; b12 = b ! 7; b13 = b ! 8; b14 = b ! 9;
           b20 = b ! 10; b21 = b ! 11; b22 = b ! 12; b23 = b ! 13; b24 = b ! 14;
           b30 = b ! 15; b31 = b ! 16; b32 = b ! 17; b33 = b ! 18; b34 = b ! 19;
           b40 = b ! 20; b41 = b ! 21; b42 = b ! 22; b43 = b ! 23; b44 = b ! 24;
           b01 = SPH_ROTL64 b01 36; b02 = SPH_ROTL64 b02 3; b03 = SPH_ROTL64 b03 41; b04 = SPH_ROTL64 b04 18;
           b10 = SPH_ROTL64 b10 1; b11 = SPH_ROTL64 b11 44; b12 = SPH_ROTL64 b12 10; b13 = SPH_ROTL64 b13 45;
           b14 = SPH_ROTL64 b14 2; b20 = SPH_ROTL64 b20 62; b21 = SPH_ROTL64 b21 6; b22 = SPH_ROTL64 b22 43;
           b23 = SPH_ROTL64 b23 15; b24 = SPH_ROTL64 b24 61; b30 = SPH_ROTL64 b30 28; b31 = SPH_ROTL64 b31 55;
           b32 = SPH_ROTL64 b32 25; b33 = SPH_ROTL64 b33 21; b34 = SPH_ROTL64 b34 56; b40 = SPH_ROTL64 b40 27;
           b41 = SPH_ROTL64 b41 20; b42 = SPH_ROTL64 b42 39; b43 = SPH_ROTL64 b43 8; b44 = SPH_ROTL64 b44 14
      in [b00, b01, b02, b03, b04, b10, b11, b12, b13, b14,
           b20, b21, b22, b23, b24, b30, b31, b32, b33, b34,
           b40, b41, b42, b43, b44])"

definition KHI :: "u64 list \<Rightarrow> u64 list" where
  "KHI b =
     (let b00 = b ! 0; b01 = b ! 1; b02 = b ! 2; b03 = b ! 3; b04 = b ! 4;
           b10 = b ! 5; b11 = b ! 6; b12 = b ! 7; b13 = b ! 8; b14 = b ! 9;
           b20 = b ! 10; b21 = b ! 11; b22 = b ! 12; b23 = b ! 13; b24 = b ! 14;
           b30 = b ! 15; b31 = b ! 16; b32 = b ! 17; b33 = b ! 18; b34 = b ! 19;
           b40 = b ! 20; b41 = b ! 21; b42 = b ! 22; b43 = b ! 23; b44 = b ! 24;
           bnn = NOT b20; c0 = KHI_XO b00 b10 b20; c1 = KHI_XO b10 bnn b30; c2 = KHI_XA b20 b30 b40;
           c3 = KHI_XO b30 b40 b00; c4 = KHI_XA b40 b00 b10; b00 = c0; b10 = c1; b20 = c2;
           b30 = c3; b40 = c4; bnn = NOT b41; c0 = KHI_XO b01 b11 b21; c1 = KHI_XA b11 b21 b31;
           c2 = KHI_XO b21 b31 bnn; c3 = KHI_XO b31 b41 b01; c4 = KHI_XA b41 b01 b11; b01 = c0; b11 = c1;
           b21 = c2; b31 = c3; b41 = c4; bnn = NOT b32; c0 = KHI_XO b02 b12 b22;
           c1 = KHI_XA b12 b22 b32; c2 = KHI_XA b22 bnn b42; c3 = KHI_XO bnn b42 b02; c4 = KHI_XA b42 b02 b12;
           b02 = c0; b12 = c1; b22 = c2; b32 = c3; b42 = c4;
           bnn = NOT b33; c0 = KHI_XA b03 b13 b23; c1 = KHI_XO b13 b23 b33; c2 = KHI_XO b23 bnn b43;
           c3 = KHI_XA bnn b43 b03; c4 = KHI_XO b43 b03 b13; b03 = c0; b13 = c1; b23 = c2;
           b33 = c3; b43 = c4; bnn = NOT b14; c0 = KHI_XA b04 bnn b24; c1 = KHI_XO bnn b24 b34;
           c2 = KHI_XA b24 b34 b44; c3 = KHI_XO b34 b44 b04; c4 = KHI_XA b44 b04 b14; b04 = c0; b14 = c1;
           b24 = c2; b34 = c3; b44 = c4
      in [b00, b01, b02, b03, b04, b10, b11, b12, b13, b14,
           b20, b21, b22, b23, b24, b30, b31, b32, b33, b34,
           b40, b41, b42, b43, b44])"

text \<open>The orders in which the rounds pass the lanes, and the macros that move the lanes back.\<close>

definition keccak_P :: "nat list list" where
  "keccak_P =
    [lanes [0, 1, 2, 3, 4, 10, 11, 12, 13, 14, 20, 21, 22, 23, 24, 30, 31, 32, 33, 34, 40, 41, 42, 43, 44],
     lanes [0, 30, 10, 40, 20, 11, 41, 21, 1, 31, 22, 2, 32, 12, 42, 33, 13, 43, 23, 3, 44, 24, 4, 34, 14],
     lanes [0, 33, 11, 44, 22, 41, 24, 2, 30, 13, 32, 10, 43, 21, 4, 23, 1, 34, 12, 40, 14, 42, 20, 3, 31],
     lanes [0, 23, 41, 14, 32, 24, 42, 10, 33, 1, 43, 11, 34, 2, 20, 12, 30, 3, 21, 44, 31, 4, 22, 40, 13],
     lanes [0, 12, 24, 31, 43, 42, 4, 11, 23, 30, 34, 41, 3, 10, 22, 21, 33, 40, 2, 14, 13, 20, 32, 44, 1],
     lanes [0, 21, 42, 13, 34, 4, 20, 41, 12, 33, 3, 24, 40, 11, 32, 2, 23, 44, 10, 31, 1, 22, 43, 14, 30],
     lanes [0, 2, 4, 1, 3, 20, 22, 24, 21, 23, 40, 42, 44, 41, 43, 10, 12, 14, 11, 13, 30, 32, 34, 31, 33],
     lanes [0, 10, 20, 30, 40, 22, 32, 42, 2, 12, 44, 4, 14, 24, 34, 11, 21, 31, 41, 1, 33, 43, 3, 13, 23],
     lanes [0, 11, 22, 33, 44, 32, 43, 4, 10, 21, 14, 20, 31, 42, 3, 41, 2, 13, 24, 30, 23, 34, 40, 1, 12],
     lanes [0, 41, 32, 23, 14, 43, 34, 20, 11, 2, 31, 22, 13, 4, 40, 24, 10, 1, 42, 33, 12, 3, 44, 30, 21],
     lanes [0, 24, 43, 12, 31, 34, 3, 22, 41, 10, 13, 32, 1, 20, 44, 42, 11, 30, 4, 23, 21, 40, 14, 33, 2],
     lanes [0, 42, 34, 21, 13, 3, 40, 32, 24, 11, 1, 43, 30, 22, 14, 4, 41, 33, 20, 12, 2, 44, 31, 23, 10],
     lanes [0, 4, 3, 2, 1, 40, 44, 43, 42, 41, 30, 34, 33, 32, 31, 20, 24, 23, 22, 21, 10, 14, 13, 12, 11],
     lanes [0, 20, 40, 10, 30, 44, 14, 34, 4, 24, 33, 3, 23, 43, 13, 22, 42, 12, 32, 2, 11, 31, 1, 21, 41],
     lanes [0, 22, 44, 11, 33, 14, 31, 3, 20, 42, 23, 40, 12, 34, 1, 32, 4, 21, 43, 10, 41, 13, 30, 2, 24],
     lanes [0, 32, 14, 41, 23, 31, 13, 40, 22, 4, 12, 44, 21, 3, 30, 43, 20, 2, 34, 11, 24, 1, 33, 10, 42],
     lanes [0, 43, 31, 24, 12, 13, 1, 44, 32, 20, 21, 14, 2, 40, 33, 34, 22, 10, 3, 41, 42, 30, 23, 11, 4],
     lanes [0, 34, 13, 42, 21, 1, 30, 14, 43, 22, 2, 31, 10, 44, 23, 3, 32, 11, 40, 24, 4, 33, 12, 41, 20],
     lanes [0, 3, 1, 4, 2, 30, 33, 31, 34, 32, 10, 13, 11, 14, 12, 40, 43, 41, 44, 42, 20, 23, 21, 24, 22],
     lanes [0, 40, 30, 20, 10, 33, 23, 13, 3, 43, 11, 1, 41, 31, 21, 44, 34, 24, 14, 4, 22, 12, 2, 42, 32],
     lanes [0, 44, 33, 22, 11, 23, 12, 1, 40, 34, 41, 30, 24, 13, 2, 14, 3, 42, 31, 20, 32, 21, 10, 4, 43],
     lanes [0, 14, 23, 32, 41, 12, 21, 30, 44, 3, 24, 33, 42, 1, 10, 31, 40, 4, 13, 22, 43, 2, 11, 20, 34],
     lanes [0, 31, 12, 43, 24, 21, 2, 33, 14, 40, 42, 23, 4, 30, 11, 13, 44, 20, 1, 32, 34, 10, 41, 22, 3],
     lanes [0, 13, 21, 34, 42, 2, 10, 23, 31, 44, 4, 12, 20, 33, 41, 1, 14, 22, 30, 43, 3, 11, 24, 32, 40]]"

definition P1_TO_P0 :: "u64 list \<Rightarrow> u64 list" where
  "P1_TO_P0 s = move_cycle (lanes [1, 30, 33, 23, 12, 21, 2, 10, 11, 41, 24, 42, 4, 20, 22, 32, 43, 34, 3, 40, 44, 14, 31, 13]) s"

definition P2_TO_P0 :: "u64 list \<Rightarrow> u64 list" where
  "P2_TO_P0 s =
     (let s = move_cycle (lanes [1, 33, 12, 2, 11, 24, 4, 22, 43, 3, 44, 31]) s;
          s = move_cycle (lanes [10, 41, 42, 20, 32, 34, 40, 14, 13, 30, 23, 21]) s
      in s)"

definition P4_TO_P0 :: "u64 list \<Rightarrow> u64 list" where
  "P4_TO_P0 s =
     (let s = move_cycle (lanes [1, 12, 11, 4, 43, 44]) s;
          s = move_cycle (lanes [2, 24, 22, 3, 31, 33]) s;
          s = move_cycle (lanes [10, 42, 32, 40, 13, 23]) s;
          s = move_cycle (lanes [14, 30, 21, 41, 20, 34]) s
      in s)"

definition P6_TO_P0 :: "u64 list \<Rightarrow> u64 list" where
  "P6_TO_P0 s =
     (let s = move_cycle (lanes [1, 2, 4, 3]) s;
          s = move_cycle (lanes [10, 20, 40, 30]) s;
          s = move_cycle (lanes [11, 22, 44, 33]) s;
          s = move_cycle (lanes [12, 24, 43, 31]) s;
          s = move_cycle (lanes [13, 21, 42, 34]) s;
          s = move_cycle (lanes [14, 23, 41, 32]) s
      in s)"

definition P8_TO_P0 :: "u64 list \<Rightarrow> u64 list" where
  "P8_TO_P0 s =
     (let s = move_cycle (lanes [1, 11, 43]) s;
          s = move_cycle (lanes [2, 22, 31]) s;
          s = move_cycle (lanes [3, 33, 24]) s;
          s = move_cycle (lanes [4, 44, 12]) s;
          s = move_cycle (lanes [10, 32, 13]) s;
          s = move_cycle (lanes [14, 21, 20]) s;
          s = move_cycle (lanes [23, 42, 40]) s;
          s = move_cycle (lanes [30, 41, 34]) s
      in s)"

definition P12_TO_P0 :: "u64 list \<Rightarrow> u64 list" where
  "P12_TO_P0 s =
     (let s = move_cycle (lanes [1, 4]) s;
          s = move_cycle (lanes [2, 3]) s;
          s = move_cycle (lanes [10, 40]) s;
          s = move_cycle (lanes [11, 44]) s;
          s = move_cycle (lanes [12, 43]) s;
          s = move_cycle (lanes [13, 42]) s;
          s = move_cycle (lanes [14, 41]) s;
          s = move_cycle (lanes [20, 30]) s;
          s = move_cycle (lanes [21, 34]) s;
          s = move_cycle (lanes [22, 33]) s;
          s = move_cycle (lanes [23, 32]) s;
          s = move_cycle (lanes [24, 31]) s
      in s)"

definition IOTA :: "u64 \<Rightarrow> u64 list \<Rightarrow> u64 list" where
  "IOTA r s = s[0 := s ! 0 XOR r]"

definition KF_ELT :: "nat \<Rightarrow> nat \<Rightarrow> u64 \<Rightarrow> u64 list \<Rightarrow> u64 list" where
  "KF_ELT r s k a =
     (let a = through (keccak_P ! r) THETA a;
          a = through (keccak_P ! r) RHO a;
          a = through (keccak_P ! s) KHI a
      in IOTA k a)"

text \<open>The loop with \<open>u\<close> rounds in its body, which ends by moving the lanes back.\<close>

definition keccak_loop :: "nat \<Rightarrow> (u64 list \<Rightarrow> u64 list) \<Rightarrow> u64 list \<Rightarrow> u64 list" where
  "keccak_loop u to_P0 a =
     foldl (\<lambda>a j. to_P0 (foldl (\<lambda>a i. KF_ELT i (i + 1) (keccak_RC ! (j + i)) a) a [0..<u])) a
       (map (\<lambda>i. i * u) [0..<24 div u])"

text \<open>All settings of \<^verbatim>\<open>SPH_KECCAK_UNROLL\<close>; the others do not compile.\<close>

definition KECCAK_F_1600_unrolled :: "nat \<Rightarrow> u64 list \<Rightarrow> u64 list option" where
  "KECCAK_F_1600_unrolled u a =
     (if u = 1 then Some (keccak_loop 1 P1_TO_P0 a)
      else if u = 2 then Some (keccak_loop 2 P2_TO_P0 a)
      else if u = 4 then Some (keccak_loop 4 P4_TO_P0 a)
      else if u = 6 then Some (keccak_loop 6 P6_TO_P0 a)
      else if u = 8 then Some (keccak_loop 8 P8_TO_P0 a)
      else if u = 12 then Some (keccak_loop 12 P12_TO_P0 a)
      else if u = 0 then Some (foldl (\<lambda>a i. KF_ELT i ((i + 1) mod 24) (keccak_RC ! i) a) a [0..<24])
      else None)"

text \<open>The default.\<close>

definition SPH_KECCAK_UNROLL :: nat where
  "SPH_KECCAK_UNROLL = 8"

definition KECCAK_F_1600 :: "u64 list \<Rightarrow> u64 list" where
  "KECCAK_F_1600 a = the (KECCAK_F_1600_unrolled SPH_KECCAK_UNROLL a)"

section \<open>Input\<close>

definition INPUT_BUF :: "nat \<Rightarrow> bytes \<Rightarrow> u64 list \<Rightarrow> u64 list" where
  "INPUT_BUF sz buf wide =
     foldl (\<lambda>w j. w[j div 8 := w ! (j div 8) XOR sph_dec64le_aligned host (drop j buf)]) wide
       (map (\<lambda>i. 8 * i) [0..<(sz + 7) div 8])"

text \<open>Without \<^verbatim>\<open>SPH_KECCAK_NOCOPY\<close> the words are listed, with exits at the smaller sizes.\<close>

definition input_words :: "(nat \<times> nat) list \<Rightarrow> bytes \<Rightarrow> u64 list \<Rightarrow> u64 list" where
  "input_words ws buf a =
     foldl (\<lambda>a (x, off). let l = x div 10 + 5 * (x mod 10) in a[l := a ! l XOR sph_dec64le_aligned host (drop off buf)]) a ws"

definition INPUT_BUF_copied :: "nat \<Rightarrow> bytes \<Rightarrow> u64 list \<Rightarrow> u64 list" where
  "INPUT_BUF_copied lim buf a =
     (let a = input_words [(0, 0), (10, 8), (20, 16), (30, 24), (40, 32), (1, 40), (11, 48), (21, 56), (31, 64)] buf a
      in if lim = 72 then a else
      let a = input_words [(41, 72), (2, 80), (12, 88), (22, 96)] buf a
      in if lim = 104 then a else
      let a = input_words [(32, 104), (42, 112), (3, 120), (13, 128)] buf a
      in if lim = 136 then a else input_words [(23, 136)] buf a)"


section \<open>The context\<close>

record keccak_context = "u64 list sph_context" +
  kc_lim :: nat

text \<open>The lanes that are kept complemented, set on initialisation and inverted on closing.\<close>

definition keccak_init :: "keccak_context \<Rightarrow> nat \<Rightarrow> keccak_context" where
  "keccak_init kc out_size =
     (let w = replicate 25 0;
          w = w[1 := 0xFFFFFFFFFFFFFFFF];
          w = w[2 := 0xFFFFFFFFFFFFFFFF];
          w = w[8 := 0xFFFFFFFFFFFFFFFF];
          w = w[12 := 0xFFFFFFFFFFFFFFFF];
          w = w[17 := 0xFFFFFFFFFFFFFFFF];
          w = w[20 := 0xFFFFFFFFFFFFFFFF]
      in kc\<lparr>sc_state := w, sc_ptr := 0, kc_lim := 200 - out_size div 4\<rparr>)"

definition keccak_block :: "nat \<Rightarrow> bytes \<Rightarrow> u64 list \<Rightarrow> u64 list" where
  "keccak_block lim buf a = KECCAK_F_1600 (INPUT_BUF lim buf a)"

definition keccak_core :: "keccak_context \<Rightarrow> bytes \<Rightarrow> nat \<Rightarrow> keccak_context" where
  "keccak_core kc data lim = sph_core lim (keccak_block lim) kc data"

definition hard_coded_eb :: byte where
  "hard_coded_eb = 1"

text \<open>
  \<^verbatim>\<open>DEFCLOSE(d, lim)\<close>. The argument \<open>tmp\<close> is the uninitialised local array of \<open>lim + 1\<close> bytes, first
  filled with the padding and then with the digest.
\<close>

definition keccak_padding :: "nat \<Rightarrow> keccak_context \<Rightarrow> nat \<Rightarrow> bytes \<Rightarrow> bytes \<times> nat" where
  "keccak_padding lim kc n tmp =
     (let eb = hard_coded_eb
      in if sc_ptr kc = lim - 1
         then (if n = 7
               then (let tmp = tmp[0 := eb];
                         tmp = memcpy_at tmp 1 (replicate (lim - 1) 0);
                         tmp = tmp[lim := 0x80]
                     in (tmp, 1 + lim))
               else (tmp[0 := eb OR 0x80], 1))
         else (let j = lim - sc_ptr kc;
                   tmp = tmp[0 := eb];
                   tmp = memcpy_at tmp 1 (replicate (j - 2) 0);
                   tmp = tmp[j - 1 := 0x80]
               in (tmp, j)))"

definition keccak_close :: "nat \<Rightarrow> nat \<Rightarrow> keccak_context \<Rightarrow> nat \<Rightarrow> nat \<Rightarrow> bytes \<Rightarrow> bytes \<times> keccak_context" where
  "keccak_close d lim kc ub n tmp =
     (let (tmp, j) = keccak_padding lim kc n tmp;
          kc = keccak_core kc (take j tmp) lim;
          w = sc_state kc;
          w = w[1 := NOT (w ! 1)];
          w = w[2 := NOT (w ! 2)];
          w = w[8 := NOT (w ! 8)];
          w = w[12 := NOT (w ! 12)];
          w = w[17 := NOT (w ! 17)];
          w = w[20 := NOT (w ! 20)];
          tmp = foldl (\<lambda>tmp j. memcpy_at tmp j (sph_enc64le_aligned host (w ! (j div 8)))) tmp
                  (map (\<lambda>i. 8 * i) [0..<(d + 7) div 8])
      in (take d tmp, kc\<lparr>sc_state := w\<rparr>))"

definition sph_keccak224_init :: "keccak_context \<Rightarrow> keccak_context" where
  "sph_keccak224_init cc = keccak_init cc 224"

definition sph_keccak224 :: "keccak_context \<Rightarrow> bytes \<Rightarrow> keccak_context" where
  "sph_keccak224 cc data = keccak_core cc data 144"

definition sph_keccak224_addbits_and_close :: "keccak_context \<Rightarrow> nat \<Rightarrow> nat \<Rightarrow> bytes \<Rightarrow> bytes \<times> keccak_context" where
  "sph_keccak224_addbits_and_close cc ub n tmp = keccak_close 28 144 cc ub n tmp"

definition sph_keccak224_close :: "keccak_context \<Rightarrow> bytes \<Rightarrow> bytes \<times> keccak_context" where
  "sph_keccak224_close cc tmp = sph_keccak224_addbits_and_close cc 0 0 tmp"

definition sph_keccak256_init :: "keccak_context \<Rightarrow> keccak_context" where
  "sph_keccak256_init cc = keccak_init cc 256"

definition sph_keccak256 :: "keccak_context \<Rightarrow> bytes \<Rightarrow> keccak_context" where
  "sph_keccak256 cc data = keccak_core cc data 136"

definition sph_keccak256_addbits_and_close :: "keccak_context \<Rightarrow> nat \<Rightarrow> nat \<Rightarrow> bytes \<Rightarrow> bytes \<times> keccak_context" where
  "sph_keccak256_addbits_and_close cc ub n tmp = keccak_close 32 136 cc ub n tmp"

definition sph_keccak256_close :: "keccak_context \<Rightarrow> bytes \<Rightarrow> bytes \<times> keccak_context" where
  "sph_keccak256_close cc tmp = sph_keccak256_addbits_and_close cc 0 0 tmp"

definition sph_keccak384_init :: "keccak_context \<Rightarrow> keccak_context" where
  "sph_keccak384_init cc = keccak_init cc 384"

definition sph_keccak384 :: "keccak_context \<Rightarrow> bytes \<Rightarrow> keccak_context" where
  "sph_keccak384 cc data = keccak_core cc data 104"

definition sph_keccak384_addbits_and_close :: "keccak_context \<Rightarrow> nat \<Rightarrow> nat \<Rightarrow> bytes \<Rightarrow> bytes \<times> keccak_context" where
  "sph_keccak384_addbits_and_close cc ub n tmp = keccak_close 48 104 cc ub n tmp"

definition sph_keccak384_close :: "keccak_context \<Rightarrow> bytes \<Rightarrow> bytes \<times> keccak_context" where
  "sph_keccak384_close cc tmp = sph_keccak384_addbits_and_close cc 0 0 tmp"

definition sph_keccak512_init :: "keccak_context \<Rightarrow> keccak_context" where
  "sph_keccak512_init cc = keccak_init cc 512"

definition sph_keccak512 :: "keccak_context \<Rightarrow> bytes \<Rightarrow> keccak_context" where
  "sph_keccak512 cc data = keccak_core cc data 72"

definition sph_keccak512_addbits_and_close :: "keccak_context \<Rightarrow> nat \<Rightarrow> nat \<Rightarrow> bytes \<Rightarrow> bytes \<times> keccak_context" where
  "sph_keccak512_addbits_and_close cc ub n tmp = keccak_close 64 72 cc ub n tmp"

definition sph_keccak512_close :: "keccak_context \<Rightarrow> bytes \<Rightarrow> bytes \<times> keccak_context" where
  "sph_keccak512_close cc tmp = sph_keccak512_addbits_and_close cc 0 0 tmp"

section \<open>Keccak-f[1600] as specified\<close>

definition lane :: "u64 list \<Rightarrow> nat \<Rightarrow> nat \<Rightarrow> u64" where
  "lane A x y = A ! (x mod 5 + 5 * (y mod 5))"

definition state_of :: "(nat \<Rightarrow> nat \<Rightarrow> u64) \<Rightarrow> u64 list" where
  "state_of f = map (\<lambda>i. f (i mod 5) (i div 5)) [0..<25]"

definition kk_theta :: "u64 list \<Rightarrow> u64 list" where
  "kk_theta A =
     (let C = (\<lambda>x. lane A x 0 XOR lane A x 1 XOR lane A x 2 XOR lane A x 3 XOR lane A x 4);
          D = (\<lambda>x. C (x + 4) XOR word_rotl 1 (C (x + 1)))
      in state_of (\<lambda>x y. lane A x y XOR D x))"

definition rho_walk :: "nat \<Rightarrow> nat \<times> nat" where
  "rho_walk t = ((\<lambda>(x, y). (y, (2 * x + 3 * y) mod 5)) ^^ t) (1, 0)"

definition rho_offset :: "nat \<Rightarrow> nat \<Rightarrow> nat" where
  "rho_offset x y =
     (case filter (\<lambda>t. rho_walk t = (x, y)) [0..<24] of t # _ \<Rightarrow> ((t + 1) * (t + 2) div 2) mod 64 | [] \<Rightarrow> 0)"

definition kk_rho :: "u64 list \<Rightarrow> u64 list" where
  "kk_rho A = state_of (\<lambda>x y. word_rotl (rho_offset x y) (lane A x y))"

definition kk_pi :: "u64 list \<Rightarrow> u64 list" where
  "kk_pi A = state_of (\<lambda>x y. lane A (x + 3 * y) x)"

definition kk_chi :: "u64 list \<Rightarrow> u64 list" where
  "kk_chi A = state_of (\<lambda>x y. lane A x y XOR (NOT (lane A (x + 1) y) AND lane A (x + 2) y))"

fun rc_lfsr :: "nat \<Rightarrow> bool list" where
  "rc_lfsr 0 = [True, False, False, False, False, False, False, False]"
| "rc_lfsr (Suc t) =
     (let R = rc_lfsr t; r8 = R ! 7
      in [r8, R ! 0, R ! 1, R ! 2, R ! 3 \<noteq> r8, R ! 4 \<noteq> r8, R ! 5 \<noteq> r8, R ! 6])"

definition round_constant :: "nat \<Rightarrow> u64" where
  "round_constant ir = foldl (\<lambda>w j. if rc_lfsr (j + 7 * ir) ! 0 then w OR push_bit (2 ^ j - 1) 1 else w) 0 [0..<7]"

definition kk_iota :: "nat \<Rightarrow> u64 list \<Rightarrow> u64 list" where
  "kk_iota ir A = A[0 := A ! 0 XOR round_constant ir]"

definition keccak_f :: "u64 list \<Rightarrow> u64 list" where
  "keccak_f A = foldl (\<lambda>A ir. kk_iota ir (kk_chi (kk_pi (kk_rho (kk_theta A))))) A [0..<24]"

lemma keccak_RC_spec: "keccak_RC = map round_constant [0..<24]"
  by code_simp

lemma rho_offsets: "map (\<lambda>i. rho_offset (i mod 5) (i div 5)) [0..<25] =
  [0, 1, 62, 28, 27, 36, 44, 6, 55, 20, 3, 10, 43, 25, 39, 41, 45, 15, 21, 8, 18, 2, 61, 56, 14]"
  by code_simp

lemma upt_25: "[0..<25] = [0, 1, 2, 3, 4, 5, 6, 7, 8, 9, 10, 11, 12, 13, 14, 15, 16, 17, 18, 19, 20, 21, 22, 23, 24]"
  by code_simp

section \<open>Rounds\<close>

text \<open>The lanes in the order of the macro arguments, and the complemented lanes before a round and
  after its first half.\<close>

abbreviation macro_order :: "'a list \<Rightarrow> 'a list" where
  "macro_order \<equiv> gather (keccak_P ! 0)"

definition complement :: "nat list \<Rightarrow> u64 list \<Rightarrow> u64 list" where
  "complement M A = map (\<lambda>i. if i \<in> set M then NOT (A ! i) else A ! i) [0..<25]"

definition at_rest :: "nat list" where
  "at_rest = [1, 2, 8, 12, 17, 20]"

definition half_way :: "nat list" where
  "half_way = [0, 1, 2, 3, 5, 10, 12, 13, 15, 17, 18, 23]"

lemma keccak_P_0: "keccak_P ! 0 = [0, 5, 10, 15, 20, 1, 6, 11, 16, 21, 2, 7, 12, 17, 22, 3, 8, 13, 18, 23, 4, 9, 14, 19, 24]"
  by (simp add: keccak_P_def lanes_def)

lemma word_rotl_not: "word_rotl n (NOT x) = NOT (word_rotl n x)"
  for x :: "'a :: len word"
  by (rule bit_word_eqI) (simp add: bit_simps)

lemma word_rotl_none: "word_rotl 0 x = x"
  for x :: "'a :: len word"
  by (rule bit_word_eqI) (simp add: bit_simps)

lemma TH_ELT_xor:
  "TH_ELT c0 c1 c2 c3 c4 d0 d1 d2 d3 d4 = (c0 XOR c1 XOR c2 XOR c3 XOR c4) XOR word_rotl 1 (d0 XOR d1 XOR d2 XOR d3 XOR d4)"
  by (simp add: TH_ELT_def Let_def SPH_ROTL_rotl [unfolded One_nat_def] xor.assoc xor.left_commute xor.commute)

lemmas spec_lanes = state_of_def lane_def upt_25 gather_def keccak_P_0

lemma THETA_spec:
  assumes "length A = 25"
  shows "THETA (macro_order (complement at_rest A)) = macro_order (complement half_way (kk_theta A))"
  using assms
  by (rule list25_cases)
     (simp add: THETA_def kk_theta_def spec_lanes complement_def at_rest_def half_way_def Let_def TH_ELT_xor word_rotl_not
       bit.xor_compl_left bit.xor_compl_right xor.assoc)

lemma RHO_spec:
  assumes "length A = 25"
  shows "RHO (macro_order (complement half_way A)) = macro_order (complement half_way (kk_rho A))"
  using assms
  by (rule list25_cases)
     (use rho_offsets in \<open>simp add: RHO_def kk_rho_def spec_lanes complement_def half_way_def Let_def word_rotl_not word_rotl_none SPH_ROTL_rotl [unfolded One_nat_def]\<close>)

text \<open>The step \<open>\<pi>\<close> happens in the order of the arguments of the next macro.\<close>

definition pi_order :: "nat list" where
  "pi_order = [0, 15, 5, 20, 10, 6, 21, 11, 1, 16, 12, 2, 17, 7, 22, 18, 8, 23, 13, 3, 24, 14, 4, 19, 9]"

lemma chi_bits:
  fixes a b c :: u64
  shows "a XOR (b OR NOT c) = NOT (a XOR (NOT b AND c))" "a XOR (NOT b OR c) = NOT (a XOR (b AND NOT c))"
    "a XOR (NOT b OR NOT c) = NOT (a XOR (b AND c))"
  by (auto intro!: bit_word_eqI simp: bit_simps)

lemma gather_pi: "length A = 25 \<Longrightarrow> gather pi_order (macro_order (complement half_way A)) =
   [NOT (A ! 0), NOT (A ! 3), NOT (A ! 1), A ! 4, NOT (A ! 2), A ! 6, A ! 9, A ! 7, NOT (A ! 5), A ! 8,
    NOT (A ! 12), NOT (A ! 10), NOT (A ! 13), A ! 11, A ! 14, NOT (A ! 18), A ! 16, A ! 19, NOT (A ! 17), NOT (A ! 15),
    A ! 24, A ! 22, A ! 20, NOT (A ! 23), A ! 21]"
  by (simp add: spec_lanes pi_order_def complement_def half_way_def)

lemma KHI_spec:
  assumes "length A = 25"
  shows "KHI (gather pi_order (macro_order (complement half_way A))) = macro_order (complement at_rest (kk_chi (kk_pi A)))"
  unfolding gather_pi [OF assms]
  by (simp add: KHI_def KHI_XO_def KHI_XA_def Let_def kk_chi_def kk_pi_def spec_lanes complement_def at_rest_def
      bit.xor_compl_left bit.xor_compl_right chi_bits and.commute or.commute)

text \<open>Macros applied to the lanes of a permutation.\<close>

lemma length_scatter [simp]: "length (scatter p v s) = length s"
  unfolding scatter_def by (induction p v arbitrary: s rule: list_induct2') auto

lemma length_gather [simp]: "length (gather p s) = length p"
  by (simp add: gather_def)

lemma scatter_Cons: "scatter (i # p) (x # v) s = scatter p v (s[i := x])"
  by (simp add: scatter_def)

lemma scatter_other: "i \<notin> set p \<Longrightarrow> scatter p v s ! i = s ! i"
proof (induction p v arbitrary: s rule: list_induct2')
  case (4 j p x v)
  then show ?case by (simp add: scatter_Cons)
qed (simp_all add: scatter_def)

lemma gather_scatter:
  assumes "distinct p" and "length v = length p" and "\<And>i. i \<in> set p \<Longrightarrow> i < length s"
  shows "gather p (scatter p v s) = v"
  using assms
proof (induction p v arbitrary: s rule: list_induct2')
  case (4 i p x v)
  have "gather p (scatter p v (s[i := x])) = v" using 4 by simp
  then show ?case using 4(2,4) by (simp add: scatter_Cons gather_def scatter_other)
qed (simp_all add: gather_def)

lemma gather_gather: "(\<And>i. i \<in> set q \<Longrightarrow> i < length p) \<Longrightarrow> gather q (gather p s) = gather (gather q p) s"
  by (simp add: gather_def)

definition lane_order :: "nat list \<Rightarrow> bool" where
  "lane_order p \<longleftrightarrow> length p = 25 \<and> distinct p \<and> (\<forall>i \<in> set p. i < 25) \<and> p ! 0 = 0"

lemma gather_through:
  assumes "lane_order p" and "length s = 25" and "length (f (gather p s)) = 25"
  shows "gather p (through p f s) = f (gather p s)"
  using assms by (simp add: through_def lane_order_def gather_scatter)

lemma length_through [simp]: "length (through p f s) = length s"
  by (simp add: through_def)

lemma gather_update_0:
  assumes "lane_order p" and "length s = 25"
  shows "gather p (s[0 := x]) = (gather p s)[0 := x]"
proof (rule nth_equalityI)
  show "gather p (s[0 := x]) ! i = (gather p s)[0 := x] ! i" if "i < length (gather p (s[0 := x]))" for i
    using assms that nth_eq_iff_index_eq [of p i 0]
    by (cases "i = 0") (auto simp: lane_order_def gather_def nth_list_update)
qed simp

lemma keccak_P_orders: "list_all lane_order keccak_P" "map (gather pi_order) keccak_P = tl keccak_P @ [hd keccak_P]"
  by code_simp+

lemma lane_orders:
  assumes "r < 24"
  shows "lane_order (keccak_P ! r)" "keccak_P ! ((r + 1) mod 24) = gather pi_order (keccak_P ! r)"
proof -
  have len: "length keccak_P = 24" by (simp add: keccak_P_def)
  show "lane_order (keccak_P ! r)" using keccak_P_orders(1) assms by (simp add: list_all_length len)
  have "gather pi_order (keccak_P ! r) = map (gather pi_order) keccak_P ! r" using assms by (simp add: len)
  also have "\<dots> = (tl keccak_P @ [hd keccak_P]) ! r" by (simp only: keccak_P_orders(2))
  also have "\<dots> = keccak_P ! ((r + 1) mod 24)"
    using assms len by (cases "r = 23") (auto simp: nth_append nth_tl hd_conv_nth simp flip: length_greater_0_conv)
  finally show "keccak_P ! ((r + 1) mod 24) = gather pi_order (keccak_P ! r)" by simp
qed

lemma length_macro_order [simp]: "length (keccak_P ! 0) = 25"
  by (simp add: keccak_P_0)

lemma pi_order_less: "i \<in> set pi_order \<Longrightarrow> i < 25"
  by (auto simp: pi_order_def)

lemma length_steps [simp]: "length (THETA b) = 25" "length (RHO b) = 25" "length (KHI b) = 25"
  by (simp_all add: THETA_def RHO_def KHI_def Let_def)

definition kk_round :: "u64 \<Rightarrow> u64 list \<Rightarrow> u64 list" where
  "kk_round k A = (let A = kk_chi (kk_pi (kk_rho (kk_theta A))) in A[0 := A ! 0 XOR k])"

lemma length_spec_steps [simp]:
  "length (kk_theta A) = 25" "length (kk_rho A) = 25" "length (kk_pi A) = 25" "length (kk_chi A) = 25"
  "length (kk_round k A) = 25" "length (complement M A) = 25"
  by (simp_all add: kk_theta_def kk_rho_def kk_pi_def kk_chi_def kk_round_def state_of_def Let_def complement_def)

text \<open>The lanes stand for a state \<open>A\<close> of the specification, \<open>r\<close> rounds after they were in place.\<close>

definition stands_for :: "nat \<Rightarrow> u64 list \<Rightarrow> u64 list \<Rightarrow> bool" where
  "stands_for r A s \<longleftrightarrow> length s = 25 \<and> length A = 25 \<and> gather (keccak_P ! r) s = macro_order (complement at_rest A)"

lemma complement_iota:
  assumes "length A = 25"
  shows "(macro_order (complement at_rest A))[0 := macro_order (complement at_rest A) ! 0 XOR k] =
    macro_order (complement at_rest (A[0 := A ! 0 XOR k]))"
  using assms by (rule list25_cases) (simp add: spec_lanes complement_def at_rest_def)

lemma KF_ELT_stands_for:
  assumes "r < 24" and "stands_for r A s"
  shows "stands_for ((r + 1) mod 24) (kk_round k A) (KF_ELT r ((r + 1) mod 24) k s)"
proof -
  let ?p = "keccak_P ! r" and ?q = "keccak_P ! ((r + 1) mod 24)"
  have p: "lane_order ?p" "lane_order ?q" "?q = gather pi_order ?p"
    using lane_orders [OF assms(1)] lane_orders(1) [of "(r + 1) mod 24"] by simp_all
  have s: "length s = 25" "length A = 25" "gather ?p s = macro_order (complement at_rest A)"
    using assms(2) by (simp_all add: stands_for_def)
  define t where "t = through ?p RHO (through ?p THETA s)"
  have "gather ?p (through ?p THETA s) = macro_order (complement half_way (kk_theta A))"
    using gather_through [OF p(1) s(1), of THETA] THETA_spec [OF s(2)] by (simp add: s(3))
  then have t: "length t = 25" "gather ?p t = macro_order (complement half_way (kk_rho (kk_theta A)))"
    using s(1) gather_through [OF p(1), of "through ?p THETA s" RHO] RHO_spec [of "kk_theta A"] by (simp_all add: t_def)
  have "gather ?q t = gather pi_order (gather ?p t)"
    using pi_order_less p(1) by (subst p(3), subst gather_gather) (auto simp: lane_order_def)
  then have "gather ?q (through ?q KHI t) = macro_order (complement at_rest (kk_chi (kk_pi (kk_rho (kk_theta A)))))"
    using p(2) t KHI_spec [of "kk_rho (kk_theta A)"] by (simp add: gather_through)
  moreover have "through ?q KHI t ! 0 = gather ?q (through ?q KHI t) ! 0"
    using p(2) by (simp add: gather_def lane_order_def)
  ultimately have "gather ?q (IOTA k (through ?q KHI t)) = macro_order (complement at_rest (kk_round k A))"
    using p(2) t(1) by (simp add: IOTA_def gather_update_0 complement_iota kk_round_def Let_def)
  then show ?thesis
    using t(1) by (simp add: stands_for_def KF_ELT_def Let_def t_def [symmetric] IOTA_def)
qed

lemma lanes_back:
  assumes "length s = 25"
  shows "macro_order (P1_TO_P0 s) = gather (keccak_P ! 1) s" "macro_order (P2_TO_P0 s) = gather (keccak_P ! 2) s"
    "macro_order (P4_TO_P0 s) = gather (keccak_P ! 4) s" "macro_order (P6_TO_P0 s) = gather (keccak_P ! 6) s"
    "macro_order (P8_TO_P0 s) = gather (keccak_P ! 8) s" "macro_order (P12_TO_P0 s) = gather (keccak_P ! 12) s"
    "length (P1_TO_P0 s) = 25" "length (P2_TO_P0 s) = 25" "length (P4_TO_P0 s) = 25" "length (P6_TO_P0 s) = 25"
    "length (P8_TO_P0 s) = 25" "length (P12_TO_P0 s) = 25"
  using assms
  by (rule list25_cases; simp add: P1_TO_P0_def P2_TO_P0_def P4_TO_P0_def P6_TO_P0_def P8_TO_P0_def P12_TO_P0_def
      move_cycle_def lanes_def keccak_P_def gather_def Let_def)+

lemma KF_ELTs_stand_for:
  assumes "stands_for 0 A s" and "u \<le> 24"
  shows "stands_for (u mod 24) (foldl (\<lambda>A i. kk_round (c i) A) A [0..<u])
    (foldl (\<lambda>a i. KF_ELT i ((i + 1) mod 24) (c i) a) s [0..<u])"
  using assms(2)
proof (induction u)
  case (Suc u)
  then show ?case using KF_ELT_stands_for [of u] by simp
qed (simp add: assms(1))

lemma keccak_loop_stands_for:
  assumes "stands_for 0 A s" and "u < 24"
    and home: "\<And>s. length s = 25 \<Longrightarrow> macro_order (to_P0 s) = gather (keccak_P ! u) s \<and> length (to_P0 s) = 25"
  shows "stands_for 0
    (foldl (\<lambda>A k. kk_round (keccak_RC ! k) A) A (concat (map (\<lambda>j. map ((+) (j * u)) [0..<u]) [0..<24 div u])))
    (keccak_loop u to_P0 s)"
proof -
  have "stands_for 0 (foldl (\<lambda>A k. kk_round (keccak_RC ! k) A) A (concat (map (\<lambda>j. map ((+) j) [0..<u]) js)))
      (foldl (\<lambda>a j. to_P0 (foldl (\<lambda>a i. KF_ELT i (i + 1) (keccak_RC ! (j + i)) a) a [0..<u])) s js)" for js
    using assms(1)
  proof (induction js arbitrary: A s)
    case (Cons j js)
    let ?a = "foldl (\<lambda>a i. KF_ELT i (i + 1) (keccak_RC ! (j + i)) a) s [0..<u]"
    have "stands_for u (foldl (\<lambda>A i. kk_round (keccak_RC ! (j + i)) A) A [0..<u]) ?a"
    proof -
      have "?a = foldl (\<lambda>a i. KF_ELT i ((i + 1) mod 24) (keccak_RC ! (j + i)) a) s [0..<u]"
        using assms(2) by (intro foldl_cong) auto
      then show ?thesis using KF_ELTs_stand_for [OF Cons.prems, of u "\<lambda>i. keccak_RC ! (j + i)"] assms(2) by simp
    qed
    then have "stands_for 0 (foldl (\<lambda>A i. kk_round (keccak_RC ! (j + i)) A) A [0..<u]) (to_P0 ?a)"
      using home [of ?a] by (simp add: stands_for_def)
    from Cons.IH [OF this] show ?case by (simp add: foldl_map)
  qed simp
  from this [of "map (\<lambda>i. i * u) [0..<24 div u]"] show ?thesis
    by (simp add: keccak_loop_def comp_def)
qed

lemma keccak_f_rounds: "keccak_f A = foldl (\<lambda>A k. kk_round (keccak_RC ! k) A) A [0..<24]"
proof -
  have "foldl (\<lambda>A k. kk_round (keccak_RC ! k) A) A ks =
      foldl (\<lambda>A ir. kk_iota ir (kk_chi (kk_pi (kk_rho (kk_theta A))))) A ks" if "set ks \<subseteq> {..<24}" for A ks
    using that by (induction ks arbitrary: A) (auto simp: keccak_RC_spec kk_round_def kk_iota_def Let_def simp del: upt_Suc)
  from this [of "[0..<24]"] show ?thesis by (simp add: keccak_f_def atLeast_upt del: upt_Suc)
qed

lemma unrolled_order: "concat (map (\<lambda>j. map ((+) (j * u)) [0..<u]) [0..<24 div u]) = [0..<24]"
  if "u \<in> {1, 2, 4, 6, 8, 12}"
  using that by (elim insertE emptyE) (simp_all, code_simp+)

lemma stands_for_0: "length A = 25 \<Longrightarrow> stands_for 0 A s \<longleftrightarrow> s = complement at_rest A"
proof
  assume A: "length A = 25" and "stands_for 0 A s"
  then have "length s = 25" "macro_order s = macro_order (complement at_rest A)" by (simp_all add: stands_for_def)
  then show "s = complement at_rest A"
    using length_spec_steps(6) [of at_rest A]
    by (elim list25_cases) (simp add: gather_def keccak_P_0)
qed (simp add: stands_for_def)

lemma KECCAK_F_1600_unrolled_spec:
  assumes "length A = 25" and "u \<in> {0, 1, 2, 4, 6, 8, 12}"
  shows "KECCAK_F_1600_unrolled u (complement at_rest A) = Some (complement at_rest (keccak_f A))"
proof -
  have A: "stands_for 0 A (complement at_rest A)" by (simp add: stands_for_0 assms(1))
  have loop: "keccak_loop u f (complement at_rest A) = complement at_rest (keccak_f A)"
    if "u \<in> {1, 2, 4, 6, 8, 12}" "\<And>s. length s = 25 \<Longrightarrow> macro_order (f s) = gather (keccak_P ! u) s \<and> length (f s) = 25" for f u
  proof -
    have "stands_for 0 (keccak_f A) (keccak_loop u f (complement at_rest A))"
      using keccak_loop_stands_for [OF A _ that(2)] that(1) unrolled_order [OF that(1)] by (auto simp: keccak_f_rounds)
    then show ?thesis using stands_for_0 by (auto simp: stands_for_def)
  qed
  have "stands_for 0 (keccak_f A) (foldl (\<lambda>a i. KF_ELT i ((i + 1) mod 24) (keccak_RC ! i) a) (complement at_rest A) [0..<24])"
    using KF_ELTs_stand_for [OF A, of 24 "(!) keccak_RC"] by (simp add: keccak_f_rounds del: upt_Suc)
  then have all: "foldl (\<lambda>a i. KF_ELT i ((i + 1) mod 24) (keccak_RC ! i) a) (complement at_rest A) [0..<24] =
      complement at_rest (keccak_f A)"
    using stands_for_0 by (auto simp: stands_for_def)
  show ?thesis
    using assms(2) loop [of 1 P1_TO_P0] loop [of 2 P2_TO_P0] loop [of 4 P4_TO_P0] loop [of 6 P6_TO_P0]
      loop [of 8 P8_TO_P0] loop [of 12 P12_TO_P0] all lanes_back
    by (elim insertE emptyE) (simp_all add: KECCAK_F_1600_unrolled_def del: upt_Suc)
qed

section \<open>The sponge\<close>

definition kk_input :: "nat \<Rightarrow> bytes \<Rightarrow> u64 list \<Rightarrow> u64 list" where
  "kk_input r b A = map (\<lambda>i. if i < r div 8 then A ! i XOR le_dec (take 8 (drop (8 * i) b)) else A ! i) [0..<25]"

definition kk_step :: "nat \<Rightarrow> u64 list \<Rightarrow> bytes \<Rightarrow> u64 list" where
  "kk_step r A b = keccak_f (kk_input r b A)"

definition kk_pad :: "nat \<Rightarrow> nat \<Rightarrow> bytes" where
  "kk_pad r q = (if q = 1 then [0x81] else 0x01 # replicate (q - 2) 0 @ [0x80])"

definition keccak_sponge :: "nat \<Rightarrow> nat \<Rightarrow> bytes \<Rightarrow> bytes" where
  "keccak_sponge r d m = take d (concat (map (le_enc 8) (fst (absorb_blocks r (kk_step r) (replicate 25 0) m))))"

definition keccak_spec :: "nat \<Rightarrow> nat \<Rightarrow> bytes \<Rightarrow> bytes" where
  "keccak_spec r d m = keccak_sponge r d (m @ kk_pad r (r - length m mod r))"

lemma length_kk_input [simp]: "length (kk_input r b A) = 25"
  by (simp add: kk_input_def)

lemma length_keccak_f [simp]: "length A = 25 \<Longrightarrow> length (keccak_f A) = 25"
proof -
  have "length A = 25 \<Longrightarrow> length (foldl (\<lambda>A k. kk_round (c k) A) A ks) = 25" for A c ks
    by (induction ks arbitrary: A) simp_all
  then show "length A = 25 \<Longrightarrow> length (keccak_f A) = 25" by (simp add: keccak_f_rounds del: upt_Suc)
qed

lemma length_kk_step [simp]: "length (kk_step r A b) = 25"
  by (simp add: kk_step_def)

lemma INPUT_BUF_spec:
  assumes "length a = 25" and "lim = 8 * k" and "k \<le> 25" and "lim \<le> length b"
  shows "INPUT_BUF lim b a = kk_input lim b a"
proof -
  have "INPUT_BUF lim b a = foldl (\<lambda>w i. w[i := w ! i XOR sph_dec64le_aligned host (drop (8 * i) b)]) a [0..<k]"
    by (simp add: INPUT_BUF_def foldl_map assms(2))
  also have "\<dots> = map (\<lambda>i. if i < k then a ! i XOR sph_dec64le_aligned host (drop (8 * i) b) else a ! i) [0..<25]"
    using foldl_list_update [of k a "\<lambda>i x. x XOR sph_dec64le_aligned host (drop (8 * i) b)"] assms(1,3) by simp
  also have "\<dots> = kk_input lim b a"
    unfolding kk_input_def using assms(2,4) by (intro map_cong refl if_cong) (auto simp: sph_decoders)
  finally show ?thesis .
qed

lemma INPUT_BUF_copied_spec:
  assumes "length a = 25" and "lim \<in> {72, 104, 136, 144}" and "lim \<le> length b"
  shows "INPUT_BUF_copied lim b a = kk_input lim b a"
proof -
  have "sph_dec64le_aligned host (drop off b) = le_dec (take 8 (drop off b))" if "off + 8 \<le> lim" for off
    using that assms(3) by (simp add: sph_decoders)
  from this [of 0] this show ?thesis
    using assms(1,2)
    by (elim list25_cases insertE emptyE)
      (simp_all add: INPUT_BUF_copied_def input_words_def kk_input_def upt_25 Let_def)
qed

lemma kk_input_complement: "kk_input r b (complement at_rest A) = complement at_rest (kk_input r b A)"
  by (simp add: kk_input_def complement_def bit.xor_compl_left del: upt_Suc cong: map_cong)

lemma complement_complement [simp]: "length A = 25 \<Longrightarrow> complement M (complement M A) = A"
  by (intro nth_equalityI) (simp_all add: complement_def del: upt_Suc)

lemma KECCAK_F_1600_spec: "length A = 25 \<Longrightarrow> KECCAK_F_1600 (complement at_rest A) = complement at_rest (keccak_f A)"
  using KECCAK_F_1600_unrolled_spec [of A 8] by (simp add: KECCAK_F_1600_def SPH_KECCAK_UNROLL_def)

lemma keccak_block_spec:
  assumes "lim \<in> {72, 104, 136, 144}" and "length b = lim"
  shows "keccak_block lim b (complement at_rest A) = complement at_rest (kk_step lim A b)"
proof -
  have "lim = 8 * (lim div 8) \<and> lim div 8 \<le> 25" using assms(1) by auto
  then have "INPUT_BUF lim b (complement at_rest A) = kk_input lim b (complement at_rest A)"
    using INPUT_BUF_spec [of "complement at_rest A" lim "lim div 8" b] assms(2) by simp
  then show ?thesis by (simp add: keccak_block_def kk_input_complement KECCAK_F_1600_spec kk_step_def)
qed

section \<open>Closing\<close>

text \<open>The bytes the closing routine appends. The seventh extra bit is the only one it looks at.\<close>

definition close_pad :: "nat \<Rightarrow> nat \<Rightarrow> nat \<Rightarrow> bytes" where
  "close_pad r n t =
     (if t = r - 1 \<and> n = 7 then 0x01 # replicate (r - 1) 0 @ [0x80] else kk_pad r (r - t))"

lemma set_ends:
  assumes "length tmp = Suc (Suc k) + l"
  shows "take (Suc (Suc k)) ((memcpy_at (tmp[0 := e]) 1 (replicate k 0))[Suc k := z]) = e # replicate k 0 @ [z]"
proof -
  obtain x xs where tmp: "tmp = x # xs" "length xs = Suc k + l" using assms by (cases tmp) auto
  then obtain y ys where d: "drop k xs = y # ys" by (cases "drop k xs") auto
  have "memcpy_at (tmp[0 := e]) 1 (replicate k 0) = e # replicate k 0 @ y # ys"
    by (simp add: memcpy_at_def tmp(1) d)
  then show ?thesis by (simp add: list_update_append)
qed

lemma keccak_padding_bytes:
  assumes "2 \<le> lim" and "sc_ptr kc < lim" and "length tmp = lim + 1"
    and "keccak_padding lim kc n tmp = (tmp', j)"
  shows "take j tmp' = close_pad lim n (sc_ptr kc)" and "length tmp' = lim + 1"
proof -
  have ends: "take j ((memcpy_at (tmp[0 := e]) 1 (replicate (j - 2) 0))[j - 1 := z]) = e # replicate (j - 2) 0 @ [z]"
    if j: "2 \<le> j" "j \<le> lim + 1" for e z j
  proof -
    obtain k where "j = Suc (Suc k)" using j(1) by (metis Suc_le_D numeral_2_eq_2 Suc_le_mono)
    then show ?thesis using set_ends [of tmp k "lim + 1 - j" e z] j assms(3) by simp
  qed
  have head: "take 1 (tmp[0 := e]) = [e]" for e using assms(3) by (cases tmp) simp_all
  have pads: "lim - sc_ptr kc = 1 \<longleftrightarrow> sc_ptr kc = lim - 1" using assms(1,2) by auto
  consider "sc_ptr kc = lim - 1" "n = 7" | "sc_ptr kc = lim - 1" "n \<noteq> 7" | "sc_ptr kc \<noteq> lim - 1" by blast
  then have "take j tmp' = close_pad lim n (sc_ptr kc) \<and> length tmp' = lim + 1"
  proof cases
    case 1
    then show ?thesis
      using assms set_ends [of tmp "lim - 1" 0 1 "0x80"] by (auto simp: keccak_padding_def close_pad_def hard_coded_eb_def Let_def)
  next
    case 2
    then show ?thesis
      using assms pads head [of "0x81"] by (auto simp: keccak_padding_def close_pad_def kk_pad_def hard_coded_eb_def)
  next
    case 3
    then show ?thesis
      using assms pads ends [of "lim - sc_ptr kc" 1 "0x80"]
      by (auto simp: keccak_padding_def close_pad_def kk_pad_def hard_coded_eb_def Let_def)
  qed
  then show "take j tmp' = close_pad lim n (sc_ptr kc)" and "length tmp' = lim + 1" by simp_all
qed

text \<open>The digest in terms of the view.\<close>

definition close_state :: "nat \<Rightarrow> nat \<Rightarrow> u64 list \<times> bytes \<Rightarrow> u64 list" where
  "close_state lim n v =
     (let w = fst (sph_absorb lim (keccak_block lim) v (close_pad lim n (length (snd v))));
          w = w[1 := NOT (w ! 1)]; w = w[2 := NOT (w ! 2)]; w = w[8 := NOT (w ! 8)]; w = w[12 := NOT (w ! 12)];
          w = w[17 := NOT (w ! 17)]
      in w[20 := NOT (w ! 20)])"

lemma keccak_close_view:
  assumes "sph_inv 144 lim kc" and "2 \<le> lim" and "length tmp = lim + 1" and "8 * ((d + 7) div 8) \<le> lim"
  shows "fst (keccak_close d lim kc ub n tmp) = take d (concat (map (\<lambda>i. le_enc 8 (close_state lim n (sph_view kc) ! i)) [0..<(d + 7) div 8]))"
    and "sc_state (snd (keccak_close d lim kc ub n tmp)) = close_state lim n (sph_view kc)"
    and "sc_ptr (snd (keccak_close d lim kc ub n tmp)) = 0"
proof -
  obtain tmp' j where pad: "keccak_padding lim kc n tmp = (tmp', j)" by fastforce
  have ptr: "sc_ptr kc < lim" "length (snd (sph_view kc)) = sc_ptr kc" using assms(1) by (auto simp: sph_inv_def sph_view_def)
  note p = keccak_padding_bytes [OF assms(2) ptr(1) assms(3) pad]
  have state: "sc_state (keccak_core kc (take j tmp') lim) = fst (sph_absorb lim (keccak_block lim) (sph_view kc) (close_pad lim n (sc_ptr kc)))"
    using sph_core_view(2) [OF assms(1), of "keccak_block lim" "take j tmp'"] p(1)
    by (simp add: keccak_core_def sph_view_def split: prod.splits) (metis fst_conv)
  let ?w = "close_state lim n (sph_view kc)"
  have close: "keccak_close d lim kc ub n tmp =
      (take d (foldl (\<lambda>tmp i. memcpy_at tmp (8 * i) (le_enc 8 (?w ! i))) tmp' [0..<(d + 7) div 8]),
       (keccak_core kc (take j tmp') lim)\<lparr>sc_state := ?w\<rparr>)"
    by (simp add: keccak_close_def pad state close_state_def ptr(2) Let_def foldl_map sph_encoders)
  show "sc_state (snd (keccak_close d lim kc ub n tmp)) = ?w" by (simp add: close)
  have "sc_ptr kc + length (close_pad lim n (sc_ptr kc)) \<in> {lim, 2 * lim}"
    using assms(2) ptr(1) by (cases "sc_ptr kc = lim - 1 \<and> n = 7") (auto simp: close_pad_def kk_pad_def)
  then have "(sc_ptr kc + length (close_pad lim n (sc_ptr kc))) mod lim = 0" by auto
  then have "snd (sph_view (keccak_core kc (take j tmp') lim)) = []"
    using sph_core_view(2) [OF assms(1), of "keccak_block lim" "take j tmp'"] p(1) assms(2) ptr(2)
      absorb_blocks_tail [of lim "\<lambda>s x. keccak_block lim x s" "fst (sph_view kc)" "snd (sph_view kc) @ take j tmp'"]
    by (simp add: keccak_core_def sph_absorb_def)
  moreover have "sph_inv 144 lim (keccak_core kc (take j tmp') lim)"
    using sph_core_view(1) [OF assms(1)] by (simp add: keccak_core_def)
  ultimately show "sc_ptr (snd (keccak_close d lim kc ub n tmp)) = 0"
    using assms(2) by (auto simp: close sph_view_def sph_inv_def)
  have "take d (concat (map (\<lambda>i. le_enc 8 (?w ! i)) [0..<(d + 7) div 8]) @ drop (8 * ((d + 7) div 8)) tmp') =
      take d (concat (map (\<lambda>i. le_enc 8 (?w ! i)) [0..<(d + 7) div 8]))"
  proof -
    have "length (concat (map (\<lambda>i. le_enc 8 (?w ! i)) [0..<k])) = 8 * k" for k by (induction k) simp_all
    then show ?thesis by simp
  qed
  then show "fst (keccak_close d lim kc ub n tmp) = take d (concat (map (\<lambda>i. le_enc 8 (?w ! i)) [0..<(d + 7) div 8]))"
    using foldl_memcpy_at [of "(d + 7) div 8" "\<lambda>i. le_enc 8 (?w ! i)" 8 tmp'] assms(4) p(2)
    by (simp add: close)
qed

lemma keccak_sph_hash:
  assumes "2 \<le> lim" and "length tmp = lim + 1" and "8 * ((d + 7) div 8) \<le> lim"
  shows "sph_hash 144 lim (\<lambda>kc :: keccak_context. fst (keccak_close d lim kc ub n tmp))"
  using assms by unfold_locales (simp_all add: keccak_close_view)

lemma uncomplement:
  assumes "length w = 25"
  shows "(let w = w[1 := NOT (w ! 1)]; w = w[2 := NOT (w ! 2)]; w = w[8 := NOT (w ! 8)]; w = w[12 := NOT (w ! 12)];
      w = w[17 := NOT (w ! 17)] in w[20 := NOT (w ! 20)]) = complement at_rest w"
  using assms by (rule list25_cases) (simp add: complement_def at_rest_def upt_25 Let_def)

lemma keccak_init_lanes:
  "sc_state (keccak_init kc d) = complement at_rest (replicate 25 0)"
proof -
  have "(0xFFFFFFFFFFFFFFFF :: u64) = NOT 0" by simp
  moreover have "replicate 25 (0 :: u64) = [0, 0, 0, 0, 0, 0, 0, 0, 0, 0, 0, 0, 0, 0, 0, 0, 0, 0, 0, 0, 0, 0, 0, 0, 0]" by code_simp
  ultimately show ?thesis by (simp only: keccak_init_def Let_def) (simp add: complement_def at_rest_def upt_25)
qed

lemma take_first_words:
  assumes "d \<le> 8 * k" and "k \<le> length A"
  shows "take d (concat (map (\<lambda>i. le_enc 8 (A ! i)) [0..<k])) = take d (concat (map (le_enc 8) A))"
proof -
  have map: "map (\<lambda>i. le_enc 8 (A ! i)) [0..<k] = map (le_enc 8) (take k A)"
    using assms(2) by (intro nth_equalityI) simp_all
  have "concat (map (le_enc 8) A) = concat (map (le_enc 8) (take k A)) @ concat (map (le_enc 8) (drop k A))"
    by (metis append_take_drop_id concat_append map_append)
  moreover have "length (concat (map (le_enc 8) (xs :: 'a :: len word list))) = 8 * length xs" for xs by (induction xs) simp_all
  from this [of "take k A"] have "d \<le> length (concat (map (le_enc 8) (take k A)))" using assms by simp
  ultimately show ?thesis by (simp add: map)
qed

lemma keccak_message:
  assumes lim: "lim \<in> {72, 104, 136, 144}" and buf: "length (sc_buf cc) = 144"
    and tmp: "length tmp = lim + 1" and d: "8 * ((d + 7) div 8) \<le> lim"
    and kc_def: "kc = foldl (\<lambda>kc x. keccak_core kc x lim) (keccak_init cc od) ds"
  shows "fst (keccak_close d lim kc ub n tmp) =
      keccak_sponge lim d (concat ds @ close_pad lim n (length (concat ds) mod lim))"
    and "sph_inv 144 lim kc"
    and "sc_state (snd (keccak_close d lim kc ub n tmp)) =
      fst (absorb_blocks lim (kk_step lim) (replicate 25 0) (concat ds @ close_pad lim n (length (concat ds) mod lim)))"
proof -
  let ?z = "replicate 25 (0 :: u64)" and ?m = "concat ds" and ?f = "\<lambda>s x. keccak_block lim x s"
  let ?c = "keccak_init cc od" and ?p = "close_pad lim n (length (concat ds) mod lim)"
  have l: "2 \<le> lim" "0 < lim" using lim by auto
  have inv0: "sph_inv 144 lim ?c" using lim buf by (auto simp: sph_inv_def keccak_init_def Let_def)
  have view0: "sph_view ?c = (complement at_rest ?z, [])"
    using keccak_init_lanes [of cc od] by (simp add: sph_view_def) (simp add: keccak_init_def Let_def)
  note h = keccak_sph_hash [OF l(1) tmp d, of ub n]
  have kc: "kc = foldl (sph_core lim (keccak_block lim)) ?c ds" by (simp add: kc_def keccak_core_def)
  show inv: "sph_inv 144 lim kc"
    unfolding kc by (rule sph_inv_updates [OF inv0])
  have img: "absorb_blocks lim ?f (complement at_rest A) xs = apfst (complement at_rest) (absorb_blocks lim (kk_step lim) A xs)"
    if "length A = 25" for A xs
    using absorb_blocks_image [of "\<lambda>A. length A = 25" A lim ?f "complement at_rest" "kk_step lim" xs] that
    by (simp add: keccak_block_spec [OF lim])
  obtain A t where At: "absorb_blocks lim (kk_step lim) ?z ?m = (A, t)" by fastforce
  have A: "length A = 25" "length t = length ?m mod lim"
    using absorb_blocks_inv [of "\<lambda>A. length A = 25" ?z lim "kk_step lim" ?m] absorb_blocks_rest [OF l(2) At] At by simp_all
  have view: "sph_view kc = (complement at_rest A, t)"
    unfolding kc using sph_hash.message_view [OF h inv0 view0] img [of ?z ?m] At by simp
  let ?A = "fst (absorb_blocks lim (kk_step lim) ?z (?m @ ?p))"
  have A': "length ?A = 25"
    using absorb_blocks_inv [of "\<lambda>A. length A = 25" ?z lim "kk_step lim" "?m @ ?p"] by simp
  have "fst (sph_absorb lim (keccak_block lim) (sph_view kc) ?p) = complement at_rest ?A"
    using img [OF A(1), of "t @ ?p"] absorb_blocks_append [OF l(2) At, of ?p] by (simp add: sph_absorb_def view)
  then have cs: "close_state lim n (sph_view kc) = ?A"
    using uncomplement [of "complement at_rest ?A"] A' by (simp add: close_state_def view A(2))
  then show "sc_state (snd (keccak_close d lim kc ub n tmp)) = ?A" by (simp add: keccak_close_view [OF inv l(1) tmp d])
  from cs show "fst (keccak_close d lim kc ub n tmp) = keccak_sponge lim d (?m @ ?p)"
    using keccak_close_view(1) [OF inv l(1) tmp d] take_first_words [of d "(d + 7) div 8" ?A] A' d lim
    by (auto simp: keccak_sponge_def)
qed

interpretation keccak224: sph_hash 144 144 "keccak_block 144" "\<lambda>kc :: keccak_context. fst (keccak_close 28 144 kc ub n (replicate 145 0))" for ub n
  by (rule keccak_sph_hash) simp_all

interpretation keccak256: sph_hash 144 136 "keccak_block 136" "\<lambda>kc :: keccak_context. fst (keccak_close 32 136 kc ub n (replicate 137 0))" for ub n
  by (rule keccak_sph_hash) simp_all

interpretation keccak384: sph_hash 144 104 "keccak_block 104" "\<lambda>kc :: keccak_context. fst (keccak_close 48 104 kc ub n (replicate 105 0))" for ub n
  by (rule keccak_sph_hash) simp_all

interpretation keccak512: sph_hash 144 72 "keccak_block 72" "\<lambda>kc :: keccak_context. fst (keccak_close 64 72 kc ub n (replicate 73 0))" for ub n
  by (rule keccak_sph_hash) simp_all

lemmas keccak_entries = sph_keccak224_init_def sph_keccak224_def sph_keccak224_addbits_and_close_def sph_keccak224_close_def
  sph_keccak256_init_def sph_keccak256_def sph_keccak256_addbits_and_close_def sph_keccak256_close_def
  sph_keccak384_init_def sph_keccak384_def sph_keccak384_addbits_and_close_def sph_keccak384_close_def
  sph_keccak512_init_def sph_keccak512_def sph_keccak512_addbits_and_close_def sph_keccak512_close_def

lemma keccak_updates:
  "sph_keccak224 = (\<lambda>kc x. keccak_core kc x 144)" "sph_keccak256 = (\<lambda>kc x. keccak_core kc x 136)"
  "sph_keccak384 = (\<lambda>kc x. keccak_core kc x 104)" "sph_keccak512 = (\<lambda>kc x. keccak_core kc x 72)"
  by (simp_all add: fun_eq_iff keccak_entries)

lemma keccak_digest:
  assumes "length (sc_buf cc) = 144" and "n \<noteq> 7" and "lim \<in> {72, 104, 136, 144}" and "length tmp = lim + 1"
    and "8 * ((d + 7) div 8) \<le> lim"
  shows "fst (keccak_close d lim (foldl (\<lambda>kc x. keccak_core kc x lim) (keccak_init cc od) ds) ub n tmp) =
    keccak_spec lim d (concat ds)"
  using keccak_message(1) [OF assms(3,1,4,5) refl] assms(2) by (simp add: close_pad_def keccak_spec_def)

section \<open>Properties\<close>

text \<open>
  C14. Every unrolling of the rounds, with lanes left where the permutation finds them, some of
  them complemented, and moved back at the end, computes Keccak-f[1600] on the lanes it stands
  for; no other unrolling compiles. The input routine of the builds that copy the state adds the
  same words as that of the others.
\<close>

theorem keccak_permutation_correct:
  assumes "length A = 25"
  shows "KECCAK_F_1600_unrolled u (complement at_rest A) =
      (if u \<in> {0, 1, 2, 4, 6, 8, 12} then Some (complement at_rest (keccak_f A)) else None)
    \<and> KECCAK_F_1600 (complement at_rest A) = complement at_rest (keccak_f A)
    \<and> (lim \<in> {72, 104, 136, 144} \<longrightarrow> length buf = 144 \<longrightarrow> INPUT_BUF_copied lim buf A = INPUT_BUF lim buf A)"
proof -
  have "INPUT_BUF_copied lim buf A = INPUT_BUF lim buf A" if "lim \<in> {72, 104, 136, 144}" "length buf = 144"
    using INPUT_BUF_copied_spec [OF assms that(1), of buf] INPUT_BUF_spec [OF assms, of lim "lim div 8" buf] that by auto
  moreover have "KECCAK_F_1600_unrolled u (complement at_rest A) = None" if "u \<notin> {0, 1, 2, 4, 6, 8, 12}"
    using that by (simp add: KECCAK_F_1600_unrolled_def)
  ultimately show ?thesis
    using KECCAK_F_1600_unrolled_spec [OF assms] KECCAK_F_1600_spec [OF assms] by auto
qed

theorem keccak_permutation_correct_witness:
  "KECCAK_F_1600_unrolled 8 (complement at_rest (replicate 25 7)) = Some (complement at_rest (keccak_f (replicate 25 7)))
   \<and> INPUT_BUF_copied 72 (replicate 144 5) (replicate 25 7) = INPUT_BUF 72 (replicate 144 5) (replicate 25 7)"
  using keccak_permutation_correct [of "replicate 25 7" 8 72 "replicate 144 5"] by simp

text \<open>
  C13. Each Keccak routine, started on a context with any content, fed a message in any pieces and
  closed, writes the first bytes of the sponge over the message with the padding of the Keccak
  submission, whatever the local array of the closing routine held.
\<close>

theorem sph_keccak_streaming_correct:
  assumes "length (sc_buf cc) = 144"
    and "length tmp224 = 145" and "length tmp256 = 137" and "length tmp384 = 105" and "length tmp512 = 73"
  shows "fst (sph_keccak224_close (foldl sph_keccak224 (sph_keccak224_init cc) chunks) tmp224) = keccak_spec 144 28 (concat chunks)
    \<and> fst (sph_keccak256_close (foldl sph_keccak256 (sph_keccak256_init cc) chunks) tmp256) = keccak_spec 136 32 (concat chunks)
    \<and> fst (sph_keccak384_close (foldl sph_keccak384 (sph_keccak384_init cc) chunks) tmp384) = keccak_spec 104 48 (concat chunks)
    \<and> fst (sph_keccak512_close (foldl sph_keccak512 (sph_keccak512_init cc) chunks) tmp512) = keccak_spec 72 64 (concat chunks)"
  using keccak_digest [OF assms(1)] assms(2-5) by (simp add: keccak_updates keccak_entries)

theorem sph_keccak_streaming_correct_witness:
  "fst (sph_keccak512_close (foldl sph_keccak512
      (sph_keccak512_init \<lparr>sc_buf = replicate 144 9, sc_ptr = 5, sc_state = [], kc_lim = 0\<rparr>) [[1, 2], replicate 90 3]) (replicate 73 0)) =
   keccak_spec 72 64 ([1, 2] @ replicate 90 3)"
  using sph_keccak_streaming_correct [of "\<lparr>sc_buf = replicate 144 9, sc_ptr = 5, sc_state = [], kc_lim = 0\<rparr>"
      "replicate 145 0" "replicate 137 0" "replicate 105 0" "replicate 73 0" "[[1, 2], replicate 90 3]"]
  by simp

text \<open>
  C38. Closing with extra bits. The bits are not hashed: for any value of \<open>ub\<close> and fewer than seven
  bits the digest is that of the bytes alone. With \<open>n = 7\<close> and one byte missing in the last block
  the padding takes a further block, so that the digest is that of a differently padded message.
  Closing leaves the squeezed state in the context with the position reset, not an initialised
  context: a second message without another initialisation is hashed from that state.
\<close>

theorem sph_keccak512_addbits:
  assumes "length (sc_buf cc) = 144" and "length tmp = 73"
    and "kc = foldl sph_keccak512 (sph_keccak512_init cc) chunks"
    and "pad = (if n = 7 \<and> length (concat chunks) mod 72 = 71 then 0x01 # replicate 71 0 @ [0x80]
                else kk_pad 72 (72 - length (concat chunks) mod 72))"
  shows "fst (sph_keccak512_addbits_and_close kc ub n tmp) = keccak_sponge 72 64 (concat chunks @ pad)
    \<and> sph_view (snd (sph_keccak512_addbits_and_close kc ub n tmp)) =
      (fst (absorb_blocks 72 (kk_step 72) (replicate 25 0) (concat chunks @ pad)), [])"
proof -
  have kc: "kc = foldl (\<lambda>kc x. keccak_core kc x 72) (keccak_init cc 512) chunks"
    by (simp add: assms(3) keccak_updates keccak_entries)
  have pad: "pad = close_pad 72 n (length (concat chunks) mod 72)" by (auto simp: assms(4) close_pad_def)
  have inv: "sph_inv 144 72 kc" using keccak_message(2) [OF _ assms(1) _ _ kc, of tmp 64] assms(2) by simp
  show ?thesis
    using keccak_message(1,3) [OF _ assms(1) _ _ kc, of tmp 64 ub n] keccak_close_view(3) [OF inv, of tmp 64 ub n] assms(2)
    by (simp add: sph_keccak512_addbits_and_close_def pad sph_view_def)
qed

theorem sph_keccak512_addbits_witness:
  "fst (sph_keccak512_addbits_and_close (foldl sph_keccak512
      (sph_keccak512_init \<lparr>sc_buf = replicate 144 9, sc_ptr = 5, sc_state = [], kc_lim = 0\<rparr>) [replicate 71 3]) 1 7 (replicate 73 0)) =
   keccak_sponge 72 64 (replicate 71 3 @ 0x01 # replicate 71 0 @ [0x80])"
  using sph_keccak512_addbits [OF _ _ refl refl, of "\<lparr>sc_buf = replicate 144 9, sc_ptr = 5, sc_state = [], kc_lim = 0\<rparr>"
      "replicate 73 0" "[replicate 71 3]" 1 7]
  by simp

end
