(* ===== verification/Cubehash.thy ===== *)
theory Cubehash
  imports Sph_Buffer Bit_Strings
begin

text \<open>
  CubeHash with 16 rounds and 32-byte blocks, one of the core hashes of GhostRider:
  \<^verbatim>\<open>xmrig/crypto/ghostrider/sph_cubehash.c\<close>. The code never swaps words: a round is written for the
  natural order of the 32 words and one for the order the swaps of a round would leave, so two
  rounds bring every word back to its place.
\<close>

section \<open>Initial values and rounds\<close>

type_synonym cube_state = "u32 list"

definition cube_IV224 :: cube_state where
  "cube_IV224 = [0xB0FC8217, 0x1BEE1A90, 0x829E1A22, 0x6362C342, 
     0x24D91C30, 0x03A7AA24, 0xA63721C8, 0x85B0E2EF, 
     0xF35D13F3, 0x41DA807D, 0x21A70CA6, 0x1F4E9774, 
     0xB3E1C932, 0xEB0A79A8, 0xCDDAAA66, 0xE2F6ECAA, 
     0x0A713362, 0xAA3080E0, 0xD8F23A32, 0xCEF15E28, 
     0xDB086314, 0x7F709DF7, 0xACD228A4, 0x704D6ECE, 
     0xAA3EC95F, 0xE387C214, 0x3A6445FF, 0x9CAB81C3, 
     0xC73D4B98, 0xD277AEBE, 0xFD20151C, 0x00CB573E]"

definition cube_IV256 :: cube_state where
  "cube_IV256 = [0xEA2BD4B4, 0xCCD6F29F, 0x63117E71, 0x35481EAE, 
     0x22512D5B, 0xE5D94E63, 0x7E624131, 0xF4CC12BE, 
     0xC2D0B696, 0x42AF2070, 0xD0720C35, 0x3361DA8C, 
     0x28CCECA4, 0x8EF8AD83, 0x4680AC00, 0x40E5FBAB, 
     0xD89041C3, 0x6107FBD5, 0x6C859D41, 0xF0B26679, 
     0x09392549, 0x5FA25603, 0x65C892FD, 0x93CB6285, 
     0x2AF2B5AE, 0x9E4B4E60, 0x774ABFDD, 0x85254725, 
     0x15815AEB, 0x4AB6AAD6, 0x9CDAF8AF, 0xD6032C0A]"

definition cube_IV384 :: cube_state where
  "cube_IV384 = [0xE623087E, 0x04C00C87, 0x5EF46453, 0x69524B13, 
     0x1A05C7A9, 0x3528DF88, 0x6BDD01B5, 0x5057B792, 
     0x6AA7A922, 0x649C7EEE, 0xF426309F, 0xCB629052, 
     0xFC8E20ED, 0xB3482BAB, 0xF89E5E7E, 0xD83D4DE4, 
     0x44BFC10D, 0x5FC1E63D, 0x2104E6CB, 0x17958F7F, 
     0xDBEAEF70, 0xB4B97E1E, 0x32C195F6, 0x6184A8E4, 
     0x796C2543, 0x23DE176D, 0xD33BBAEC, 0x0C12E5D2, 
     0x4EB95A7B, 0x2D18BA01, 0x04EE475F, 0x1FC5F22E]"

definition cube_IV512 :: cube_state where
  "cube_IV512 = [0x2AEA2A61, 0x50F494D4, 0x2D538B8B, 0x4167D83E, 
     0x3FEE2313, 0xC701CF8C, 0xCC39968E, 0x50AC5695, 
     0x4D42C787, 0xA647A8B3, 0x97CF0BEF, 0x825B4537, 
     0xEEF864D2, 0xF22090C4, 0xD0E5CD33, 0xA23911AE, 
     0xFCD398D9, 0x148FE485, 0x1B017BEF, 0xB6444532, 
     0x6A536159, 0x2FF5781C, 0x91FA7934, 0x0DBADEA9, 
     0xD65C8A2B, 0xA5A70E75, 0xB1C62456, 0xBC796576, 
     0x1921C8F7, 0xE7989AF1, 0x7795D246, 0xD43E3B44]"

text \<open>The macros work on 32 local variables; the list is the order in which they are read and written back.\<close>

definition INPUT_BLOCK :: "bytes \<Rightarrow> cube_state \<Rightarrow> cube_state" where
  "INPUT_BLOCK buf x =
     (let x0 = x ! 0; x1 = x ! 1; x2 = x ! 2; x3 = x ! 3; x4 = x ! 4; x5 = x ! 5; x6 = x ! 6; x7 = x ! 7;
           x8 = x ! 8; x9 = x ! 9; xa = x ! 10; xb = x ! 11; xc = x ! 12; xd = x ! 13; xe = x ! 14; xf = x ! 15;
           xg = x ! 16; xh = x ! 17; xi = x ! 18; xj = x ! 19; xk = x ! 20; xl = x ! 21; xm = x ! 22; xn = x ! 23;
           xo = x ! 24; xp = x ! 25; xq = x ! 26; xr = x ! 27; xs = x ! 28; xt = x ! 29; xu = x ! 30; xv = x ! 31;
           x0 = x0 XOR sph_dec32le_aligned host (drop 0 buf); x1 = x1 XOR sph_dec32le_aligned host (drop 4 buf);
           x2 = x2 XOR sph_dec32le_aligned host (drop 8 buf); x3 = x3 XOR sph_dec32le_aligned host (drop 12 buf);
           x4 = x4 XOR sph_dec32le_aligned host (drop 16 buf); x5 = x5 XOR sph_dec32le_aligned host (drop 20 buf);
           x6 = x6 XOR sph_dec32le_aligned host (drop 24 buf); x7 = x7 XOR sph_dec32le_aligned host (drop 28 buf)
      in [x0, x1, x2, x3, x4, x5, x6, x7, x8, x9, xa, xb, xc, xd, xe, xf,
           xg, xh, xi, xj, xk, xl, xm, xn, xo, xp, xq, xr, xs, xt, xu, xv])"

definition ROUND_EVEN :: "cube_state \<Rightarrow> cube_state" where
  "ROUND_EVEN x =
     (let x0 = x ! 0; x1 = x ! 1; x2 = x ! 2; x3 = x ! 3; x4 = x ! 4; x5 = x ! 5; x6 = x ! 6; x7 = x ! 7;
           x8 = x ! 8; x9 = x ! 9; xa = x ! 10; xb = x ! 11; xc = x ! 12; xd = x ! 13; xe = x ! 14; xf = x ! 15;
           xg = x ! 16; xh = x ! 17; xi = x ! 18; xj = x ! 19; xk = x ! 20; xl = x ! 21; xm = x ! 22; xn = x ! 23;
           xo = x ! 24; xp = x ! 25; xq = x ! 26; xr = x ! 27; xs = x ! 28; xt = x ! 29; xu = x ! 30; xv = x ! 31;
           xg = x0 + xg; x0 = SPH_ROTL32 x0 7; xh = x1 + xh; x1 = SPH_ROTL32 x1 7;
           xi = x2 + xi; x2 = SPH_ROTL32 x2 7; xj = x3 + xj; x3 = SPH_ROTL32 x3 7;
           xk = x4 + xk; x4 = SPH_ROTL32 x4 7; xl = x5 + xl; x5 = SPH_ROTL32 x5 7;
           xm = x6 + xm; x6 = SPH_ROTL32 x6 7; xn = x7 + xn; x7 = SPH_ROTL32 x7 7;
           xo = x8 + xo; x8 = SPH_ROTL32 x8 7; xp = x9 + xp; x9 = SPH_ROTL32 x9 7;
           xq = xa + xq; xa = SPH_ROTL32 xa 7; xr = xb + xr; xb = SPH_ROTL32 xb 7;
           xs = xc + xs; xc = SPH_ROTL32 xc 7; xt = xd + xt; xd = SPH_ROTL32 xd 7;
           xu = xe + xu; xe = SPH_ROTL32 xe 7; xv = xf + xv; xf = SPH_ROTL32 xf 7;
           x8 = x8 XOR xg; x9 = x9 XOR xh; xa = xa XOR xi; xb = xb XOR xj;
           xc = xc XOR xk; xd = xd XOR xl; xe = xe XOR xm; xf = xf XOR xn;
           x0 = x0 XOR xo; x1 = x1 XOR xp; x2 = x2 XOR xq; x3 = x3 XOR xr;
           x4 = x4 XOR xs; x5 = x5 XOR xt; x6 = x6 XOR xu; x7 = x7 XOR xv;
           xi = x8 + xi; x8 = SPH_ROTL32 x8 11; xj = x9 + xj; x9 = SPH_ROTL32 x9 11;
           xg = xa + xg; xa = SPH_ROTL32 xa 11; xh = xb + xh; xb = SPH_ROTL32 xb 11;
           xm = xc + xm; xc = SPH_ROTL32 xc 11; xn = xd + xn; xd = SPH_ROTL32 xd 11;
           xk = xe + xk; xe = SPH_ROTL32 xe 11; xl = xf + xl; xf = SPH_ROTL32 xf 11;
           xq = x0 + xq; x0 = SPH_ROTL32 x0 11; xr = x1 + xr; x1 = SPH_ROTL32 x1 11;
           xo = x2 + xo; x2 = SPH_ROTL32 x2 11; xp = x3 + xp; x3 = SPH_ROTL32 x3 11;
           xu = x4 + xu; x4 = SPH_ROTL32 x4 11; xv = x5 + xv; x5 = SPH_ROTL32 x5 11;
           xs = x6 + xs; x6 = SPH_ROTL32 x6 11; xt = x7 + xt; x7 = SPH_ROTL32 x7 11;
           xc = xc XOR xi; xd = xd XOR xj; xe = xe XOR xg; xf = xf XOR xh;
           x8 = x8 XOR xm; x9 = x9 XOR xn; xa = xa XOR xk; xb = xb XOR xl;
           x4 = x4 XOR xq; x5 = x5 XOR xr; x6 = x6 XOR xo; x7 = x7 XOR xp;
           x0 = x0 XOR xu; x1 = x1 XOR xv; x2 = x2 XOR xs; x3 = x3 XOR xt
      in [x0, x1, x2, x3, x4, x5, x6, x7, x8, x9, xa, xb, xc, xd, xe, xf,
           xg, xh, xi, xj, xk, xl, xm, xn, xo, xp, xq, xr, xs, xt, xu, xv])"

definition ROUND_ODD :: "cube_state \<Rightarrow> cube_state" where
  "ROUND_ODD x =
     (let x0 = x ! 0; x1 = x ! 1; x2 = x ! 2; x3 = x ! 3; x4 = x ! 4; x5 = x ! 5; x6 = x ! 6; x7 = x ! 7;
           x8 = x ! 8; x9 = x ! 9; xa = x ! 10; xb = x ! 11; xc = x ! 12; xd = x ! 13; xe = x ! 14; xf = x ! 15;
           xg = x ! 16; xh = x ! 17; xi = x ! 18; xj = x ! 19; xk = x ! 20; xl = x ! 21; xm = x ! 22; xn = x ! 23;
           xo = x ! 24; xp = x ! 25; xq = x ! 26; xr = x ! 27; xs = x ! 28; xt = x ! 29; xu = x ! 30; xv = x ! 31;
           xj = xc + xj; xc = SPH_ROTL32 xc 7; xi = xd + xi; xd = SPH_ROTL32 xd 7;
           xh = xe + xh; xe = SPH_ROTL32 xe 7; xg = xf + xg; xf = SPH_ROTL32 xf 7;
           xn = x8 + xn; x8 = SPH_ROTL32 x8 7; xm = x9 + xm; x9 = SPH_ROTL32 x9 7;
           xl = xa + xl; xa = SPH_ROTL32 xa 7; xk = xb + xk; xb = SPH_ROTL32 xb 7;
           xr = x4 + xr; x4 = SPH_ROTL32 x4 7; xq = x5 + xq; x5 = SPH_ROTL32 x5 7;
           xp = x6 + xp; x6 = SPH_ROTL32 x6 7; xo = x7 + xo; x7 = SPH_ROTL32 x7 7;
           xv = x0 + xv; x0 = SPH_ROTL32 x0 7; xu = x1 + xu; x1 = SPH_ROTL32 x1 7;
           xt = x2 + xt; x2 = SPH_ROTL32 x2 7; xs = x3 + xs; x3 = SPH_ROTL32 x3 7;
           x4 = x4 XOR xj; x5 = x5 XOR xi; x6 = x6 XOR xh; x7 = x7 XOR xg;
           x0 = x0 XOR xn; x1 = x1 XOR xm; x2 = x2 XOR xl; x3 = x3 XOR xk;
           xc = xc XOR xr; xd = xd XOR xq; xe = xe XOR xp; xf = xf XOR xo;
           x8 = x8 XOR xv; x9 = x9 XOR xu; xa = xa XOR xt; xb = xb XOR xs;
           xh = x4 + xh; x4 = SPH_ROTL32 x4 11; xg = x5 + xg; x5 = SPH_ROTL32 x5 11;
           xj = x6 + xj; x6 = SPH_ROTL32 x6 11; xi = x7 + xi; x7 = SPH_ROTL32 x7 11;
           xl = x0 + xl; x0 = SPH_ROTL32 x0 11; xk = x1 + xk; x1 = SPH_ROTL32 x1 11;
           xn = x2 + xn; x2 = SPH_ROTL32 x2 11; xm = x3 + xm; x3 = SPH_ROTL32 x3 11;
           xp = xc + xp; xc = SPH_ROTL32 xc 11; xo = xd + xo; xd = SPH_ROTL32 xd 11;
           xr = xe + xr; xe = SPH_ROTL32 xe 11; xq = xf + xq; xf = SPH_ROTL32 xf 11;
           xt = x8 + xt; x8 = SPH_ROTL32 x8 11; xs = x9 + xs; x9 = SPH_ROTL32 x9 11;
           xv = xa + xv; xa = SPH_ROTL32 xa 11; xu = xb + xu; xb = SPH_ROTL32 xb 11;
           x0 = x0 XOR xh; x1 = x1 XOR xg; x2 = x2 XOR xj; x3 = x3 XOR xi;
           x4 = x4 XOR xl; x5 = x5 XOR xk; x6 = x6 XOR xn; x7 = x7 XOR xm;
           x8 = x8 XOR xp; x9 = x9 XOR xo; xa = xa XOR xr; xb = xb XOR xq;
           xc = xc XOR xt; xd = xd XOR xs; xe = xe XOR xv; xf = xf XOR xu
      in [x0, x1, x2, x3, x4, x5, x6, x7, x8, x9, xa, xb, xc, xd, xe, xf,
           xg, xh, xi, xj, xk, xl, xm, xn, xo, xp, xq, xr, xs, xt, xu, xv])"

definition SIXTEEN_ROUNDS :: "cube_state \<Rightarrow> cube_state" where
  "SIXTEEN_ROUNDS = (\<lambda>x. ROUND_ODD (ROUND_EVEN x)) ^^ 8"

section \<open>The context operations\<close>

type_synonym cube_context = "cube_state sph_context"

definition cubehash_init :: "cube_context \<Rightarrow> cube_state \<Rightarrow> cube_context" where
  "cubehash_init sc iv = sc\<lparr>sc_ptr := 0, sc_state := iv\<rparr>"

text \<open>What the loop does with a full buffer.\<close>

definition cubehash_block :: "bytes \<Rightarrow> cube_state \<Rightarrow> cube_state" where
  "cubehash_block buf x = SIXTEEN_ROUNDS (INPUT_BLOCK buf x)"

definition cubehash_core :: "cube_context \<Rightarrow> bytes \<Rightarrow> cube_context" where
  "cubehash_core sc data = sph_core 32 cubehash_block sc data"

definition cubehash_close :: "cube_context \<Rightarrow> nat \<Rightarrow> nat \<Rightarrow> nat \<Rightarrow> bytes \<times> cube_context" where
  "cubehash_close sc ub n out_size_w32 =
     (let buf = (sc_buf sc)[sc_ptr sc := sph_pad_byte ub n];
          ptr = sc_ptr sc + 1;
          buf = memcpy_at buf ptr (replicate (32 - ptr) 0);
          x = INPUT_BLOCK buf (sc_state sc);
          x = foldl (\<lambda>x i. let x = SIXTEEN_ROUNDS x in if i = 0 then x[31 := x ! 31 XOR 1] else x) x [0..<11];
          sc = sc\<lparr>sc_buf := buf, sc_state := x\<rparr>
      in (concat (map (\<lambda>z. sph_enc32le host (4 * z) (sc_state sc ! z)) [0..<out_size_w32]), sc))"

definition sph_cubehash224_init :: "cube_context \<Rightarrow> cube_context" where
  "sph_cubehash224_init cc = cubehash_init cc cube_IV224"

definition sph_cubehash224 :: "cube_context \<Rightarrow> bytes \<Rightarrow> cube_context" where
  "sph_cubehash224 cc data = cubehash_core cc data"

definition sph_cubehash224_addbits_and_close :: "cube_context \<Rightarrow> nat \<Rightarrow> nat \<Rightarrow> bytes \<times> cube_context" where
  "sph_cubehash224_addbits_and_close cc ub n =
     (let (dst, cc) = cubehash_close cc ub n 7 in (dst, sph_cubehash224_init cc))"

definition sph_cubehash224_close :: "cube_context \<Rightarrow> bytes \<times> cube_context" where
  "sph_cubehash224_close cc = sph_cubehash224_addbits_and_close cc 0 0"

definition sph_cubehash256_init :: "cube_context \<Rightarrow> cube_context" where
  "sph_cubehash256_init cc = cubehash_init cc cube_IV256"

definition sph_cubehash256 :: "cube_context \<Rightarrow> bytes \<Rightarrow> cube_context" where
  "sph_cubehash256 cc data = cubehash_core cc data"

definition sph_cubehash256_addbits_and_close :: "cube_context \<Rightarrow> nat \<Rightarrow> nat \<Rightarrow> bytes \<times> cube_context" where
  "sph_cubehash256_addbits_and_close cc ub n =
     (let (dst, cc) = cubehash_close cc ub n 8 in (dst, sph_cubehash256_init cc))"

definition sph_cubehash256_close :: "cube_context \<Rightarrow> bytes \<times> cube_context" where
  "sph_cubehash256_close cc = sph_cubehash256_addbits_and_close cc 0 0"

definition sph_cubehash384_init :: "cube_context \<Rightarrow> cube_context" where
  "sph_cubehash384_init cc = cubehash_init cc cube_IV384"

definition sph_cubehash384 :: "cube_context \<Rightarrow> bytes \<Rightarrow> cube_context" where
  "sph_cubehash384 cc data = cubehash_core cc data"

definition sph_cubehash384_addbits_and_close :: "cube_context \<Rightarrow> nat \<Rightarrow> nat \<Rightarrow> bytes \<times> cube_context" where
  "sph_cubehash384_addbits_and_close cc ub n =
     (let (dst, cc) = cubehash_close cc ub n 12 in (dst, sph_cubehash384_init cc))"

definition sph_cubehash384_close :: "cube_context \<Rightarrow> bytes \<times> cube_context" where
  "sph_cubehash384_close cc = sph_cubehash384_addbits_and_close cc 0 0"

definition sph_cubehash512_init :: "cube_context \<Rightarrow> cube_context" where
  "sph_cubehash512_init cc = cubehash_init cc cube_IV512"

definition sph_cubehash512 :: "cube_context \<Rightarrow> bytes \<Rightarrow> cube_context" where
  "sph_cubehash512 cc data = cubehash_core cc data"

definition sph_cubehash512_addbits_and_close :: "cube_context \<Rightarrow> nat \<Rightarrow> nat \<Rightarrow> bytes \<times> cube_context" where
  "sph_cubehash512_addbits_and_close cc ub n =
     (let (dst, cc) = cubehash_close cc ub n 16 in (dst, sph_cubehash512_init cc))"

definition sph_cubehash512_close :: "cube_context \<Rightarrow> bytes \<times> cube_context" where
  "sph_cubehash512_close cc = sph_cubehash512_addbits_and_close cc 0 0"

section \<open>The CubeHash round\<close>

text \<open>Exchanging the words whose index differs in the bit \<open>k\<close>.\<close>

definition swap_bit :: "nat \<Rightarrow> u32 list \<Rightarrow> u32 list" where
  "swap_bit k ys = map (\<lambda>n. ys ! (n XOR k)) [0..<16]"

definition cube_round :: "cube_state \<Rightarrow> cube_state" where
  "cube_round x =
     (let a = take 16 x; b = drop 16 x;
          b = map2 (+) a b;
          a = map (word_rotl 7) a;
          a = swap_bit 8 a;
          a = map2 (XOR) a b;
          b = swap_bit 2 b;
          b = map2 (+) a b;
          a = map (word_rotl 11) a;
          a = swap_bit 4 a;
          a = map2 (XOR) a b;
          b = swap_bit 1 b
      in a @ b)"

text \<open>Where the code keeps the words after an odd number of rounds.\<close>

definition displaced :: "cube_state \<Rightarrow> cube_state" where
  "displaced x = swap_bit 12 (take 16 x) @ swap_bit 3 (drop 16 x)"

lemma swap_bit_eval:
  "swap_bit 8 [a0, a1, a2, a3, a4, a5, a6, a7, a8, a9, a10, a11, a12, a13, a14, a15] =
     [a8, a9, a10, a11, a12, a13, a14, a15, a0, a1, a2, a3, a4, a5, a6, a7]"
  "swap_bit 4 [a0, a1, a2, a3, a4, a5, a6, a7, a8, a9, a10, a11, a12, a13, a14, a15] =
     [a4, a5, a6, a7, a0, a1, a2, a3, a12, a13, a14, a15, a8, a9, a10, a11]"
  "swap_bit 2 [a0, a1, a2, a3, a4, a5, a6, a7, a8, a9, a10, a11, a12, a13, a14, a15] =
     [a2, a3, a0, a1, a6, a7, a4, a5, a10, a11, a8, a9, a14, a15, a12, a13]"
  "swap_bit 1 [a0, a1, a2, a3, a4, a5, a6, a7, a8, a9, a10, a11, a12, a13, a14, a15] =
     [a1, a0, a3, a2, a5, a4, a7, a6, a9, a8, a11, a10, a13, a12, a15, a14]"
  "swap_bit 12 [a0, a1, a2, a3, a4, a5, a6, a7, a8, a9, a10, a11, a12, a13, a14, a15] =
     [a12, a13, a14, a15, a8, a9, a10, a11, a4, a5, a6, a7, a0, a1, a2, a3]"
  "swap_bit 3 [a0, a1, a2, a3, a4, a5, a6, a7, a8, a9, a10, a11, a12, a13, a14, a15] =
     [a3, a2, a1, a0, a7, a6, a5, a4, a11, a10, a9, a8, a15, a14, a13, a12]"
  by (simp_all add: swap_bit_def upt_16)

lemmas swap_bits = swap_bit_eval [unfolded One_nat_def]

lemma ROUND_EVEN_spec:
  assumes "length x = 32"
  shows "ROUND_EVEN x = displaced (cube_round x)"
proof -
  obtain v0 v1 v2 v3 v4 v5 v6 v7 v8 v9 v10 v11 v12 v13 v14 v15 v16 v17 v18 v19 v20 v21 v22 v23 v24 v25 v26 v27 v28 v29 v30 v31
    where x: "x = [v0, v1, v2, v3, v4, v5, v6, v7, v8, v9, v10, v11, v12, v13, v14, v15,
        v16, v17, v18, v19, v20, v21, v22, v23, v24, v25, v26, v27, v28, v29, v30, v31]"
    using assms by (rule list32_cases)
  show ?thesis
    unfolding x cube_round_def displaced_def ROUND_EVEN_def
    by (simp add: Let_def swap_bits SPH_ROTL_rotl)
qed

lemma ROUND_ODD_spec:
  assumes "length x = 32"
  shows "ROUND_ODD (displaced x) = cube_round x"
proof -
  obtain v0 v1 v2 v3 v4 v5 v6 v7 v8 v9 v10 v11 v12 v13 v14 v15
      v16 v17 v18 v19 v20 v21 v22 v23 v24 v25 v26 v27 v28 v29 v30 v31
    where x: "x = [v0, v1, v2, v3, v4, v5, v6, v7, v8, v9, v10, v11, v12, v13, v14, v15,
        v16, v17, v18, v19, v20, v21, v22, v23, v24, v25, v26, v27, v28, v29, v30, v31]"
    using assms by (rule list32_cases)
  show ?thesis
    unfolding x cube_round_def displaced_def ROUND_ODD_def
    by (simp add: Let_def swap_bits SPH_ROTL_rotl)
qed

lemma length_swap_bit [simp]: "length (swap_bit k ys) = 16"
  by (simp add: swap_bit_def)

lemma length_cube_round [simp]: "length x = 32 \<Longrightarrow> length (cube_round x) = 32"
  by (simp add: cube_round_def Let_def)

lemma cube_two_rounds: "length x = 32 \<Longrightarrow> ROUND_ODD (ROUND_EVEN x) = cube_round (cube_round x)"
  by (simp add: ROUND_EVEN_spec ROUND_ODD_spec)

lemma length_cube_rounds [simp]: "length x = 32 \<Longrightarrow> length ((cube_round ^^ n) x) = 32"
  by (induction n) simp_all

lemma cube_round_pairs: "length x = 32 \<Longrightarrow> ((\<lambda>x. ROUND_ODD (ROUND_EVEN x)) ^^ n) x = (cube_round ^^ (2 * n)) x"
  by (induction n) (simp_all add: cube_two_rounds)

lemma SIXTEEN_ROUNDS_spec: "length x = 32 \<Longrightarrow> SIXTEEN_ROUNDS x = (cube_round ^^ 16) x"
  using cube_round_pairs [of x 8] by (simp add: SIXTEEN_ROUNDS_def)

section \<open>Specification\<close>

text \<open>
  CubeHash16/32: a block of 32 bytes is added to the first eight words and sixteen rounds
  follow; after the last block a one is added to the last word and 160 rounds follow. The
  message is padded with a one and zeros.
\<close>

definition cube_input :: "bytes \<Rightarrow> cube_state \<Rightarrow> cube_state" where
  "cube_input b x = map2 (XOR) (take 8 x) (map (\<lambda>i. le_dec (take 4 (drop (4 * i) b))) [0..<8]) @ drop 8 x"

definition cube_step :: "cube_state \<Rightarrow> bytes \<Rightarrow> cube_state" where
  "cube_step x b = (cube_round ^^ 16) (cube_input b x)"

definition cube_pad :: "bool list \<Rightarrow> bool list" where
  "cube_pad M = M @ True # replicate (255 - length M mod 256) False"

definition cube_spec :: "cube_state \<Rightarrow> nat \<Rightarrow> bool list \<Rightarrow> bytes" where
  "cube_spec iv rnum M =
     (let x = fst (absorb_blocks 32 cube_step iv (bytes_of_bits (cube_pad M)));
          x = (cube_round ^^ 160) (x[31 := x ! 31 XOR 1])
      in concat (map (le_enc 4) (take rnum x)))"

section \<open>The code meets the specification\<close>

lemma INPUT_BLOCK_spec:
  assumes "length x = 32" and "length b = 32"
  shows "INPUT_BLOCK b x = cube_input b x"
proof -
  have "sph_dec32le_aligned host (drop (4 * i) b) = le_dec (take 4 (drop (4 * i) b))" if "i < 8" for i
    using that assms(2) by (simp add: sph_decoders)
  from this [of 0] this [of 1] this [of 2] this [of 3] this [of 4] this [of 5] this [of 6] this [of 7]
  have w: "sph_dec32le_aligned host b = le_dec (take 4 b)"
    "sph_dec32le_aligned host (drop 4 b) = le_dec (take 4 (drop 4 b))"
    "sph_dec32le_aligned host (drop 8 b) = le_dec (take 4 (drop 8 b))"
    "sph_dec32le_aligned host (drop 12 b) = le_dec (take 4 (drop 12 b))"
    "sph_dec32le_aligned host (drop 16 b) = le_dec (take 4 (drop 16 b))"
    "sph_dec32le_aligned host (drop 20 b) = le_dec (take 4 (drop 20 b))"
    "sph_dec32le_aligned host (drop 24 b) = le_dec (take 4 (drop 24 b))"
    "sph_dec32le_aligned host (drop 28 b) = le_dec (take 4 (drop 28 b))"
    by simp_all
  have u: "[0..<8] = [0, 1, 2, 3, 4, 5, 6, 7 :: nat]" by code_simp
  show ?thesis
    using assms(1) by (rule list32_cases) (simp add: INPUT_BLOCK_def cube_input_def Let_def w u)
qed

lemma length_cube_input [simp]: "length x = 32 \<Longrightarrow> length (cube_input b x) = 32"
  by (simp add: cube_input_def)

lemma cubehash_block_spec: "length x = 32 \<Longrightarrow> length b = 32 \<Longrightarrow> cubehash_block b x = cube_step x b"
  by (simp add: cubehash_block_def cube_step_def INPUT_BLOCK_spec SIXTEEN_ROUNDS_spec)

lemma length_cube_step [simp]: "length x = 32 \<Longrightarrow> length (cube_step x b) = 32"
  by (simp add: cube_step_def)

lemma SIXTEEN_ROUNDS_times: "length x = 32 \<Longrightarrow> (SIXTEEN_ROUNDS ^^ n) x = (cube_round ^^ (16 * n)) x"
  by (induction n) (simp_all add: SIXTEEN_ROUNDS_spec funpow_add)

lemma closing_rounds:
  "foldl (\<lambda>x i. let x = S x in if i = 0 then x[31 := x ! 31 XOR 1] else x) x [0..<Suc n] =
   (S ^^ n) ((S x)[31 := S x ! 31 XOR (1 :: u32)])"
  by (induction n) (simp_all add: Let_def)

lemma cube_padding:
  assumes "n < 8"
  shows "bytes_of_bits (cube_pad (bits_of_bytes m @ take n (bits_of_byte (of_nat ub)))) =
    m @ sph_pad_byte ub n # replicate (31 - length m mod 32) 0"
proof -
  let ?M = "bits_of_bytes m @ take n (bits_of_byte (of_nat ub))"
  have "length ?M = 8 * length m + n" using assms by (simp add: bits_of_byte_def)
  moreover have "(8 * length m + n) mod 256 = 8 * (length m mod 32) + n"
  proof -
    have "8 * length m + n = 256 * (length m div 32) + (8 * (length m mod 32) + n)"
      using mult_div_mod_eq [of 32 "length m"] by linarith
    moreover have "8 * (length m mod 32) + n < 256" using assms mod_less_divisor [of 32 "length m"] by linarith
    ultimately show ?thesis by (metis mod_less mod_mult_self4)
  qed
  ultimately have "255 - length ?M mod 256 = (7 - n) + 8 * (31 - length m mod 32)"
    using assms mod_less_divisor [of 32 "length m"] by simp
  then have "cube_pad ?M = bits_of_bytes (m @ sph_pad_byte ub n # replicate (31 - length m mod 32) 0)"
    using pad_byte_bits [OF assms, of ub] bits_of_zero_bytes [of "31 - length m mod 32"]
    by (simp add: cube_pad_def replicate_add bits_of_bytes_def del: bits_of_bytes_append)
  then show ?thesis by (simp only: bytes_of_bits_of_bytes)
qed

text \<open>The digest in terms of the view.\<close>

definition cube_digest :: "nat \<Rightarrow> nat \<Rightarrow> nat \<Rightarrow> cube_state \<times> bytes \<Rightarrow> bytes" where
  "cube_digest ub n rnum v =
     (let x = cubehash_block (snd v @ sph_pad_byte ub n # replicate (31 - length (snd v)) 0) (fst v);
          x = (SIXTEEN_ROUNDS ^^ 10) (x[31 := x ! 31 XOR 1])
      in concat (map (\<lambda>z. le_enc 4 (x ! z)) [0..<rnum]))"

lemma cubehash_close_digest:
  assumes "sph_inv 32 32 sc"
  shows "fst (cubehash_close sc ub n rnum) = cube_digest ub n rnum (sph_view sc)"
  using sph_pad_buffer [OF assms, of "sph_pad_byte ub n"] closing_rounds [of SIXTEEN_ROUNDS _ 10]
  by (simp add: cubehash_close_def cube_digest_def cubehash_block_def Let_def sph_encoders sph_view_def del: upt_Suc)

interpretation cube: sph_hash 32 32 cubehash_block "\<lambda>sc. fst (cubehash_close sc ub n rnum)" for ub n rnum
  by unfold_locales (simp_all add: cubehash_close_digest)

lemma cubehash_message:
  assumes "length (sc_buf sc) = 32" and "length iv = 32" and "n < 8" and "rnum \<le> 32"
  shows "fst (cubehash_close (foldl cubehash_core (cubehash_init sc iv) ds) ub n rnum) =
    cube_spec iv rnum (bits_of_bytes (concat ds) @ take n (bits_of_byte (of_nat ub)))"
proof -
  let ?m = "concat ds" and ?c = "cubehash_init sc iv" and ?p = "sph_pad_byte ub n # replicate (31 - length (concat ds) mod 32) 0"
  have inv: "sph_inv 32 32 ?c" "sph_view ?c = (iv, [])"
    using assms(1) by (simp_all add: cubehash_init_def sph_inv_def sph_view_def)
  obtain x t where xt: "absorb_blocks 32 cube_step iv ?m = (x, t)" by fastforce
  have len: "length t = length ?m mod 32" "length x = 32"
    using absorb_blocks_rest [OF _ xt] absorb_blocks_inv [of "\<lambda>x. length x = 32" iv 32 cube_step ?m] assms(2) xt by simp_all
  have "absorb_blocks 32 (\<lambda>s x. cubehash_block x s) iv ?m = (x, t)"
    using absorb_blocks_cong_inv [of "\<lambda>x. length x = 32" iv 32 "\<lambda>s x. cubehash_block x s" cube_step ?m] assms(2) xt
    by (simp add: cubehash_block_spec)
  then have view: "sph_view (foldl cubehash_core ?c ds) = (x, t)"
    using cube.message_view [OF inv, of ds] by (simp add: cubehash_core_def [abs_def])
  have inv': "sph_inv 32 32 (foldl cubehash_core ?c ds)"
    using cube.inv_updates [OF inv(1), of ds] by (simp add: cubehash_core_def [abs_def])
  have l32: "length (t @ ?p) = 32" using len(1) mod_less_divisor [of 32 "length ?m"] by simp
  define y where "y = cube_step x (t @ ?p)"
  have y: "length y = 32" "fst (absorb_blocks 32 cube_step iv (?m @ ?p)) = y"
    using absorb_blocks_last [OF _ xt l32] len(2) by (simp_all add: y_def)
  define z where "z = (cube_round ^^ 160) (y[31 := y ! 31 XOR 1])"
  have z: "length z = 32" by (simp add: z_def y(1))
  have "cube_digest ub n rnum (x, t) = concat (map (\<lambda>i. le_enc 4 (z ! i)) [0..<rnum])"
    using cubehash_block_spec [OF len(2) l32] len(1) y(1)
    by (simp add: cube_digest_def Let_def y_def [symmetric] z_def SIXTEEN_ROUNDS_times)
  also have "map (\<lambda>i. le_enc 4 (z ! i)) [0..<rnum] = map (le_enc 4) (take rnum z)"
    using z assms(4) by (intro nth_equalityI) simp_all
  finally show ?thesis
    using cube_padding [OF assms(3), of ?m ub] y(2)
    by (simp add: cubehash_close_digest [OF inv'] view cube_spec_def Let_def z_def)
qed

lemma length_cube_IVs [simp]:
  "length cube_IV224 = 32" "length cube_IV256 = 32" "length cube_IV384 = 32" "length cube_IV512 = 32"
  by (simp_all add: cube_IV224_def cube_IV256_def cube_IV384_def cube_IV512_def)

lemmas cube_wrappers = sph_cubehash224_init_def sph_cubehash224_def sph_cubehash224_addbits_and_close_def sph_cubehash224_close_def
  sph_cubehash256_init_def sph_cubehash256_def sph_cubehash256_addbits_and_close_def sph_cubehash256_close_def
  sph_cubehash384_init_def sph_cubehash384_def sph_cubehash384_addbits_and_close_def sph_cubehash384_close_def
  sph_cubehash512_init_def sph_cubehash512_def sph_cubehash512_addbits_and_close_def sph_cubehash512_close_def

lemma cube_updates:
  "sph_cubehash224 = cubehash_core" "sph_cubehash256 = cubehash_core"
  "sph_cubehash384 = cubehash_core" "sph_cubehash512 = cubehash_core"
  by (simp_all add: fun_eq_iff cube_wrappers)

section \<open>Properties\<close>

text \<open>
  The unrolled rounds without word swaps are the rounds of CubeHash: an even round leaves the
  words of a specified round displaced, an odd round continues from there and puts them back.
\<close>

theorem cubehash_rounds_correct:
  assumes "length x = 32"
  shows "ROUND_EVEN x = displaced (cube_round x) \<and> ROUND_ODD (displaced x) = cube_round x
    \<and> SIXTEEN_ROUNDS x = (cube_round ^^ 16) x"
  using ROUND_EVEN_spec [OF assms] ROUND_ODD_spec [OF assms] SIXTEEN_ROUNDS_spec [OF assms] by simp

theorem cubehash_rounds_correct_witness: "SIXTEEN_ROUNDS cube_IV512 = (cube_round ^^ 16) cube_IV512"
  using cubehash_rounds_correct [of cube_IV512] by simp

text \<open>
  C9. Each CubeHash routine, started on a context with any content, fed a message in any pieces
  and closed with up to seven further bits, writes the CubeHash16/32 digest of the message and
  leaves the context initialised for the next one.
\<close>

theorem sph_cubehash_streaming_correct:
  assumes "length (sc_buf cc) = 32" and "n < 8"
    and "M = bits_of_bytes (concat chunks) @ take n (bits_of_byte (of_nat ub))"
  shows "fst (sph_cubehash224_addbits_and_close (foldl sph_cubehash224 (sph_cubehash224_init cc) chunks) ub n) =
      cube_spec cube_IV224 7 M
    \<and> fst (sph_cubehash256_addbits_and_close (foldl sph_cubehash256 (sph_cubehash256_init cc) chunks) ub n) =
      cube_spec cube_IV256 8 M
    \<and> fst (sph_cubehash384_addbits_and_close (foldl sph_cubehash384 (sph_cubehash384_init cc) chunks) ub n) =
      cube_spec cube_IV384 12 M
    \<and> fst (sph_cubehash512_addbits_and_close (foldl sph_cubehash512 (sph_cubehash512_init cc) chunks) ub n) =
      cube_spec cube_IV512 16 M
    \<and> sph_view (snd (sph_cubehash512_addbits_and_close (foldl sph_cubehash512 (sph_cubehash512_init cc) chunks) ub n)) =
      (cube_IV512, [])"
  unfolding assms(3)
  using cubehash_message [OF assms(1) _ assms(2)]
  by (simp add: cube_updates cube_wrappers split_beta sph_view_def cubehash_init_def)

theorem sph_cubehash_streaming_correct_witness:
  "fst (sph_cubehash512_close (foldl sph_cubehash512
      (sph_cubehash512_init \<lparr>sc_buf = replicate 32 9, sc_ptr = 5, sc_state = []\<rparr>) [[1, 2], replicate 70 3])) =
   cube_spec cube_IV512 16 (bits_of_bytes ([1, 2] @ replicate 70 3))"
  using sph_cubehash_streaming_correct [of "\<lparr>sc_buf = replicate 32 9, sc_ptr = 5, sc_state = []\<rparr>" 0
      "bits_of_bytes ([1, 2] @ replicate 70 3)" "[[1, 2], replicate 70 3]" 0]
  by (simp add: sph_cubehash512_close_def)

end
