(* ===== verification/Whirlpool.thy ===== *)
theory Whirlpool
  imports Md_Helper Whirlpool_Tables
begin

text \<open>
  The three versions of WHIRLPOOL in \<^verbatim>\<open>xmrig/crypto/ghostrider/sph_whirlpool.c\<close>: the round of eight
  table lookups per word, the compression function and the operations on a context, which
  come from the Merkle-Damgard frame with 64-bit big-endian words, a block of 64 bytes and a
  length field of four words. The specification works on matrices of bytes and is refined by
  way of the words that a row of a matrix is read as.
\<close>

unbundle bit_operations_syntax

section \<open>The round function\<close>

type_synonym whirl_state = "u64 list"

definition BYTE :: "u64 \<Rightarrow> nat \<Rightarrow> nat" where
  "BYTE x n = unat (drop_bit (8 * n) x AND 0xFF)"

text \<open>The macro argument \<^verbatim>\<open>table\<close> names eight tables, which are a list here.\<close>

definition ROUND_ELT :: "u64 list list \<Rightarrow> whirl_state \<Rightarrow> nat \<Rightarrow> nat \<Rightarrow> nat \<Rightarrow> nat \<Rightarrow> nat \<Rightarrow> nat \<Rightarrow> nat \<Rightarrow> nat \<Rightarrow> u64" where
  "ROUND_ELT T v i0 i1 i2 i3 i4 i5 i6 i7 =
     T ! 0 ! BYTE (v ! i0) 0
     XOR T ! 1 ! BYTE (v ! i1) 1
     XOR T ! 2 ! BYTE (v ! i2) 2
     XOR T ! 3 ! BYTE (v ! i3) 3
     XOR T ! 4 ! BYTE (v ! i4) 4
     XOR T ! 5 ! BYTE (v ! i5) 5
     XOR T ! 6 ! BYTE (v ! i6) 6
     XOR T ! 7 ! BYTE (v ! i7) 7"

text \<open>With \<^verbatim>\<open>SPH_SMALL_FOOTPRINT_WHIRLPOOL\<close> only the first table exists.\<close>

definition table_skew :: "u64 \<Rightarrow> nat \<Rightarrow> u64" where
  "table_skew val num = SPH_ROTL64 val (8 * num)"

definition ROUND_ELT_small :: "u64 list list \<Rightarrow> whirl_state \<Rightarrow> nat \<Rightarrow> nat \<Rightarrow> nat \<Rightarrow> nat \<Rightarrow> nat \<Rightarrow> nat \<Rightarrow> nat \<Rightarrow> nat \<Rightarrow> u64" where
  "ROUND_ELT_small T v i0 i1 i2 i3 i4 i5 i6 i7 =
     T ! 0 ! BYTE (v ! i0) 0
     XOR table_skew (T ! 0 ! BYTE (v ! i1) 1) 1
     XOR table_skew (T ! 0 ! BYTE (v ! i2) 2) 2
     XOR table_skew (T ! 0 ! BYTE (v ! i3) 3) 3
     XOR table_skew (T ! 0 ! BYTE (v ! i4) 4) 4
     XOR table_skew (T ! 0 ! BYTE (v ! i5) 5) 5
     XOR table_skew (T ! 0 ! BYTE (v ! i6) 6) 6
     XOR table_skew (T ! 0 ! BYTE (v ! i7) 7) 7"

definition ROUND :: "u64 list list \<Rightarrow> whirl_state \<Rightarrow> whirl_state \<Rightarrow> whirl_state" where
  "ROUND T v c =
     [ROUND_ELT T v 0 7 6 5 4 3 2 1 XOR c ! 0,
      ROUND_ELT T v 1 0 7 6 5 4 3 2 XOR c ! 1,
      ROUND_ELT T v 2 1 0 7 6 5 4 3 XOR c ! 2,
      ROUND_ELT T v 3 2 1 0 7 6 5 4 XOR c ! 3,
      ROUND_ELT T v 4 3 2 1 0 7 6 5 XOR c ! 4,
      ROUND_ELT T v 5 4 3 2 1 0 7 6 XOR c ! 5,
      ROUND_ELT T v 6 5 4 3 2 1 0 7 XOR c ! 6,
      ROUND_ELT T v 7 6 5 4 3 2 1 0 XOR c ! 7]"

definition ROUND_KSCHED :: "u64 list list \<Rightarrow> whirl_state \<Rightarrow> u64 \<Rightarrow> whirl_state" where
  "ROUND_KSCHED T v c = ROUND T v [c, 0, 0, 0, 0, 0, 0, 0]"

definition ROUND_WENC :: "u64 list list \<Rightarrow> whirl_state \<Rightarrow> whirl_state \<Rightarrow> whirl_state" where
  "ROUND_WENC T v key = ROUND T v [key ! 0, key ! 1, key ! 2, key ! 3, key ! 4, key ! 5, key ! 6, key ! 7]"

definition READ_DATA :: "bytes \<Rightarrow> whirl_state" where
  "READ_DATA src = map (\<lambda>x. sph_dec64le_aligned host (drop (8 * x) src)) [0, 1, 2, 3, 4, 5, 6, 7]"

definition UPDATE_STATE :: "bytes \<Rightarrow> whirl_state \<Rightarrow> whirl_state \<Rightarrow> whirl_state" where
  "UPDATE_STATE src n state =
     foldl (\<lambda>state x. state[x := state ! x XOR (n ! x XOR sph_dec64le_aligned host (drop (8 * x) src))]) state [0, 1, 2, 3, 4, 5, 6, 7]"

text \<open>\<^verbatim>\<open>ROUND_FUN\<close>, as a function of the tables and round constants.\<close>

definition ROUND_FUN :: "u64 list list \<Rightarrow> u64 list \<Rightarrow> bytes \<Rightarrow> whirl_state \<Rightarrow> whirl_state" where
  "ROUND_FUN T RC src state =
     (let n = READ_DATA src;
          h = map (\<lambda>x. state ! x) [0, 1, 2, 3, 4, 5, 6, 7];
          n = map (\<lambda>x. n ! x XOR h ! x) [0, 1, 2, 3, 4, 5, 6, 7];
          (h, n) = foldl (\<lambda>(h, n) r. let h = ROUND_KSCHED T h (RC ! r); n = ROUND_WENC T n h in (h, n)) (h, n) [0..<10]
      in UPDATE_STATE src n state)"

section \<open>Operations\<close>

type_synonym sph_whirlpool_context = "whirl_state md_context"

definition whirlpool_config :: md_config where
  "whirlpool_config = \<lparr>cfg_word = BE64, cfg_plw = PLW4, cfg_blen = Some 64, cfg_pw01 = False\<rparr>"

definition sph_whirlpool_init :: "sph_whirlpool_context \<Rightarrow> sph_whirlpool_context" where
  "sph_whirlpool_init sc = sc\<lparr>md_val := replicate 8 0, md_count := 0\<rparr>"

definition MAKE_CLOSE :: "whirl_state rfun \<Rightarrow> sph_whirlpool_context \<Rightarrow> bytes \<times> sph_whirlpool_context" where
  "MAKE_CLOSE rfun sc =
     (let sc = md_addbits whirlpool_config rfun sc 0 0
      in (concat (map (\<lambda>i. sph_enc64le host (8 * i) (md_val sc ! i)) [0..<8]), sc))"

text \<open>The three instances: the tables of a version and its round constants.\<close>

definition plain_T :: "u64 list list" where
  "plain_T = [plain_T0, plain_T1, plain_T2, plain_T3, plain_T4, plain_T5, plain_T6, plain_T7]"

definition old0_T :: "u64 list list" where
  "old0_T = [old0_T0, old0_T1, old0_T2, old0_T3, old0_T4, old0_T5, old0_T6, old0_T7]"

definition old1_T :: "u64 list list" where
  "old1_T = [old1_T0, old1_T1, old1_T2, old1_T3, old1_T4, old1_T5, old1_T6, old1_T7]"

definition whirlpool_round :: "whirl_state rfun" where
  "whirlpool_round = ROUND_FUN plain_T plain_RC"

definition whirlpool0_round :: "whirl_state rfun" where
  "whirlpool0_round = ROUND_FUN old0_T old0_RC"

definition whirlpool1_round :: "whirl_state rfun" where
  "whirlpool1_round = ROUND_FUN old1_T old1_RC"

definition sph_whirlpool :: "sph_whirlpool_context \<Rightarrow> bytes \<Rightarrow> sph_whirlpool_context" where
  "sph_whirlpool = md_update whirlpool_config whirlpool_round"

definition sph_whirlpool0 :: "sph_whirlpool_context \<Rightarrow> bytes \<Rightarrow> sph_whirlpool_context" where
  "sph_whirlpool0 = md_update whirlpool_config whirlpool0_round"

definition sph_whirlpool1 :: "sph_whirlpool_context \<Rightarrow> bytes \<Rightarrow> sph_whirlpool_context" where
  "sph_whirlpool1 = md_update whirlpool_config whirlpool1_round"

definition sph_whirlpool_close :: "sph_whirlpool_context \<Rightarrow> bytes \<times> sph_whirlpool_context" where
  "sph_whirlpool_close = MAKE_CLOSE whirlpool_round"

definition sph_whirlpool0_close :: "sph_whirlpool_context \<Rightarrow> bytes \<times> sph_whirlpool_context" where
  "sph_whirlpool0_close = MAKE_CLOSE whirlpool0_round"

definition sph_whirlpool1_close :: "sph_whirlpool_context \<Rightarrow> bytes \<times> sph_whirlpool_context" where
  "sph_whirlpool1_close = MAKE_CLOSE whirlpool1_round"

definition sph_whirlpool512_full :: "sph_whirlpool_context \<Rightarrow> bytes \<Rightarrow> bytes \<times> sph_whirlpool_context" where
  "sph_whirlpool512_full cc data = sph_whirlpool_close (sph_whirlpool (sph_whirlpool_init cc) data)"

section \<open>The specified hash\<close>

text \<open>Matrices of bytes are lists of eight rows.\<close>

type_synonym matrix = "bytes list"

definition matrix_of :: "(nat \<Rightarrow> nat \<Rightarrow> byte) \<Rightarrow> matrix" where
  "matrix_of f = map (\<lambda>i. map (f i) [0..<8]) [0..<8]"

definition sub_bytes :: "(byte \<Rightarrow> byte) \<Rightarrow> matrix \<Rightarrow> matrix" where
  "sub_bytes S A = matrix_of (\<lambda>i j. S (A ! i ! j))"

definition shift_columns :: "matrix \<Rightarrow> matrix" where
  "shift_columns A = matrix_of (\<lambda>i j. A ! ((i + 8 - j) mod 8) ! j)"

definition mix_rows :: "byte list \<Rightarrow> matrix \<Rightarrow> matrix" where
  "mix_rows c A = matrix_of (\<lambda>i j. foldl (\<lambda>x k. x XOR gmul (c ! ((j + 8 - k) mod 8)) (A ! i ! k)) 0 [0..<8])"

definition add_key :: "matrix \<Rightarrow> matrix \<Rightarrow> matrix" where
  "add_key K A = matrix_of (\<lambda>i j. A ! i ! j XOR K ! i ! j)"

definition whirl_round :: "(byte \<Rightarrow> byte) \<Rightarrow> byte list \<Rightarrow> matrix \<Rightarrow> matrix \<Rightarrow> matrix" where
  "whirl_round S c K A = add_key K (mix_rows c (shift_columns (sub_bytes S A)))"

definition round_const :: "(byte \<Rightarrow> byte) \<Rightarrow> nat \<Rightarrow> matrix" where
  "round_const S r = matrix_of (\<lambda>i j. if i = 0 then S (of_nat (8 * r + j)) else 0)"

definition whirl_cipher :: "(byte \<Rightarrow> byte) \<Rightarrow> byte list \<Rightarrow> matrix \<Rightarrow> matrix \<Rightarrow> matrix" where
  "whirl_cipher S c K A =
     snd (foldl (\<lambda>(K, A) r. let K = whirl_round S c (round_const S r) K in (K, whirl_round S c K A)) (K, add_key K A) [0..<10])"

definition block_matrix :: "bytes \<Rightarrow> matrix" where
  "block_matrix b = matrix_of (\<lambda>i j. b ! (8 * i + j))"

definition whirl_compress :: "(byte \<Rightarrow> byte) \<Rightarrow> byte list \<Rightarrow> matrix \<Rightarrow> bytes \<Rightarrow> matrix" where
  "whirl_compress S c H b = add_key (add_key (whirl_cipher S c H (block_matrix b)) (block_matrix b)) H"

definition whirl_pad :: "bytes \<Rightarrow> bytes" where
  "whirl_pad m =
     m @ 0x80 # replicate ((95 - length m mod 64) mod 64) 0 @ rev (le_enc 32 (of_nat (8 * length m) :: 256 word))"

definition whirlpool_spec :: "(byte \<Rightarrow> byte) \<Rightarrow> byte list \<Rightarrow> bytes \<Rightarrow> bytes" where
  "whirlpool_spec S c m = concat (fst (absorb_blocks 64 (whirl_compress S c) (replicate 8 (replicate 8 0)) (whirl_pad m)))"

text \<open>The S-boxes of the two versions.\<close>

definition list_sbox :: "int list \<Rightarrow> byte \<Rightarrow> byte" where
  "list_sbox L b = word_of_int (L ! unat b)"

definition whirlpool_sbox :: "byte \<Rightarrow> byte" where
  "whirlpool_sbox b = word_of_int (mini_sbox (uint b))"

definition whirlpool0_sbox :: "byte \<Rightarrow> byte" where
  "whirlpool0_sbox = list_sbox whirlpool0_S"

section \<open>Rows\<close>

lemma uint_gdouble: "uint (gdouble b) = idouble (uint b)"
proof -
  have u: "0 \<le> uint b" "uint b < 256" using uint_lt2p [of b] by simp_all
  have top: "bit b 7 \<longleftrightarrow> 128 \<le> uint b"
  proof -
    have "bit b 7 \<longleftrightarrow> bit (uint b) 7" by (simp add: bit_uint_iff)
    also have "\<dots> \<longleftrightarrow> odd (uint b div 128)" by (simp add: bit_iff_odd)
    also have "uint b div 128 = (if 128 \<le> uint b then 1 else 0)"
      using u by auto
    finally show ?thesis by simp
  qed
  have "uint (push_bit 1 b) = (2 * uint b) mod 256"
    by (simp add: push_bit_eq_mult uint_word_ariths mult.commute)
  also have "\<dots> = (if 128 \<le> uint b then 2 * uint b - 256 else 2 * uint b)"
  proof (cases "128 \<le> uint b")
    case True
    then show ?thesis using mod_pos_pos_trivial [of "2 * uint b - 256" 256] u by simp
  qed (use u in \<open>simp add: mod_pos_pos_trivial\<close>)
  finally show ?thesis
    by (simp add: gdouble_def idouble_def top uint_xor)
qed

lemma gdouble_0: "gdouble 0 = 0"
  by (simp add: gdouble_def)

lemma gmul_consts:
  "gmul 1 x = x" "gmul 2 x = gdouble x" "gmul 3 x = gdouble x XOR x" "gmul 4 x = gdouble (gdouble x)"
  "gmul 5 x = gdouble (gdouble x) XOR x" "gmul 8 x = gdouble (gdouble (gdouble x))" "gmul 9 x = gdouble (gdouble (gdouble x)) XOR x"
  by (simp_all add: gmul_def upt_0_8 gdouble_0)

lemma circ_bytes:
  "plain_bytes (uint s) = map uint (map (\<lambda>e. gmul e s) plain_circ)"
  "old_bytes (uint s) = map uint (map (\<lambda>e. gmul e s) old_circ)"
  by (simp_all add: plain_bytes_def old_bytes_def plain_circ_def old_circ_def gmul_consts [unfolded One_nat_def] uint_gdouble uint_xor Let_def)

lemma le_dec_uint: "(le_dec bs :: u64) = word_of_int (foldr (\<lambda>b r. b + 256 * r) (map uint bs) 0)"
proof (induction bs)
  case (Cons b bs)
  have "(le_dec (b # bs) :: u64) = ucast b + 256 * le_dec bs"
    by (simp only: le_dec_horner) (simp add: push_bit_eq_mult mult.commute)
  then show ?case by (simp add: Cons.IH)
qed simp

lemma irow_circ:
  assumes "f (uint s) = map uint (map (\<lambda>e. gmul e s) c)" and "length c = 8" and "k < 8"
  shows "irow f k (uint s) = le_dec (circ_row c k s)"
proof -
  have "rotate (8 - k) (map (\<lambda>e. gmul e s) c) = circ_row c k s"
    using assms(2,3) by (intro nth_equalityI) (simp_all add: circ_row_def nth_rotate add.commute)
  then show ?thesis by (simp only: irow_def assms(1) le_dec_uint rotate_map)
qed

section \<open>Rounds\<close>

text \<open>What the tables have to contain.\<close>

definition tables_ok :: "(byte \<Rightarrow> byte) \<Rightarrow> byte list \<Rightarrow> u64 list list \<Rightarrow> bool" where
  "tables_ok S c T \<longleftrightarrow> (\<forall>k < 8. \<forall>b. T ! k ! unat b = le_dec (circ_row c k (S b)))"

definition rows :: "matrix \<Rightarrow> bool" where
  "rows A \<longleftrightarrow> length A = 8 \<and> (\<forall>r \<in> set A. length r = 8)"

definition words :: "matrix \<Rightarrow> whirl_state" where
  "words A = map le_dec A"

lemma rows_matrix_of [simp]: "rows (matrix_of f)"
  by (auto simp: rows_def matrix_of_def)

lemma nth_matrix_of [simp]: "i < 8 \<Longrightarrow> matrix_of f ! i = map (f i) [0..<8]"
  by (simp add: matrix_of_def)

lemma le_dec_xor:
  assumes "length a = length b"
  shows "(le_dec (map2 (XOR) a b) :: 'a :: len word) = le_dec a XOR le_dec b"
  using assms by (intro bit_word_eqI) (auto simp: bit_le_dec bit_simps)

lemma words_matrix_of: "words (matrix_of f) = map (\<lambda>i. le_dec (map (f i) [0..<8])) [0..<8]"
  by (simp add: words_def matrix_of_def)

lemma nth_words [simp]: "rows A \<Longrightarrow> i < 8 \<Longrightarrow> words A ! i = le_dec (A ! i)"
  by (simp add: words_def rows_def)

lemma length_words [simp]: "rows A \<Longrightarrow> length (words A) = 8"
  by (simp add: words_def rows_def)

lemma rows_nth: "rows A \<Longrightarrow> i < 8 \<Longrightarrow> length (A ! i) = 8"
  by (simp add: rows_def)

lemma BYTE_le_dec:
  assumes "length r = 8" and "k < 8"
  shows "BYTE (le_dec r) k = unat (r ! k)"
proof -
  have "r ! k = le_enc 8 (le_dec r :: u64) ! k" using le_enc_le_dec [of r, where ?'a = 64] assms(1) by simp
  then have "r ! k = ucast (drop_bit (8 * k) (le_dec r :: u64))" using nth_le_enc [OF assms(2)] by simp
  moreover have "unat (w AND 0xFF) = unat (ucast w :: byte)" for w :: u64
    by (simp add: unsigned_ucast_eq unsigned_and_eq take_bit_eq_mask mask_eq_exp_minus_1)
  ultimately show ?thesis by (simp add: BYTE_def)
qed

lemma xor_rows:
  "foldl (\<lambda>x k. x XOR le_dec (map (g k) [0..<8])) (le_dec (map a [0..<8])) ks =
   (le_dec (map (\<lambda>j. foldl (\<lambda>x k. x XOR g k j) (a j) ks) [0..<8]) :: u64)"
proof (induction ks arbitrary: a)
  case (Cons k ks)
  have "(le_dec (map a [0..<8]) XOR le_dec (map (g k) [0..<8]) :: u64) = le_dec (map (\<lambda>j. a j XOR g k j) [0..<8])"
    using le_dec_xor [of "map a [0..<8]" "map (g k) [0..<8]", where ?'a = 64] by (simp add: map2_map_map del: upt_Suc)
  then show ?case using Cons.IH [of "\<lambda>j. a j XOR g k j"] by simp
qed simp

lemma le_dec_zeros: "le_dec (map (\<lambda>j. 0) xs) = 0"
  by (induction xs) simp_all

lemma ROUND_ELT_row:
  assumes "tables_ok S c T" and "rows A" and "set [i0, i1, i2, i3, i4, i5, i6, i7] \<subseteq> {..<8}"
  shows "ROUND_ELT T (words A) i0 i1 i2 i3 i4 i5 i6 i7 =
    le_dec (map (\<lambda>j. foldl (\<lambda>x k. x XOR gmul (c ! ((j + 8 - k) mod 8)) (S (A ! ([i0, i1, i2, i3, i4, i5, i6, i7] ! k) ! k))) 0 [0..<8]) [0..<8])"
proof -
  let ?is = "[i0, i1, i2, i3, i4, i5, i6, i7]"
  let ?row = "\<lambda>k i. le_dec (circ_row c k (S (A ! i ! k))) :: u64"
  have t: "T ! k ! BYTE (words A ! i) k = ?row k i" if "k < 8" "i < 8" for k i
    using assms(1,2) that BYTE_le_dec [OF rows_nth [OF assms(2) that(2)] that(1)] by (simp add: tables_ok_def)
  have lt: "i0 < 8" "i1 < 8" "i2 < 8" "i3 < 8" "i4 < 8" "i5 < 8" "i6 < 8" "i7 < 8" using assms(3) by simp_all
  have k: "0 < (8 :: nat)" "1 < (8 :: nat)" "2 < (8 :: nat)" "3 < (8 :: nat)" "4 < (8 :: nat)" "5 < (8 :: nat)" "6 < (8 :: nat)" "7 < (8 :: nat)"
    by simp_all
  have "ROUND_ELT T (words A) i0 i1 i2 i3 i4 i5 i6 i7 =
      ?row 0 i0 XOR ?row 1 i1 XOR ?row 2 i2 XOR ?row 3 i3 XOR ?row 4 i4 XOR ?row 5 i5 XOR ?row 6 i6 XOR ?row 7 i7"
    unfolding ROUND_ELT_def t [OF k(1) lt(1)] t [OF k(2) lt(2)] t [OF k(3) lt(3)] t [OF k(4) lt(4)]
      t [OF k(5) lt(5)] t [OF k(6) lt(6)] t [OF k(7) lt(7)] t [OF k(8) lt(8)] ..
  also have "\<dots> = foldl (\<lambda>x k. x XOR ?row k (?is ! k)) 0 [0, 1, 2, 3, 4, 5, 6, 7]"
    by (simp add: xor.assoc)
  also have "\<dots> = foldl (\<lambda>x k. x XOR ?row k (?is ! k)) (le_dec (map (\<lambda>j. 0) [0..<8])) [0..<8]"
    by (simp only: le_dec_zeros upt_0_8)
  finally show ?thesis by (simp only: circ_row_def xor_rows)
qed

lemma ROUND_spec:
  assumes "tables_ok S c T" and "rows A" and "rows K"
  shows "ROUND T (words A) (words K) = words (whirl_round S c K A)"
proof -
  let ?m = "\<lambda>i j. foldl (\<lambda>x k. x XOR gmul (c ! ((j + 8 - k) mod 8)) (S (A ! ((i + 8 - k) mod 8) ! k))) 0 [0..<8]"
  have elt: "ROUND_ELT T (words A) ((i + 8 - 0) mod 8) ((i + 8 - 1) mod 8) ((i + 8 - 2) mod 8) ((i + 8 - 3) mod 8) ((i + 8 - 4) mod 8) ((i + 8 - 5) mod 8) ((i + 8 - 6) mod 8) ((i + 8 - 7) mod 8) = le_dec (map (?m i) [0..<8])" for i
  proof -
    let ?is = "[(i + 8 - 0) mod 8, (i + 8 - 1) mod 8, (i + 8 - 2) mod 8, (i + 8 - 3) mod 8, (i + 8 - 4) mod 8, (i + 8 - 5) mod 8, (i + 8 - 6) mod 8, (i + 8 - 7) mod 8]"
    have "?is ! k = (i + 8 - k) mod 8" if "k < 8" for k
    proof -
      have "k \<in> {0, 1, 2, 3, 4, 5, 6, 7}" using that by auto
      then show ?thesis by auto
    qed
    then have "foldl (\<lambda>x k. x XOR gmul (c ! ((j + 8 - k) mod 8)) (S (A ! (?is ! k) ! k))) 0 [0..<8] = ?m i j" for j
      by (intro foldl_cong) simp_all
    then show ?thesis by (subst ROUND_ELT_row [OF assms(1,2)]) (simp_all del: upt_Suc)
  qed
  have row: "le_dec (map (?m i) [0..<8]) XOR words K ! i = words (whirl_round S c K A) ! i" if "i < 8" for i
  proof -
    have b: "shift_columns (sub_bytes S A) ! i ! k = S (A ! ((i + 8 - k) mod 8) ! k)" if "k < 8" for k
      using \<open>i < 8\<close> that by (simp add: shift_columns_def sub_bytes_def del: upt_Suc)
    have m: "mix_rows c (shift_columns (sub_bytes S A)) ! i ! j = ?m i j" if "j < 8" for j
    proof -
      have "mix_rows c (shift_columns (sub_bytes S A)) ! i ! j =
          foldl (\<lambda>x k. x XOR gmul (c ! ((j + 8 - k) mod 8)) (shift_columns (sub_bytes S A) ! i ! k)) 0 [0..<8]"
        using \<open>i < 8\<close> that by (simp add: mix_rows_def del: upt_Suc)
      also have "\<dots> = ?m i j" by (rule foldl_cong) (simp_all add: b)
      finally show ?thesis .
    qed
    have "whirl_round S c K A ! i = map2 (XOR) (map (?m i) [0..<8]) (K ! i)"
      using that rows_nth [OF assms(3) that]
      by (intro nth_equalityI) (simp_all add: whirl_round_def add_key_def m del: upt_Suc)
    then show ?thesis
      using that assms(3) rows_nth [OF assms(3) that] by (simp add: le_dec_xor whirl_round_def add_key_def del: upt_Suc)
  qed
  have full: "ROUND_ELT T (words A) ((i + 8 - 0) mod 8) ((i + 8 - 1) mod 8) ((i + 8 - 2) mod 8) ((i + 8 - 3) mod 8) ((i + 8 - 4) mod 8) ((i + 8 - 5) mod 8) ((i + 8 - 6) mod 8) ((i + 8 - 7) mod 8) XOR words K ! i = words (whirl_round S c K A) ! i" if "i < 8" for i
    unfolding elt using row [OF that] .
  have "ROUND T (words A) (words K) = map (\<lambda>i. words (whirl_round S c K A) ! i) [0, 1, 2, 3, 4, 5, 6, 7]"
    using full [of 0] full [of 1] full [of 2] full [of 3] full [of 4] full [of 5] full [of 6] full [of 7]
    by (simp add: ROUND_def)
  also have "\<dots> = words (whirl_round S c K A)"
    by (simp only: upt_0_8 [symmetric]) (simp add: whirl_round_def add_key_def map_nth [of "words (matrix_of f)" for f, simplified])
  finally show ?thesis .
qed

lemma rows_whirl_round [simp]: "rows (whirl_round S c K A)"
  by (simp add: whirl_round_def add_key_def)

lemma rows_add_key [simp]: "rows (add_key K A)"
  by (simp add: add_key_def)

lemma words_add_key:
  assumes "rows A" and "rows K"
  shows "words (add_key K A) = map (\<lambda>i. words A ! i XOR words K ! i) [0, 1, 2, 3, 4, 5, 6, 7]"
proof -
  have "words (add_key K A) ! i = words A ! i XOR words K ! i" if "i < 8" for i
  proof -
    have "add_key K A ! i = map2 (XOR) (A ! i) (K ! i)"
      using that rows_nth [OF assms(1) that] rows_nth [OF assms(2) that]
      by (intro nth_equalityI) (simp_all add: add_key_def del: upt_Suc)
    then show ?thesis using that assms rows_nth [OF assms(1) that] rows_nth [OF assms(2) that] by (simp add: le_dec_xor)
  qed
  then have "words (add_key K A) = map (\<lambda>i. words A ! i XOR words K ! i) [0..<8]"
    by (intro nth_equalityI) simp_all
  then show ?thesis by (simp only: upt_0_8)
qed

lemma words_block_matrix:
  assumes "length b = 64"
  shows "words (block_matrix b) = map (\<lambda>x. sph_dec64le_aligned host (drop (8 * x) b)) [0, 1, 2, 3, 4, 5, 6, 7]"
proof -
  have "map (\<lambda>j. b ! (8 * i + j)) [0..<8] = take 8 (drop (8 * i) b)" if "i < 8" for i
    using assms that by (intro nth_equalityI) simp_all
  then have "words (block_matrix b) = map (\<lambda>i. sph_dec64le_aligned host (drop (8 * i) b)) [0..<8]"
    using assms by (simp add: words_matrix_of block_matrix_def sph_decoders cong: map_cong)
  then show ?thesis by (simp only: upt_0_8)
qed

lemma rows_block_matrix [simp]: "rows (block_matrix b)"
  by (simp add: block_matrix_def)

lemma round_const_words:
  "words (round_const S r) = [le_dec (map (\<lambda>j. S (of_nat (8 * r + j))) [0..<8]), 0, 0, 0, 0, 0, 0, 0]"
proof -
  have "words (round_const S r) =
      map (\<lambda>i. if i = 0 then le_dec (map (\<lambda>j. S (of_nat (8 * r + j))) [0..<8]) else 0) [0..<8]"
    unfolding words_matrix_of round_const_def by (rule map_cong [OF refl]) (simp add: le_dec_zeros del: upt_Suc)
  then show ?thesis by (simp only: upt_0_8) simp
qed

definition constants_ok :: "(byte \<Rightarrow> byte) \<Rightarrow> u64 list \<Rightarrow> bool" where
  "constants_ok S RC \<longleftrightarrow> (\<forall>r < 10. RC ! r = le_dec (map (\<lambda>j. S (of_nat (8 * r + j))) [0..<8]))"

lemma eight_nth: "length v = 8 \<Longrightarrow> [v ! 0, v ! 1, v ! 2, v ! 3, v ! 4, v ! 5, v ! 6, v ! 7] = v"
  using map_nth [of v] by (simp add: upt_0_8 [of])

lemma ROUND_FUN_rounds:
  assumes "tables_ok S c T" and "constants_ok S RC" and "rows K" and "rows A"
  shows "n \<le> 10 \<Longrightarrow>
    foldl (\<lambda>(h, n) r. let h = ROUND_KSCHED T h (RC ! r); n = ROUND_WENC T n h in (h, n)) (words K, words A) [0..<n] =
    map_prod words words (foldl (\<lambda>(K, A) r. let K = whirl_round S c (round_const S r) K in (K, whirl_round S c K A)) (K, A) [0..<n])
    \<and> rows (fst (foldl (\<lambda>(K, A) r. let K = whirl_round S c (round_const S r) K in (K, whirl_round S c K A)) (K, A) [0..<n]))
    \<and> rows (snd (foldl (\<lambda>(K, A) r. let K = whirl_round S c (round_const S r) K in (K, whirl_round S c K A)) (K, A) [0..<n]))"
proof (induction n)
  case 0
  then show ?case using assms(3,4) by simp
next
  case (Suc n)
  let ?F = "foldl (\<lambda>(K, A) r. let K = whirl_round S c (round_const S r) K in (K, whirl_round S c K A)) (K, A) [0..<n]"
  obtain K' A' where KA: "?F = (K', A')" by fastforce
  have r: "rows K'" "rows A'" "rows (round_const S n)" using Suc KA by (simp_all add: round_const_def)
  have "ROUND_KSCHED T (words K') (RC ! n) = words (whirl_round S c (round_const S n) K')"
    using ROUND_spec [OF assms(1) r(1,3)] Suc.prems assms(2)
    by (simp add: ROUND_KSCHED_def round_const_words constants_ok_def)
  moreover have "ROUND_WENC T (words A') (words B) = words (whirl_round S c B A')" if "rows B" for B
    using ROUND_spec [OF assms(1) r(2) that] eight_nth [of "words B"] that by (simp add: ROUND_WENC_def)
  ultimately show ?case using Suc KA by (simp add: Let_def)
qed

lemma ROUND_FUN_spec:
  assumes "tables_ok S c T" and "constants_ok S RC" and "rows H" and "length b = 64"
  shows "ROUND_FUN T RC b (words H) = words (whirl_compress S c H b)" and "rows (whirl_compress S c H b)"
proof -
  let ?B = "block_matrix b" and ?X = "whirl_cipher S c H (block_matrix b)"
  have h: "map (\<lambda>x. words H ! x) [0, 1, 2, 3, 4, 5, 6, 7] = words H" using eight_nth [of "words H"] assms(3) by simp
  have n: "map (\<lambda>x. READ_DATA b ! x XOR words H ! x) [0, 1, 2, 3, 4, 5, 6, 7] = words (add_key H ?B)"
    using words_add_key [of ?B H] assms(3) words_block_matrix [OF assms(4)] by (simp add: READ_DATA_def)
  have rX: "rows ?X"
    using ROUND_FUN_rounds [OF assms(1,2,3), of "add_key H ?B" 10] by (simp add: whirl_cipher_def del: upt_Suc)
  have "ROUND_FUN T RC b (words H) = UPDATE_STATE b (words ?X) (words H)"
    unfolding ROUND_FUN_def Let_def h n
    using ROUND_FUN_rounds [OF assms(1,2,3), of "add_key H ?B" 10]
    by (simp add: Let_def whirl_cipher_def split_beta del: upt_Suc)
  also have "\<dots> = map (\<lambda>x. words H ! x XOR (words ?X ! x XOR words ?B ! x)) [0, 1, 2, 3, 4, 5, 6, 7]"
  proof -
    have "length (words H) = Suc (Suc (Suc (Suc (Suc (Suc (Suc (Suc 0)))))))" using assms(3) by simp
    then obtain a0 a1 a2 a3 a4 a5 a6 a7 where a: "words H = [a0, a1, a2, a3, a4, a5, a6, a7]"
      unfolding length_Suc_conv by auto
    show ?thesis by (simp add: UPDATE_STATE_def a words_block_matrix [OF assms(4)])
  qed
  also have "\<dots> = words (whirl_compress S c H b)"
    using words_add_key [of H "add_key ?X ?B"] words_add_key [of ?B ?X] assms(3) rX
    by (simp add: whirl_compress_def ac_simps)
  finally show "ROUND_FUN T RC b (words H) = words (whirl_compress S c H b)" .
  show "rows (whirl_compress S c H b)" by (simp add: whirl_compress_def)
qed

section \<open>One table instead of eight\<close>

lemma rotl_circ_row:
  assumes "k < 8"
  shows "word_rotl (8 * k) (le_dec (circ_row c 0 s) :: u64) = le_dec (circ_row c k s)"
proof (rule bit_word_eqI)
  fix i assume "i < LENGTH(64)"
  then have i: "i < 64" by simp
  define p where "p = (i + (64 - 8 * k)) mod 64"
  have p: "p div 8 = (i div 8 + 8 - k) mod 8" "p mod 8 = i mod 8" "p < 64"
  proof -
    have "p = 8 * ((i div 8 + 8 - k) mod 8) + i mod 8"
    proof -
      have "i + (64 - 8 * k) = 8 * (i div 8 + 8 - k) + i mod 8" using assms mult_div_mod_eq [of 8 i] by arith
      moreover have "(8 * x + y) mod 64 = 8 * (x mod 8) + y" if "y < 8" for x y :: nat
      proof -
        have "8 * x + y = (8 * (x mod 8) + y) + 64 * (x div 8)" using mult_div_mod_eq [of 8 x] by linarith
        then have "(8 * x + y) mod 64 = (8 * (x mod 8) + y) mod 64" by (simp only: mod_mult_self2)
        moreover have "8 * (x mod 8) + y < 64" using that mod_less_divisor [of 8 x] by linarith
        ultimately show ?thesis by simp
      qed
      ultimately show ?thesis by (simp add: p_def)
    qed
    then show "p div 8 = (i div 8 + 8 - k) mod 8" "p mod 8 = i mod 8" by simp_all
    show "p < 64" by (simp add: p_def)
  qed
  have "bit (word_rotl (8 * k) (le_dec (circ_row c 0 s) :: u64)) i = bit (le_dec (circ_row c 0 s) :: u64) p"
    using i assms by (simp add: bit_word_rotl_iff p_def)
  also have "\<dots> = bit (le_dec (circ_row c k s) :: u64) i"
    using i p div_less_iff_less_mult [of 8 i 8] by (simp add: bit_le_dec circ_row_def del: upt_Suc)
  finally show "bit (word_rotl (8 * k) (le_dec (circ_row c 0 s) :: u64)) i = bit (le_dec (circ_row c k s) :: u64) i" .
qed

lemma ROUND_ELT_small_eq:
  assumes "tables_ok S c T"
  shows "ROUND_ELT_small T v i0 i1 i2 i3 i4 i5 i6 i7 = ROUND_ELT T v i0 i1 i2 i3 i4 i5 i6 i7"
proof -
  have b: "\<exists>b :: byte. BYTE x k = unat b" for x k
  proof
    have "x AND 0xFF = take_bit 8 x" for x :: u64 by (simp add: take_bit_eq_mask mask_eq_exp_minus_1)
    then show "BYTE x k = unat (ucast (drop_bit (8 * k) x) :: byte)" by (simp add: BYTE_def unsigned_ucast_eq unsigned_take_bit_eq)
  qed
  have "table_skew (T ! 0 ! BYTE x k) k = T ! k ! BYTE x k" if "0 < k" "k < 8" for x k
    using b [of x k] assms that rotl_circ_row [of k]
    by (auto simp: table_skew_def SPH_ROTL_rotl tables_ok_def)
  note t = this
  show ?thesis unfolding ROUND_ELT_small_def ROUND_ELT_def by (simp add: t [simplified] t [of 1, simplified])
qed

lemma whirlpool_frame:
  "SPH_BLEN whirlpool_config = 64" "SPH_MAXPAD whirlpool_config = 32" "\<not> cfg_pw01 whirlpool_config"
  "md_length_field whirlpool_config c n = replicate 16 0 @ rev (le_enc 8 (drop_bit 61 c)) @ rev (le_enc 8 (push_bit 3 c + n))"
  by (simp_all add: SPH_BLEN_def SPH_MAXPAD_def SPH_WLEN_def md_word64_def whirlpool_config_def md_length_field_def sph_encoders)

lemma length_256_bits:
  assumes "n < 2 ^ 64"
  shows "le_enc 32 (of_nat (8 * n) :: 256 word) =
    le_enc 8 (push_bit 3 (of_nat n :: u64)) @ le_enc 8 (drop_bit 61 (of_nat n :: u64)) @ replicate 16 0"
proof (rule nth_equalityI)
  fix i assume "i < length (le_enc 32 (of_nat (8 * n) :: 256 word))"
  then have i: "i < 32" by simp
  have n: "k < 64" if "bit n k" for k
  proof (rule ccontr)
    assume "\<not> k < 64"
    then have "n div 2 ^ k = 0" using order.strict_trans2 [OF assms power_increasing [of 64 k 2]] by simp
    then show False using that by (simp add: bit_iff_odd)
  qed
  have w: "(of_nat (8 * n) :: 256 word) = push_bit 3 (of_nat n)" by (simp add: push_bit_eq_mult)
  have b: "bit (push_bit 3 (of_nat n) :: 256 word) k \<longleftrightarrow> 3 \<le> k \<and> k < 67 \<and> bit n (k - 3)" for k
    using n [of "k - 3"] by (auto simp: bit_simps)
  consider (low) "i < 8" | (mid) j where "i = 8 + j" "j < 8" | (high) j where "i = 16 + j" "j < 16"
    using i by (metis add_diff_inverse_nat less_diff_conv2 linorder_not_less numeral_Bit0 add_less_cancel_left)
  then show "le_enc 32 (of_nat (8 * n) :: 256 word) ! i =
      (le_enc 8 (push_bit 3 (of_nat n :: u64)) @ le_enc 8 (drop_bit 61 (of_nat n :: u64)) @ replicate 16 0) ! i"
  proof cases
    case low
    then show ?thesis unfolding w by (auto simp: nth_append nth_le_enc b bit_simps intro!: bit_word_eqI)
  next
    case mid
    have "bit n (8 * j + 61 + k) \<Longrightarrow> 8 * j + k < 3" for k using n [of "8 * j + 61 + k"] by force
    with mid show ?thesis unfolding w by (auto simp: nth_append nth_le_enc b bit_simps add.commute add.left_commute intro!: bit_word_eqI)
  next
    case high
    have "\<not> bit n (125 + (8 * j + k))" for k using n [of "125 + (8 * j + k)"] by auto
    with high show ?thesis unfolding w by (auto simp: nth_append nth_le_enc b bit_simps intro!: bit_word_eqI)
  qed
qed simp

interpretation whirl: md_hash whirlpool_config rfun for rfun :: "whirl_state rfun"
  by unfold_locales (auto simp: md_ok_def whirlpool_frame intro: exI [of _ 6])

lemma whirlpool_padding:
  assumes "length m < 2 ^ 64"
  shows "m @ whirl.padding (length m mod 64) (of_nat (length m)) 0 0 = whirl_pad m"
proof -
  have "(if l < 32 then 31 - l else 63 - l + 32) = (95 - l) mod 64" if "l < 64" for l :: nat
    using that by (auto simp: mod_if)
  then have z: "(if length m mod 64 < 32 then 31 - length m mod 64 else 63 - length m mod 64 + 32) = (95 - length m mod 64) mod 64"
    by simp
  show ?thesis
    unfolding whirl_pad_def z [symmetric] length_256_bits [OF assms]
    by (simp add: whirl.padding_def whirl.blen_def whirlpool_frame md_first_pad_byte_def)
qed

lemma whirlpool_digest:
  assumes "length (md_buf stack) = 64" and "tables_ok S c T" and "constants_ok S RC" and "length (concat chunks) < 2 ^ 64"
  shows "fst (MAKE_CLOSE (ROUND_FUN T RC) (foldl (md_update whirlpool_config (ROUND_FUN T RC)) (sph_whirlpool_init stack) chunks)) =
    whirlpool_spec S c (concat chunks)"
proof -
  let ?m = "concat chunks" and ?f = "ROUND_FUN T RC" and ?H0 = "replicate 8 (replicate 8 0)"
  define sc where "sc = foldl (md_update whirlpool_config ?f) (sph_whirlpool_init stack) chunks"
  have blen: "whirl.blen = 64" by (simp add: whirl.blen_def whirlpool_frame)
  have rows0: "rows ?H0" by (simp add: rows_def)
  have init: "md_val (sph_whirlpool_init stack) = words ?H0"
    by (simp add: sph_whirlpool_init_def words_def le_dec_zeros [of "[0..<8]", unfolded map_replicate_const, simplified])
  have "md_val (md_addbits whirlpool_config ?f sc 0 0) =
      fst (absorb_blocks 64 (\<lambda>v x. ?f x v) (words ?H0) (whirl_pad ?m))"
    using whirl.message_digest [of "sph_whirlpool_init stack" ?f chunks 0 0] assms(1) whirlpool_padding [OF assms(4)]
    by (simp add: sc_def blen whirl.inv_def whirl.step_def [abs_def] init [symmetric]) (simp add: sph_whirlpool_init_def)
  also have "\<dots> = words (fst (absorb_blocks 64 (whirl_compress S c) ?H0 (whirl_pad ?m)))"
    using absorb_blocks_image [of rows ?H0 64 "\<lambda>v x. ?f x v" words "whirl_compress S c" "whirl_pad ?m", OF rows0] ROUND_FUN_spec [OF assms(2,3)]
    by simp
  finally have v: "md_val (md_addbits whirlpool_config ?f sc 0 0) = words (fst (absorb_blocks 64 (whirl_compress S c) ?H0 (whirl_pad ?m)))" .
  let ?H = "fst (absorb_blocks 64 (whirl_compress S c) ?H0 (whirl_pad ?m))"
  have r: "rows ?H"
    by (rule absorb_blocks_inv [of rows]) (simp_all add: rows0 ROUND_FUN_spec(2) [OF assms(2,3)])
  have "map (\<lambda>i. sph_enc64le host (8 * i) (words ?H ! i)) [0..<8] = map (\<lambda>i. ?H ! i) [0..<8]"
  proof (rule map_cong [OF refl])
    fix i assume "i \<in> set [0..<8 :: nat]"
    then have "length (?H ! i) = 8" "words ?H ! i = le_dec (?H ! i)" using r by (simp_all add: rows_nth)
    then show "sph_enc64le host (8 * i) (words ?H ! i) = ?H ! i"
      using le_enc_le_dec [of "?H ! i", where ?'a = 64] by (simp add: sph_encoders)
  qed
  also have "\<dots> = ?H" using r map_nth [of ?H] by (simp add: rows_def)
  finally show ?thesis
    unfolding sc_def [symmetric] MAKE_CLOSE_def Let_def v whirlpool_spec_def by simp
qed

section \<open>The tables of the source\<close>

lemma tables_ok_rows:
  assumes T: "\<forall>k < 8. T ! k = map (irow f k) L" and L: "length L = 256" "list_all (\<lambda>s. 0 \<le> s \<and> s < 256) L"
    and f: "\<And>s. f (uint s) = map uint (map (\<lambda>e. gmul e s) c)" "length c = 8"
  shows "tables_ok (list_sbox L) c T"
proof -
  have "T ! k ! unat b = le_dec (circ_row c k (list_sbox L b))" if "k < 8" for k and b :: byte
  proof -
    have b: "unat b < length L" using unsigned_less [of b, where ?'a = nat] L(1) by simp
    then have "uint (list_sbox L b) = L ! unat b"
      using L(2) by (simp add: list_sbox_def list_all_length uint_word_of_int)
    then show ?thesis using irow_circ [of f "list_sbox L b" c k, OF f] that T b by simp
  qed
  then show ?thesis by (simp add: tables_ok_def)
qed

lemma constants_ok_rows:
  assumes RC: "RC = map (\<lambda>r. word_of_int (foldr (\<lambda>b a. b + 256 * a) (take 8 (drop (8 * r) L)) 0)) [0..<10]"
    and L: "length L = 256" "list_all (\<lambda>s. 0 \<le> s \<and> s < 256) L"
  shows "constants_ok (list_sbox L) RC"
proof -
  have "RC ! r = le_dec (map (\<lambda>j. list_sbox L (of_nat (8 * r + j))) [0..<8])" if "r < 10" for r
  proof -
    have "map uint (map (\<lambda>j. list_sbox L (of_nat (8 * r + j))) [0..<8]) = take 8 (drop (8 * r) L)"
    proof (rule nth_equalityI)
      fix j assume "j < length (map uint (map (\<lambda>j. list_sbox L (of_nat (8 * r + j))) [0..<8]))"
      then have j: "j < 8" by simp
      then have "unat (of_nat (8 * r + j) :: byte) = 8 * r + j" using that by (simp add: unat_of_nat del: of_nat_add of_nat_mult)
      moreover have "0 \<le> L ! (8 * r + j) \<and> L ! (8 * r + j) < 256" using j that L by (simp add: list_all_length)
      ultimately show "map uint (map (\<lambda>j. list_sbox L (of_nat (8 * r + j))) [0..<8]) ! j = take 8 (drop (8 * r) L) ! j"
        using j that L(1) by (simp add: list_sbox_def uint_word_of_int del: upt_Suc of_nat_add of_nat_mult)
    qed (use that L(1) in simp)
    then show ?thesis using that by (simp only: le_dec_uint) (simp add: RC del: upt_Suc)
  qed
  then show ?thesis by (simp add: constants_ok_def)
qed

lemma all_below_8: "(\<forall>k < 8 :: nat. P k) \<longleftrightarrow> P 0 \<and> P 1 \<and> P 2 \<and> P 3 \<and> P 4 \<and> P 5 \<and> P 6 \<and> P 7"
proof -
  have "(\<forall>k < 8. P k) \<longleftrightarrow> (\<forall>k \<in> set [0..<8]. P k)" by auto
  then show ?thesis by (simp only: upt_0_8) simp
qed

lemmas plain_rows = plain_T0_rows plain_T1_rows plain_T2_rows plain_T3_rows plain_T4_rows plain_T5_rows plain_T6_rows plain_T7_rows
lemmas old0_rows = old0_T0_rows old0_T1_rows old0_T2_rows old0_T3_rows old0_T4_rows old0_T5_rows old0_T6_rows old0_T7_rows
lemmas old1_rows = old1_T0_rows old1_T1_rows old1_T2_rows old1_T3_rows old1_T4_rows old1_T5_rows old1_T6_rows old1_T7_rows

lemma whirlpool_sbox_list: "whirlpool_sbox = list_sbox whirlpool_S"
proof
  fix b :: byte
  have "unat b < 256" using unsigned_less [of b, where ?'a = nat] by simp
  then have i: "0 + int (unat b) \<le> 255" "unat b < nat (255 - 0 + 1)" by linarith+
  have "[0..255] ! unat b = int (unat b)" using nth_upto [OF i(1)] by (simp only: add_0)
  moreover have "unat b < length [0..255]" using i(2) by (simp only: length_upto)
  ultimately have "map mini_sbox [0..255] ! unat b = mini_sbox (uint b)" by (simp only: nth_map uint_nat)
  then show "whirlpool_sbox b = list_sbox whirlpool_S b"
    by (simp only: whirlpool_sbox_def list_sbox_def whirlpool_S_mini)
qed

lemma plain_ok: "tables_ok whirlpool_sbox plain_circ plain_T" "constants_ok whirlpool_sbox plain_RC"
  unfolding whirlpool_sbox_list
  using constants_ok_rows [OF plain_RC_rows whirlpool_S_bytes] tables_ok_rows [of plain_T plain_bytes, OF _ whirlpool_S_bytes circ_bytes(1)]
  by (simp_all add: all_below_8 plain_T_def plain_rows [symmetric, unfolded One_nat_def] plain_circ_def)

lemma old0_ok: "tables_ok whirlpool0_sbox old_circ old0_T" "constants_ok whirlpool0_sbox old0_RC"
  unfolding whirlpool0_sbox_def
  using constants_ok_rows [OF old0_RC_rows whirlpool0_S_bytes] tables_ok_rows [of old0_T old_bytes, OF _ whirlpool0_S_bytes circ_bytes(2)]
  by (simp_all add: all_below_8 old0_T_def old0_rows [symmetric, unfolded One_nat_def] old_circ_def)

lemma old1_ok: "tables_ok whirlpool_sbox old_circ old1_T" "constants_ok whirlpool_sbox old1_RC"
  unfolding whirlpool_sbox_list
  using constants_ok_rows [OF old1_RC_rows whirlpool_S_bytes] tables_ok_rows [of old1_T old_bytes, OF _ whirlpool_S_bytes circ_bytes(2)]
  by (simp_all add: all_below_8 old1_T_def old1_rows [symmetric, unfolded One_nat_def] old_circ_def)

section \<open>Properties\<close>

text \<open>
  C12. WHIRLPOOL, its first version WHIRLPOOL-0 and WHIRLPOOL-1: a context initialised over any
  memory, any sequence of updates and a close give the hash of the concatenated message as
  it is specified, i.e. the Miyaguchi-Preneel construction over the block cipher with byte
  substitution, column shifts, multiplication with the circulant diffusion matrix of the version
  and key addition, on the message padded with its length in 256 bits. The byte count has 64 bits.
\<close>

theorem sph_whirlpool_streaming_correct:
  assumes "length (md_buf stack) = 64" and "length (concat chunks) < 2 ^ 64"
  shows "fst (sph_whirlpool_close (foldl sph_whirlpool (sph_whirlpool_init stack) chunks)) =
      whirlpool_spec whirlpool_sbox plain_circ (concat chunks)
    \<and> fst (sph_whirlpool0_close (foldl sph_whirlpool0 (sph_whirlpool_init stack) chunks)) =
      whirlpool_spec whirlpool0_sbox old_circ (concat chunks)
    \<and> fst (sph_whirlpool1_close (foldl sph_whirlpool1 (sph_whirlpool_init stack) chunks)) =
      whirlpool_spec whirlpool_sbox old_circ (concat chunks)"
  using whirlpool_digest [OF assms(1) plain_ok assms(2)] whirlpool_digest [OF assms(1) old0_ok assms(2)]
    whirlpool_digest [OF assms(1) old1_ok assms(2)]
  unfolding sph_whirlpool_close_def sph_whirlpool0_close_def sph_whirlpool1_close_def sph_whirlpool_def
    sph_whirlpool0_def sph_whirlpool1_def whirlpool_round_def whirlpool0_round_def whirlpool1_round_def
  by blast

theorem sph_whirlpool_streaming_correct_witness:
  "fst (sph_whirlpool_close (foldl sph_whirlpool
      (sph_whirlpool_init \<lparr>md_buf = replicate 64 9, md_val = [], md_count = 5\<rparr>) [[1], [2, 3]])) =
    whirlpool_spec whirlpool_sbox plain_circ [1, 2, 3]"
  using sph_whirlpool_streaming_correct [of "\<lparr>md_buf = replicate 64 9, md_val = [], md_count = 5\<rparr>" "[[1], [2, 3]]"]
  by simp

text \<open>
  C40. The small-footprint build of WHIRLPOOL, which keeps one table and rotates its entries,
  computes the same words of a round as the build with eight tables, for each of the three versions.
\<close>

theorem whirlpool_small_footprint:
  assumes "T \<in> {plain_T, old0_T, old1_T}"
  shows "ROUND_ELT_small T v i0 i1 i2 i3 i4 i5 i6 i7 = ROUND_ELT T v i0 i1 i2 i3 i4 i5 i6 i7"
  using assms ROUND_ELT_small_eq [OF plain_ok(1)] ROUND_ELT_small_eq [OF old0_ok(1)] ROUND_ELT_small_eq [OF old1_ok(1)]
  by auto

theorem whirlpool_small_footprint_witness:
  "ROUND_ELT_small old0_T [1, 2, 3, 4, 5, 6, 7, 8] 0 7 6 5 4 3 2 1 = ROUND_ELT old0_T [1, 2, 3, 4, 5, 6, 7, 8] 0 7 6 5 4 3 2 1"
  using whirlpool_small_footprint [of old0_T] by simp

end
