(* ===== verification/Sph_Blake.thy ===== *)
theory Sph_Blake
  imports Sph_Buffer Bit_Strings
begin

text \<open>
  BLAKE-224, BLAKE-256, BLAKE-384 and BLAKE-512 as in \<^verbatim>\<open>xmrig/crypto/ghostrider/sph_blake.c\<close>, in the build
  with unrolled rounds: the compression for both word sizes, the counter of message bits, the
  padding with extra bits and the entry points. The specification is on bit strings, once for both
  word sizes; the locale \<open>blake_variant\<close> holds what the proofs need of a word size.
\<close>

unbundle bit_operations_syntax

section \<open>Constants\<close>

definition blake_IV224 :: "u32 list" where
  "blake_IV224 = [0xC1059ED8, 0x367CD507, 0x3070DD17, 0xF70E5939, 0xFFC00B31, 0x68581511, 0x64F98FA7, 0xBEFA4FA4]"

definition blake_IV256 :: "u32 list" where
  "blake_IV256 = [0x6A09E667, 0xBB67AE85, 0x3C6EF372, 0xA54FF53A, 0x510E527F, 0x9B05688C, 0x1F83D9AB, 0x5BE0CD19]"

definition blake_IV384 :: "u64 list" where
  "blake_IV384 =
    [0xCBBB9D5DC1059ED8, 0x629A292A367CD507, 0x9159015A3070DD17, 0x152FECD8F70E5939,
     0x67332667FFC00B31, 0x8EB44A8768581511, 0xDB0C2E0D64F98FA7, 0x47B5481DBEFA4FA4]"

definition blake_IV512 :: "u64 list" where
  "blake_IV512 =
    [0x6A09E667F3BCC908, 0xBB67AE8584CAA73B, 0x3C6EF372FE94F82B, 0xA54FF53A5F1D36F1,
     0x510E527FADE682D1, 0x9B05688C2B3E6C1F, 0x1F83D9ABFB41BD6B, 0x5BE0CD19137E2179]"

text \<open>The macros \<^verbatim>\<open>Z00\<close> to \<^verbatim>\<open>Z9F\<close>, one list for each round.\<close>

definition blake_Z :: "nat list list" where
  "blake_Z =
    [[0, 1, 2, 3, 4, 5, 6, 7, 8, 9, 10, 11, 12, 13, 14, 15],
     [14, 10, 4, 8, 9, 15, 13, 6, 1, 12, 0, 2, 11, 7, 5, 3],
     [11, 8, 12, 0, 5, 2, 15, 13, 10, 14, 3, 6, 7, 1, 9, 4],
     [7, 9, 3, 1, 13, 12, 11, 14, 2, 6, 5, 10, 4, 0, 15, 8],
     [9, 0, 5, 7, 2, 4, 10, 15, 14, 1, 11, 12, 6, 8, 3, 13],
     [2, 12, 6, 10, 0, 11, 8, 3, 4, 13, 7, 5, 15, 14, 1, 9],
     [12, 5, 1, 15, 14, 13, 4, 10, 0, 7, 6, 3, 9, 2, 8, 11],
     [13, 11, 7, 14, 12, 1, 3, 9, 5, 0, 15, 4, 8, 6, 2, 10],
     [6, 15, 14, 9, 11, 3, 0, 8, 12, 2, 13, 7, 1, 4, 10, 5],
     [10, 2, 8, 4, 7, 6, 1, 5, 15, 11, 9, 14, 3, 12, 13, 0]]"

definition blake_CS :: "u32 list" where
  "blake_CS =
    [0x243F6A88, 0x85A308D3, 0x13198A2E, 0x03707344, 0xA4093822, 0x299F31D0, 0x082EFA98, 0xEC4E6C89,
     0x452821E6, 0x38D01377, 0xBE5466CF, 0x34E90C6C, 0xC0AC29B7, 0xC97C50DD, 0x3F84D5B5, 0xB5470917]"

definition blake_CB :: "u64 list" where
  "blake_CB =
    [0x243F6A8885A308D3, 0x13198A2E03707344, 0xA4093822299F31D0, 0x082EFA98EC4E6C89,
     0x452821E638D01377, 0xBE5466CF34E90C6C, 0xC0AC29B7C97C50DD, 0x3F84D5B5B5470917,
     0x9216D5D98979FB1B, 0xD1310BA698DFB5AC, 0x2FFD72DBD01ADFB7, 0xB8E1AFED6A267E96,
     0xBA7C9045F12C7F99, 0x24A19947B3916CF7, 0x0801F2E2858EFC16, 0x636920D871574E69]"

section \<open>Compression\<close>

definition GS :: "u32 \<Rightarrow> u32 \<Rightarrow> u32 \<Rightarrow> u32 \<Rightarrow> u32 \<times> u32 \<times> u32 \<times> u32 \<Rightarrow> u32 \<times> u32 \<times> u32 \<times> u32" where
  "GS m0 m1 c0 c1 = (\<lambda>(a, b, c, d).
     let a = a + b + (m0 XOR c1);
         d = SPH_ROTR32 (d XOR a) 16;
         c = c + d;
         b = SPH_ROTR32 (b XOR c) 12;
         a = a + b + (m1 XOR c0);
         d = SPH_ROTR32 (d XOR a) 8;
         c = c + d;
         b = SPH_ROTR32 (b XOR c) 7
     in (a, b, c, d))"

definition GB :: "u64 \<Rightarrow> u64 \<Rightarrow> u64 \<Rightarrow> u64 \<Rightarrow> u64 \<times> u64 \<times> u64 \<times> u64 \<Rightarrow> u64 \<times> u64 \<times> u64 \<times> u64" where
  "GB m0 m1 c0 c1 = (\<lambda>(a, b, c, d).
     let a = a + b + (m0 XOR c1);
         d = SPH_ROTR64 (d XOR a) 32;
         c = c + d;
         b = SPH_ROTR64 (b XOR c) 25;
         a = a + b + (m1 XOR c0);
         d = SPH_ROTR64 (d XOR a) 16;
         c = c + d;
         b = SPH_ROTR64 (b XOR c) 11
     in (a, b, c, d))"

text \<open>
  \<^verbatim>\<open>ROUND_S\<close> and \<^verbatim>\<open>ROUND_B\<close> differ in the quarter round and the constants only, so that they are one
  function of these; the variables \<^verbatim>\<open>V0\<close> to \<^verbatim>\<open>VF\<close> are a list.
\<close>

fun blake_ROUND ::
  "('w \<Rightarrow> 'w \<Rightarrow> 'w \<Rightarrow> 'w \<Rightarrow> 'w \<times> 'w \<times> 'w \<times> 'w \<Rightarrow> 'w \<times> 'w \<times> 'w \<times> 'w) \<Rightarrow> 'w list \<Rightarrow> 'w list \<Rightarrow> nat \<Rightarrow> 'w list \<Rightarrow> 'w list" where
  "blake_ROUND G C M r [V0, V1, V2, V3, V4, V5, V6, V7, V8, V9, VA, VB, VC, VD, VE, VF] =
     (let Mx = (\<lambda>i. M ! (blake_Z ! r ! i)); Cx = (\<lambda>i. C ! (blake_Z ! r ! i));
          (V0, V4, V8, VC) = G (Mx 0) (Mx 1) (Cx 0) (Cx 1) (V0, V4, V8, VC);
          (V1, V5, V9, VD) = G (Mx 2) (Mx 3) (Cx 2) (Cx 3) (V1, V5, V9, VD);
          (V2, V6, VA, VE) = G (Mx 4) (Mx 5) (Cx 4) (Cx 5) (V2, V6, VA, VE);
          (V3, V7, VB, VF) = G (Mx 6) (Mx 7) (Cx 6) (Cx 7) (V3, V7, VB, VF);
          (V0, V5, VA, VF) = G (Mx 8) (Mx 9) (Cx 8) (Cx 9) (V0, V5, VA, VF);
          (V1, V6, VB, VC) = G (Mx 10) (Mx 11) (Cx 10) (Cx 11) (V1, V6, VB, VC);
          (V2, V7, V8, VD) = G (Mx 12) (Mx 13) (Cx 12) (Cx 13) (V2, V7, V8, VD);
          (V3, V4, V9, VE) = G (Mx 14) (Mx 15) (Cx 14) (Cx 15) (V3, V4, V9, VE)
      in [V0, V1, V2, V3, V4, V5, V6, V7, V8, V9, VA, VB, VC, VD, VE, VF])"
| "blake_ROUND G C M r V = V"

record 'w blake_vars =
  bk_H :: "'w list"
  bk_S :: "'w list"
  bk_T0 :: 'w
  bk_T1 :: 'w

definition COMPRESS32 :: "bytes \<Rightarrow> u32 blake_vars \<Rightarrow> u32 blake_vars" where
  "COMPRESS32 buf st =
     (let H = bk_H st; S = bk_S st; T0 = bk_T0 st; T1 = bk_T1 st; CS = blake_CS;
          V = [H ! 0, H ! 1, H ! 2, H ! 3, H ! 4, H ! 5, H ! 6, H ! 7,
               S ! 0 XOR CS ! 0, S ! 1 XOR CS ! 1, S ! 2 XOR CS ! 2, S ! 3 XOR CS ! 3,
               T0 XOR CS ! 4, T0 XOR CS ! 5, T1 XOR CS ! 6, T1 XOR CS ! 7];
          M = map (\<lambda>i. sph_dec32be_aligned host (drop (4 * i) buf)) [0..<16];
          V = foldl (\<lambda>V r. blake_ROUND GS CS M r V) V [0, 1, 2, 3, 4, 5, 6, 7, 8, 9, 0, 1, 2, 3]
      in st\<lparr>bk_H := [H ! 0 XOR (S ! 0 XOR V ! 0 XOR V ! 8), H ! 1 XOR (S ! 1 XOR V ! 1 XOR V ! 9),
                     H ! 2 XOR (S ! 2 XOR V ! 2 XOR V ! 10), H ! 3 XOR (S ! 3 XOR V ! 3 XOR V ! 11),
                     H ! 4 XOR (S ! 0 XOR V ! 4 XOR V ! 12), H ! 5 XOR (S ! 1 XOR V ! 5 XOR V ! 13),
                     H ! 6 XOR (S ! 2 XOR V ! 6 XOR V ! 14), H ! 7 XOR (S ! 3 XOR V ! 7 XOR V ! 15)]\<rparr>)"

definition COMPRESS64 :: "bytes \<Rightarrow> u64 blake_vars \<Rightarrow> u64 blake_vars" where
  "COMPRESS64 buf st =
     (let H = bk_H st; S = bk_S st; T0 = bk_T0 st; T1 = bk_T1 st; CB = blake_CB;
          V = [H ! 0, H ! 1, H ! 2, H ! 3, H ! 4, H ! 5, H ! 6, H ! 7,
               S ! 0 XOR CB ! 0, S ! 1 XOR CB ! 1, S ! 2 XOR CB ! 2, S ! 3 XOR CB ! 3,
               T0 XOR CB ! 4, T0 XOR CB ! 5, T1 XOR CB ! 6, T1 XOR CB ! 7];
          M = map (\<lambda>i. sph_dec64be_aligned host (drop (8 * i) buf)) [0..<16];
          V = foldl (\<lambda>V r. blake_ROUND GB CB M r V) V [0, 1, 2, 3, 4, 5, 6, 7, 8, 9, 0, 1, 2, 3, 4, 5]
      in st\<lparr>bk_H := [H ! 0 XOR (S ! 0 XOR V ! 0 XOR V ! 8), H ! 1 XOR (S ! 1 XOR V ! 1 XOR V ! 9),
                     H ! 2 XOR (S ! 2 XOR V ! 2 XOR V ! 10), H ! 3 XOR (S ! 3 XOR V ! 3 XOR V ! 11),
                     H ! 4 XOR (S ! 0 XOR V ! 4 XOR V ! 12), H ! 5 XOR (S ! 1 XOR V ! 5 XOR V ! 13),
                     H ! 6 XOR (S ! 2 XOR V ! 6 XOR V ! 14), H ! 7 XOR (S ! 3 XOR V ! 7 XOR V ! 15)]\<rparr>)"

section \<open>Contexts\<close>

type_synonym blake_small_context = "u32 blake_vars sph_context"
type_synonym blake_big_context = "u64 blake_vars sph_context"

definition blake32_init :: "blake_small_context \<Rightarrow> u32 list \<Rightarrow> u32 list \<Rightarrow> blake_small_context" where
  "blake32_init sc iv salt = sc\<lparr>sc_state := \<lparr>bk_H = take 8 iv, bk_S = take 4 salt, bk_T0 = 0, bk_T1 = 0\<rparr>, sc_ptr := 0\<rparr>"

definition blake64_init :: "blake_big_context \<Rightarrow> u64 list \<Rightarrow> u64 list \<Rightarrow> blake_big_context" where
  "blake64_init sc iv salt = sc\<lparr>sc_state := \<lparr>bk_H = take 8 iv, bk_S = take 4 salt, bk_T0 = 0, bk_T1 = 0\<rparr>, sc_ptr := 0\<rparr>"

text \<open>A full buffer: the counter of message bits, then the compression.\<close>

definition blake32_block :: "bytes \<Rightarrow> u32 blake_vars \<Rightarrow> u32 blake_vars" where
  "blake32_block buf st =
     (let T0 = bk_T0 st + 512; T1 = (if T0 < 512 then bk_T1 st + 1 else bk_T1 st)
      in COMPRESS32 buf (st\<lparr>bk_T0 := T0, bk_T1 := T1\<rparr>))"

definition blake64_block :: "bytes \<Rightarrow> u64 blake_vars \<Rightarrow> u64 blake_vars" where
  "blake64_block buf st =
     (let T0 = bk_T0 st + 1024; T1 = (if T0 < 1024 then bk_T1 st + 1 else bk_T1 st)
      in COMPRESS64 buf (st\<lparr>bk_T0 := T0, bk_T1 := T1\<rparr>))"

definition blake32 :: "blake_small_context \<Rightarrow> bytes \<Rightarrow> blake_small_context" where
  "blake32 sc data = sph_core 64 blake32_block sc data"

definition blake64 :: "blake_big_context \<Rightarrow> bytes \<Rightarrow> blake_big_context" where
  "blake64 sc data = sph_core 128 blake64_block sc data"

text \<open>The closing routines; \<open>u\<close> is the uninitialised buffer on the stack.\<close>

definition blake32_close :: "blake_small_context \<Rightarrow> bytes \<Rightarrow> nat \<Rightarrow> nat \<Rightarrow> nat \<Rightarrow> bytes \<times> blake_small_context" where
  "blake32_close sc u ub n out_size_w32 =
     (let ptr = sc_ptr sc;
          bit_len = 8 * ptr + n;
          u = u[ptr := sph_pad_byte ub n];
          st = sc_state sc;
          tl = bk_T0 st + of_nat bit_len;
          th = bk_T1 st;
          st = (if ptr = 0 \<and> n = 0 then st\<lparr>bk_T0 := 0xFFFFFE00, bk_T1 := 0xFFFFFFFF\<rparr>
                else if bk_T0 st = 0 then st\<lparr>bk_T0 := 0xFFFFFE00 + of_nat bit_len, bk_T1 := bk_T1 st - 1\<rparr>
                else st\<lparr>bk_T0 := bk_T0 st - of_nat (512 - bit_len)\<rparr>);
          sc = sc\<lparr>sc_state := st\<rparr>;
          sc = (if bit_len \<le> 446
                then let u = memcpy_at u (ptr + 1) (replicate (55 - ptr) 0);
                         u = (if out_size_w32 = 8 then u[55 := u ! 55 OR 1] else u);
                         u = memcpy_at u 56 (sph_enc32be_aligned host th);
                         u = memcpy_at u 60 (sph_enc32be_aligned host tl)
                     in blake32 sc (take (64 - ptr) (drop ptr u))
                else let u = memcpy_at u (ptr + 1) (replicate (63 - ptr) 0);
                         sc = blake32 sc (take (64 - ptr) (drop ptr u));
                         sc = sc\<lparr>sc_state := (sc_state sc)\<lparr>bk_T0 := 0xFFFFFE00, bk_T1 := 0xFFFFFFFF\<rparr>\<rparr>;
                         u = memcpy_at u 0 (replicate 56 0);
                         u = (if out_size_w32 = 8 then u[55 := 1] else u);
                         u = memcpy_at u 56 (sph_enc32be_aligned host th);
                         u = memcpy_at u 60 (sph_enc32be_aligned host tl)
                     in blake32 sc (take 64 u))
      in (concat (map (\<lambda>k. sph_enc32be host (4 * k) (bk_H (sc_state sc) ! k)) [0..<out_size_w32]), sc))"

definition blake64_close :: "blake_big_context \<Rightarrow> bytes \<Rightarrow> nat \<Rightarrow> nat \<Rightarrow> nat \<Rightarrow> bytes \<times> blake_big_context" where
  "blake64_close sc u ub n out_size_w64 =
     (let ptr = sc_ptr sc;
          bit_len = 8 * ptr + n;
          u = u[ptr := sph_pad_byte ub n];
          st = sc_state sc;
          tl = bk_T0 st + of_nat bit_len;
          th = bk_T1 st;
          st = (if ptr = 0 \<and> n = 0 then st\<lparr>bk_T0 := 0xFFFFFFFFFFFFFC00, bk_T1 := 0xFFFFFFFFFFFFFFFF\<rparr>
                else if bk_T0 st = 0 then st\<lparr>bk_T0 := 0xFFFFFFFFFFFFFC00 + of_nat bit_len, bk_T1 := bk_T1 st - 1\<rparr>
                else st\<lparr>bk_T0 := bk_T0 st - of_nat (1024 - bit_len)\<rparr>);
          sc = sc\<lparr>sc_state := st\<rparr>;
          sc = (if bit_len \<le> 894
                then let u = memcpy_at u (ptr + 1) (replicate (111 - ptr) 0);
                         u = (if out_size_w64 = 8 then u[111 := u ! 111 OR 1] else u);
                         u = memcpy_at u 112 (sph_enc64be_aligned host th);
                         u = memcpy_at u 120 (sph_enc64be_aligned host tl)
                     in blake64 sc (take (128 - ptr) (drop ptr u))
                else let u = memcpy_at u (ptr + 1) (replicate (127 - ptr) 0);
                         sc = blake64 sc (take (128 - ptr) (drop ptr u));
                         sc = sc\<lparr>sc_state := (sc_state sc)\<lparr>bk_T0 := 0xFFFFFFFFFFFFFC00, bk_T1 := 0xFFFFFFFFFFFFFFFF\<rparr>\<rparr>;
                         u = memcpy_at u 0 (replicate 112 0);
                         u = (if out_size_w64 = 8 then u[111 := 1] else u);
                         u = memcpy_at u 112 (sph_enc64be_aligned host th);
                         u = memcpy_at u 120 (sph_enc64be_aligned host tl)
                     in blake64 sc (take 128 u))
      in (concat (map (\<lambda>k. sph_enc64be host (8 * k) (bk_H (sc_state sc) ! k)) [0..<out_size_w64]), sc))"

definition salt_zero_small :: "u32 list" where
  "salt_zero_small = [0, 0, 0, 0]"

definition salt_zero_big :: "u64 list" where
  "salt_zero_big = [0, 0, 0, 0]"

definition sph_blake224_init :: "blake_small_context \<Rightarrow> blake_small_context" where
  "sph_blake224_init cc = blake32_init cc blake_IV224 salt_zero_small"

definition sph_blake224 :: "blake_small_context \<Rightarrow> bytes \<Rightarrow> blake_small_context" where
  "sph_blake224 cc data = blake32 cc data"

definition sph_blake224_addbits_and_close :: "blake_small_context \<Rightarrow> bytes \<Rightarrow> nat \<Rightarrow> nat \<Rightarrow> bytes \<times> blake_small_context" where
  "sph_blake224_addbits_and_close cc u ub n = blake32_close cc u ub n 7"

definition sph_blake224_close :: "blake_small_context \<Rightarrow> bytes \<Rightarrow> bytes \<times> blake_small_context" where
  "sph_blake224_close cc u = sph_blake224_addbits_and_close cc u 0 0"

definition sph_blake256_init :: "blake_small_context \<Rightarrow> blake_small_context" where
  "sph_blake256_init cc = blake32_init cc blake_IV256 salt_zero_small"

definition sph_blake256 :: "blake_small_context \<Rightarrow> bytes \<Rightarrow> blake_small_context" where
  "sph_blake256 cc data = blake32 cc data"

definition sph_blake256_addbits_and_close :: "blake_small_context \<Rightarrow> bytes \<Rightarrow> nat \<Rightarrow> nat \<Rightarrow> bytes \<times> blake_small_context" where
  "sph_blake256_addbits_and_close cc u ub n = blake32_close cc u ub n 8"

definition sph_blake256_close :: "blake_small_context \<Rightarrow> bytes \<Rightarrow> bytes \<times> blake_small_context" where
  "sph_blake256_close cc u = sph_blake256_addbits_and_close cc u 0 0"

definition sph_blake384_init :: "blake_big_context \<Rightarrow> blake_big_context" where
  "sph_blake384_init cc = blake64_init cc blake_IV384 salt_zero_big"

definition sph_blake384 :: "blake_big_context \<Rightarrow> bytes \<Rightarrow> blake_big_context" where
  "sph_blake384 cc data = blake64 cc data"

definition sph_blake384_addbits_and_close :: "blake_big_context \<Rightarrow> bytes \<Rightarrow> nat \<Rightarrow> nat \<Rightarrow> bytes \<times> blake_big_context" where
  "sph_blake384_addbits_and_close cc u ub n = blake64_close cc u ub n 6"

definition sph_blake384_close :: "blake_big_context \<Rightarrow> bytes \<Rightarrow> bytes \<times> blake_big_context" where
  "sph_blake384_close cc u = sph_blake384_addbits_and_close cc u 0 0"

definition sph_blake512_init :: "blake_big_context \<Rightarrow> blake_big_context" where
  "sph_blake512_init cc = blake64_init cc blake_IV512 salt_zero_big"

definition sph_blake512 :: "blake_big_context \<Rightarrow> bytes \<Rightarrow> blake_big_context" where
  "sph_blake512 cc data = blake64 cc data"

definition sph_blake512_addbits_and_close :: "blake_big_context \<Rightarrow> bytes \<Rightarrow> nat \<Rightarrow> nat \<Rightarrow> bytes \<times> blake_big_context" where
  "sph_blake512_addbits_and_close cc u ub n = blake64_close cc u ub n 8"

definition sph_blake512_close :: "blake_big_context \<Rightarrow> bytes \<Rightarrow> bytes \<times> blake_big_context" where
  "sph_blake512_close cc u = sph_blake512_addbits_and_close cc u 0 0"

section \<open>Specification\<close>

text \<open>
  BLAKE for words of \<open>w\<close> bytes, with the rotation distances, the constants and the number of rounds as
  parameters: blocks of sixteen words, the quarter round on the columns and the diagonals of the
  state, message words combined with constants along the permutation of the round.
\<close>

definition bspec_g :: "nat \<times> nat \<times> nat \<times> nat \<Rightarrow> 'a::len word \<Rightarrow> 'a word \<Rightarrow> 'a word \<times> 'a word \<times> 'a word \<times> 'a word \<Rightarrow> 'a word \<times> 'a word \<times> 'a word \<times> 'a word" where
  "bspec_g rot x y = (\<lambda>(a, b, c, d). case rot of (r1, r2, r3, r4) \<Rightarrow>
     let a1 = a + b + x; d1 = word_rotr r1 (d XOR a1); c1 = c + d1; b1 = word_rotr r2 (b XOR c1);
         a2 = a1 + b1 + y; d2 = word_rotr r3 (d1 XOR a2); c2 = c1 + d2; b2 = word_rotr r4 (b1 XOR c2)
     in (a2, b2, c2, d2))"

definition bspec_at :: "nat \<times> nat \<times> nat \<times> nat \<Rightarrow> 'a::len word list \<Rightarrow> nat list \<Rightarrow> 'a word \<times> 'a word \<Rightarrow> 'a word list" where
  "bspec_at rot v ix = (\<lambda>(x, y).
     let (a, b, c, d) = bspec_g rot x y (v ! (ix ! 0), v ! (ix ! 1), v ! (ix ! 2), v ! (ix ! 3))
     in v[ix ! 0 := a, ix ! 1 := b, ix ! 2 := c, ix ! 3 := d])"

definition bspec_round :: "nat \<times> nat \<times> nat \<times> nat \<Rightarrow> ('a::len word \<times> 'a word) list \<Rightarrow> 'a word list \<Rightarrow> 'a word list" where
  "bspec_round rot xs v =
     foldl (\<lambda>v (ix, x). bspec_at rot v ix x) v
       (zip [[0, 4, 8, 12], [1, 5, 9, 13], [2, 6, 10, 14], [3, 7, 11, 15],
             [0, 5, 10, 15], [1, 6, 11, 12], [2, 7, 8, 13], [3, 4, 9, 14]] xs)"

definition bspec_words :: "'a::len word list \<Rightarrow> nat \<Rightarrow> 'a word list \<Rightarrow> ('a word \<times> 'a word) list" where
  "bspec_words C r m =
     (let p = blake_Z ! (r mod 10)
      in map (\<lambda>k. (m ! (p ! (2 * k)) XOR C ! (p ! (2 * k + 1)), m ! (p ! (2 * k + 1)) XOR C ! (p ! (2 * k)))) [0..<8])"

definition bspec_compress ::
  "nat \<times> nat \<times> nat \<times> nat \<Rightarrow> 'a::len word list \<Rightarrow> nat \<Rightarrow> nat \<Rightarrow> 'a word list \<Rightarrow> 'a word list \<Rightarrow> bytes \<Rightarrow> 'a word \<Rightarrow> 'a word \<Rightarrow> 'a word list" where
  "bspec_compress rot C rounds w h s block t0 t1 =
     (let m = map (\<lambda>i. le_dec (rev (take w (drop (w * i) block)))) [0..<16];
          v = foldl (\<lambda>v r. bspec_round rot (bspec_words C r m) v)
                (h @ map2 (XOR) s (take 4 C) @ map2 (XOR) [t0, t0, t1, t1] (take 4 (drop 4 C))) [0..<rounds]
      in map (\<lambda>i. h ! i XOR s ! (i mod 4) XOR v ! i XOR v ! (i + 8)) [0..<8])"

text \<open>
  Padding of a bit string: a one, the least number of zeros, the bit that tells the longer
  digest of a word size from the shorter one, and the length in two words. The counter of a
  block is the number of message bits up to its end, or zero when the block has none.
\<close>

definition bspec_length :: "nat \<Rightarrow> nat \<Rightarrow> bytes" where
  "bspec_length w L = map (\<lambda>i. of_nat (L div 256 ^ (2 * w - 1 - i))) [0..<2 * w]"

definition bspec_pad :: "nat \<Rightarrow> bool \<Rightarrow> bool list \<Rightarrow> bool list" where
  "bspec_pad w full M =
     M @ True # replicate ((256 * w - (16 * w + 2) - length M mod (128 * w)) mod (128 * w)) False @
     full # bits_of_bytes (bspec_length w (length M))"

definition bspec_counter :: "nat \<Rightarrow> nat \<Rightarrow> nat \<Rightarrow> nat" where
  "bspec_counter w L i = (if L \<le> 128 * w * i then 0 else min L (128 * w * (i + 1)))"

definition bspec_chain ::
  "('a::len word list \<Rightarrow> 'a word list \<Rightarrow> bytes \<Rightarrow> 'a word \<Rightarrow> 'a word \<Rightarrow> 'a word list) \<Rightarrow> (nat \<Rightarrow> nat) \<Rightarrow> 'a word list \<Rightarrow>
   'a word list \<times> nat \<Rightarrow> bytes \<Rightarrow> 'a word list \<times> nat" where
  "bspec_chain F t s = (\<lambda>(h, i) block. (F h s block (of_nat (t i)) (of_nat (t i div 2 ^ LENGTH('a))), i + 1))"

definition bspec_hash ::
  "('a::len word list \<Rightarrow> 'a word list \<Rightarrow> bytes \<Rightarrow> 'a word \<Rightarrow> 'a word \<Rightarrow> 'a word list) \<Rightarrow> nat \<Rightarrow> 'a word list \<Rightarrow> 'a word list \<Rightarrow> nat \<Rightarrow>
   bool list \<Rightarrow> bytes" where
  "bspec_hash F w s iv k M =
     concat (map (\<lambda>x. rev (le_enc w x)) (take k (fst (fst
       (absorb_blocks (16 * w) (bspec_chain F (bspec_counter w (length M)) s) (iv, 0)
         (bytes_of_bits (bspec_pad w (k = 8) M)))))))"

definition comp32 :: "u32 list \<Rightarrow> u32 list \<Rightarrow> bytes \<Rightarrow> u32 \<Rightarrow> u32 \<Rightarrow> u32 list" where
  "comp32 = bspec_compress (16, 12, 8, 7) blake_CS 14 4"

definition comp64 :: "u64 list \<Rightarrow> u64 list \<Rightarrow> bytes \<Rightarrow> u64 \<Rightarrow> u64 \<Rightarrow> u64 list" where
  "comp64 = bspec_compress (32, 25, 16, 11) blake_CB 16 8"

section \<open>The compression\<close>

lemma GS_spec: "GS m0 m1 c0 c1 = bspec_g (16, 12, 8, 7) (m0 XOR c1) (m1 XOR c0)"
  by (simp add: fun_eq_iff GS_def bspec_g_def SPH_ROTR_rotr Let_def)

lemma GB_spec: "GB m0 m1 c0 c1 = bspec_g (32, 25, 16, 11) (m0 XOR c1) (m1 XOR c0)"
  by (simp add: fun_eq_iff GB_def bspec_g_def SPH_ROTR_rotr Let_def)

lemma blake_ROUND_spec:
  assumes "length V = 16" and "r < 10" and "\<And>m0 m1 c0 c1. G m0 m1 c0 c1 = bspec_g rot (m0 XOR c1) (m1 XOR c0)"
  shows "blake_ROUND G C M r V = bspec_round rot (bspec_words C r M) V"
proof -
  obtain v0 v1 v2 v3 v4 v5 v6 v7 v8 v9 va vb vc vd ve vf
    where V: "V = [v0, v1, v2, v3, v4, v5, v6, v7, v8, v9, va, vb, vc, vd, ve, vf]"
    using assms(1) by (rule list16_cases)
  have x: "bspec_words C r M = map (\<lambda>k. (M ! (blake_Z ! r ! (2 * k)) XOR C ! (blake_Z ! r ! (2 * k + 1)),
      M ! (blake_Z ! r ! (2 * k + 1)) XOR C ! (blake_Z ! r ! (2 * k)))) [0, 1, 2, 3, 4, 5, 6, 7]"
    using assms(2) by (simp add: bspec_words_def Let_def upt_rec)
  show ?thesis
    unfolding V x bspec_round_def by (simp add: assms(3) bspec_at_def split_beta Let_def)
qed


lemma length_bspec_round [simp]: "length (bspec_round rot xs v) = length v"
proof -
  have "length (foldl (\<lambda>v (ix, x). bspec_at rot v ix x) v ys) = length v" for ys
    by (induction ys arbitrary: v) (simp_all add: bspec_at_def split_beta Let_def)
  then show ?thesis by (simp add: bspec_round_def)
qed

lemma blake_rounds_spec:
  assumes "length V = 16" and "\<forall>r \<in> set rs. r < 10" and "\<And>m0 m1 c0 c1. G m0 m1 c0 c1 = bspec_g rot (m0 XOR c1) (m1 XOR c0)"
  shows "foldl (\<lambda>V r. blake_ROUND G C M r V) V rs = foldl (\<lambda>v r. bspec_round rot (bspec_words C r M) v) V rs"
  using assms(1,2)
  by (induction rs arbitrary: V) (simp_all add: blake_ROUND_spec assms(3))

lemma bspec_words_mod: "bspec_words C (r mod 10) m = bspec_words C r m"
  by (simp add: bspec_words_def)

lemma rounds_cycle:
  "foldl (\<lambda>v r. bspec_round rot (bspec_words C r m) v) v (map (\<lambda>r. r mod 10) rs) =
   foldl (\<lambda>v r. bspec_round rot (bspec_words C r m) v) v rs"
  by (induction rs arbitrary: v) (simp_all add: bspec_words_mod)

lemma round_lists:
  "[0, 1, 2, 3, 4, 5, 6, 7, 8, 9, 0, 1, 2, 3] = map (\<lambda>r. r mod 10) [0..<14 :: nat]"
  "[0, 1, 2, 3, 4, 5, 6, 7, 8, 9, 0, 1, 2, 3, 4, 5] = map (\<lambda>r. r mod 10) [0..<16 :: nat]"
  by code_simp+

lemma feedback:
  fixes h :: "'a::len word list"
  assumes "length h = 8" and "length s = 4"
  shows "[h ! 0 XOR (s ! 0 XOR v ! 0 XOR v ! 8), h ! 1 XOR (s ! 1 XOR v ! 1 XOR v ! 9),
      h ! 2 XOR (s ! 2 XOR v ! 2 XOR v ! 10), h ! 3 XOR (s ! 3 XOR v ! 3 XOR v ! 11),
      h ! 4 XOR (s ! 0 XOR v ! 4 XOR v ! 12), h ! 5 XOR (s ! 1 XOR v ! 5 XOR v ! 13),
      h ! 6 XOR (s ! 2 XOR v ! 6 XOR v ! 14), h ! 7 XOR (s ! 3 XOR v ! 7 XOR v ! 15)] =
    map (\<lambda>i. h ! i XOR s ! (i mod 4) XOR v ! i XOR v ! (i + 8)) [0..<8]"
  by (simp only: upt_0_8) (simp add: xor.assoc)

lemma initial_vars:
  fixes h :: "'a::len word list"
  assumes "length h = 8" and "length s = 4" and "8 \<le> length C"
  shows "[h ! 0, h ! 1, h ! 2, h ! 3, h ! 4, h ! 5, h ! 6, h ! 7,
       s ! 0 XOR C ! 0, s ! 1 XOR C ! 1, s ! 2 XOR C ! 2, s ! 3 XOR C ! 3,
       t0 XOR C ! 4, t0 XOR C ! 5, t1 XOR C ! 6, t1 XOR C ! 7] =
    h @ map2 (XOR) s (take 4 C) @ map2 (XOR) [t0, t0, t1, t1] (take 4 (drop 4 C))"
proof -
  have h: "[h ! 0, h ! 1, h ! 2, h ! 3, h ! 4, h ! 5, h ! 6, h ! 7] = h"
    using map_nth [of h] unfolding assms(1) upt_0_8 by simp
  have s: "map2 (XOR) s (take 4 C) = [s ! 0 XOR C ! 0, s ! 1 XOR C ! 1, s ! 2 XOR C ! 2, s ! 3 XOR C ! 3]"
    using assms(2,3) by (intro nth_equalityI) (auto simp: less_Suc_eq numeral_eq_Suc)
  have t: "map2 (XOR) [t0, t0, t1, t1] (take 4 (drop 4 C)) = [t0 XOR C ! 4, t0 XOR C ! 5, t1 XOR C ! 6, t1 XOR C ! 7]"
    using assms(3) by (intro nth_equalityI) (auto simp: less_Suc_eq numeral_eq_Suc)
  show ?thesis unfolding s t by (subst h [symmetric]) simp
qed

lemma message_words:
  "length block = 64 \<Longrightarrow> map (\<lambda>i. sph_dec32be_aligned host (drop (4 * i) block)) [0..<16] =
     map (\<lambda>i. le_dec (rev (take 4 (drop (4 * i) block)))) [0..<16]"
  "length block = 128 \<Longrightarrow> map (\<lambda>i. sph_dec64be_aligned host (drop (8 * i) block)) [0..<16] =
     map (\<lambda>i. le_dec (rev (take 8 (drop (8 * i) block)))) [0..<16]"
  by (rule map_cong [OF refl], simp add: sph_decoders)+

lemma COMPRESS32_spec:
  assumes "length (bk_H st) = 8" and "length (bk_S st) = 4" and "length block = 64"
  shows "COMPRESS32 block st = st\<lparr>bk_H := comp32 (bk_H st) (bk_S st) block (bk_T0 st) (bk_T1 st)\<rparr>"
proof -
  have C: "8 \<le> length blake_CS" by (simp add: blake_CS_def)
  have l: "length (bk_H st @ map2 (XOR) (bk_S st) (take 4 blake_CS) @
      map2 (XOR) [bk_T0 st, bk_T0 st, bk_T1 st, bk_T1 st] (take 4 (drop 4 blake_CS))) = 16"
    using assms(1,2) C by simp
  have rounds: "foldl (\<lambda>V r. blake_ROUND GS blake_CS M r V) V [0, 1, 2, 3, 4, 5, 6, 7, 8, 9, 0, 1, 2, 3] =
      foldl (\<lambda>v r. bspec_round (16, 12, 8, 7) (bspec_words blake_CS r M) v) V [0..<14]" if "length V = 16" for M V
    unfolding rounds_cycle [of _ _ _ _ "[0..<14]", symmetric] round_lists [symmetric]
    using that by (intro blake_rounds_spec) (simp_all add: GS_spec)
  show ?thesis
    unfolding COMPRESS32_def Let_def message_words(1) [OF assms(3)] feedback [OF assms(1,2)]
      initial_vars [OF assms(1,2) C] rounds [OF l]
    by (simp only: comp32_def bspec_compress_def Let_def)
qed

lemma COMPRESS64_spec:
  assumes "length (bk_H st) = 8" and "length (bk_S st) = 4" and "length block = 128"
  shows "COMPRESS64 block st = st\<lparr>bk_H := comp64 (bk_H st) (bk_S st) block (bk_T0 st) (bk_T1 st)\<rparr>"
proof -
  have C: "8 \<le> length blake_CB" by (simp add: blake_CB_def)
  have l: "length (bk_H st @ map2 (XOR) (bk_S st) (take 4 blake_CB) @
      map2 (XOR) [bk_T0 st, bk_T0 st, bk_T1 st, bk_T1 st] (take 4 (drop 4 blake_CB))) = 16"
    using assms(1,2) C by simp
  have rounds: "foldl (\<lambda>V r. blake_ROUND GB blake_CB M r V) V [0, 1, 2, 3, 4, 5, 6, 7, 8, 9, 0, 1, 2, 3, 4, 5] =
      foldl (\<lambda>v r. bspec_round (32, 25, 16, 11) (bspec_words blake_CB r M) v) V [0..<16]" if "length V = 16" for M V
    unfolding rounds_cycle [of _ _ _ _ "[0..<16]", symmetric] round_lists [symmetric]
    using that by (intro blake_rounds_spec) (simp_all add: GB_spec)
  show ?thesis
    unfolding COMPRESS64_def Let_def message_words(2) [OF assms(3)] feedback [OF assms(1,2)]
      initial_vars [OF assms(1,2) C] rounds [OF l]
    by (simp only: comp64_def bspec_compress_def Let_def)
qed

section \<open>Counters and chaining\<close>

lemma bspec_chain_index:
  assumes "0 < B"
  shows "snd (fst (absorb_blocks B (bspec_chain F t s) (h, i) xs)) = i + length xs div B"
  using assms
proof (induction "length xs" arbitrary: h i xs rule: less_induct)
  case less
  show ?case
  proof (cases "length xs < B")
    case False
    then have "length (drop B xs) < length xs" "length xs div B = Suc (length (drop B xs) div B)"
      using less.prems by (auto simp: le_div_geq)
    then show ?thesis
      using less.hyps [of "drop B xs"] less.prems False
      by (simp add: absorb_blocks.simps [of B _ _ xs] bspec_chain_def)
  qed simp
qed

lemma bspec_chain_cong:
  assumes "0 < B" and "\<And>j. i \<le> j \<Longrightarrow> j < i + length xs div B \<Longrightarrow> t j = t' j"
  shows "absorb_blocks B (bspec_chain F t s) (h, i) xs = absorb_blocks B (bspec_chain F t' s) (h, i) xs"
  using assms
proof (induction "length xs" arbitrary: h i xs rule: less_induct)
  case less
  show ?case
  proof (cases "length xs < B")
    case False
    then have d: "length (drop B xs) < length xs" "length xs div B = Suc (length (drop B xs) div B)"
      using less.prems(1) by (auto simp: le_div_geq)
    have "absorb_blocks B (bspec_chain F t s) (h', Suc i) (drop B xs) = absorb_blocks B (bspec_chain F t' s) (h', Suc i) (drop B xs)" for h'
      using d less.prems by (intro less.hyps) simp_all
    moreover have "t i = t' i" using less.prems(2) [of i] d(2) by simp
    ultimately show ?thesis
      using less.prems(1) False by (simp add: absorb_blocks.simps [of B _ _ xs] bspec_chain_def)
  qed simp
qed

text \<open>
  The word counter: adding a block to a multiple of the block length carries into the high
  word exactly when the low word becomes zero.
\<close>

lemma block_carry:
  fixes N Bl c :: nat
  assumes "Bl dvd N" and "Bl dvd c" and "0 < Bl" and "Bl < N"
  shows "(c + Bl) div N = c div N + (if (c + Bl) mod N < Bl then 1 else 0)"
proof -
  define d where "d = c mod N"
  have "Bl dvd d" using assms(1,2) by (simp add: d_def dvd_mod)
  have "d < N" using assms(4) by (simp add: d_def)
  then have "Bl \<le> N - d" using \<open>Bl dvd d\<close> assms(1) by (intro dvd_imp_le dvd_diff_nat) simp_all
  then have le: "d + Bl \<le> N" using \<open>d < N\<close> by simp
  have c: "c + Bl = (d + Bl) + N * (c div N)" by (simp add: d_def)
  show ?thesis
  proof (cases "d + Bl = N")
    case True
    then show ?thesis using assms(3,4) unfolding c by simp
  next
    case False
    then have "d + Bl < N" using le by simp
    then show ?thesis using assms(3,4) unfolding c by simp
  qed
qed

lemma no_carry:
  fixes N Bl c b :: nat
  assumes "Bl dvd N" and "Bl dvd c" and "b < Bl" and "0 < N"
  shows "(c + b) div N = c div N" and "(c + b) mod N = c mod N + b"
proof -
  define d where "d = c mod N"
  have "Bl dvd d" using assms(1,2) by (simp add: d_def dvd_mod)
  have "d < N" using assms(4) by (simp add: d_def)
  then have "Bl \<le> N - d" using \<open>Bl dvd d\<close> assms(1) by (intro dvd_imp_le dvd_diff_nat) simp_all
  then have l: "d + b < N" using \<open>d < N\<close> assms(3) by simp
  have c: "c + b = (d + b) + N * (c div N)" by (simp add: d_def)
  show "(c + b) div N = c div N" unfolding c using l by simp
  show "(c + b) mod N = c mod N + b" using l c by (metis d_def mod_less mod_mult_self2)
qed

section \<open>Closing\<close>

text \<open>The counter a closing routine leaves for the compression of the last message bits.\<close>

definition close_vars :: "nat \<Rightarrow> nat \<Rightarrow> 'a::len word blake_vars \<Rightarrow> 'a word blake_vars" where
  "close_vars Bl bl st =
     (if bl = 0 then st\<lparr>bk_T0 := - of_nat Bl, bk_T1 := - 1\<rparr>
      else if bk_T0 st = 0 then st\<lparr>bk_T0 := - of_nat Bl + of_nat bl, bk_T1 := bk_T1 st - 1\<rparr>
      else st\<lparr>bk_T0 := bk_T0 st - of_nat (Bl - bl)\<rparr>)"

locale blake_variant =
  fixes w Bl :: nat and blk :: "bytes \<Rightarrow> 'a::len word blake_vars \<Rightarrow> 'a word blake_vars"
    and F :: "'a word list \<Rightarrow> 'a word list \<Rightarrow> bytes \<Rightarrow> 'a word \<Rightarrow> 'a word \<Rightarrow> 'a word list"
  assumes width: "LENGTH('a) = 8 * w" and Bl: "Bl = 128 * w" and block_bits: "Bl dvd 2 ^ LENGTH('a)" "Bl < 2 ^ LENGTH('a)"
    and F_length: "length (F h s b t0 t1) = 8"
    and blk: "length (bk_H st) = 8 \<Longrightarrow> length (bk_S st) = 4 \<Longrightarrow> length b = 16 * w \<Longrightarrow>
      T0 = bk_T0 st + of_nat Bl \<Longrightarrow> T1 = (if T0 < of_nat Bl then bk_T1 st + 1 else bk_T1 st) \<Longrightarrow>
      blk b st = st\<lparr>bk_H := F (bk_H st) (bk_S st) b T0 T1, bk_T0 := T0, bk_T1 := T1\<rparr>"
begin

lemma w_pos [simp]: "0 < w"
  using width len_gt_0 [where ?'a = 'a] by (cases w) simp_all

lemma Bl_pos [simp]: "0 < Bl"
  by (simp add: Bl)

definition vars :: "'a word list \<Rightarrow> 'a word list \<Rightarrow> nat \<Rightarrow> 'a word blake_vars" where
  "vars h s c = \<lparr>bk_H = h, bk_S = s, bk_T0 = of_nat c, bk_T1 = of_nat (c div 2 ^ LENGTH('a))\<rparr>"

definition out :: "'a word list \<Rightarrow> 'a word list \<Rightarrow> bytes \<Rightarrow> nat \<Rightarrow> 'a word list" where
  "out h s b c = F h s b (of_nat c) (of_nat (c div 2 ^ LENGTH('a)))"

lemma less_Bl: "(of_nat n :: 'a word) < of_nat Bl \<longleftrightarrow> n mod 2 ^ LENGTH('a) < Bl"
  using block_bits(2) by (simp add: word_less_nat_alt unat_of_nat)

lemma blk_vars:
  assumes "length h = 8" and "length s = 4" and "length b = 16 * w" and "Bl dvd c"
  shows "blk b (vars h s c) = vars (out h s b (c + Bl)) s (c + Bl)"
proof -
  have carry: "(if (of_nat (c + Bl) :: 'a word) < of_nat Bl then of_nat (c div 2 ^ LENGTH('a)) + 1 else of_nat (c div 2 ^ LENGTH('a))) =
      (of_nat ((c + Bl) div 2 ^ LENGTH('a)) :: 'a word)"
    unfolding less_Bl using block_carry [OF block_bits(1) assms(4) _ block_bits(2)] by simp
  have "blk b (vars h s c) = (vars h s c)\<lparr>bk_H := F (bk_H (vars h s c)) (bk_S (vars h s c)) b (of_nat (c + Bl)) (of_nat ((c + Bl) div 2 ^ LENGTH('a))),
      bk_T0 := of_nat (c + Bl), bk_T1 := of_nat ((c + Bl) div 2 ^ LENGTH('a))\<rparr>"
    by (rule blk) (simp_all only: vars_def carry [symmetric] blake_vars.select_convs assms(1-3) of_nat_add)
  then show ?thesis by (simp add: vars_def out_def)
qed

lemma blk_zero:
  assumes "length (bk_H st) = 8" and "length (bk_S st) = 4" and "length b = 16 * w"
  shows "blk b (st\<lparr>bk_T0 := - of_nat Bl, bk_T1 := - 1\<rparr>) = vars (out (bk_H st) (bk_S st) b 0) (bk_S st) 0"
proof -
  have "(0 :: 'a word) < of_nat Bl" using less_Bl [of 0] by simp
  then show ?thesis
    using assms blk [of "st\<lparr>bk_T0 := - of_nat Bl, bk_T1 := - 1\<rparr>" b 0 0] by (simp add: vars_def out_def)
qed

lemma blk_close:
  assumes "length h = 8" and "length s = 4" and "length b = 16 * w" and "Bl dvd c" and "bl < Bl"
  shows "blk b (close_vars Bl bl (vars h s c)) = (if bl = 0 then vars (out h s b 0) s 0 else vars (out h s b (c + bl)) s (c + bl))"
proof (cases "bl = 0")
  case True
  then show ?thesis using blk_zero [of "vars h s c" b] assms(1-3) by (simp add: close_vars_def) (simp add: vars_def)
next
  case False
  let ?T0 = "of_nat (c + bl) :: 'a word" and ?T1 = "of_nat ((c + bl) div 2 ^ LENGTH('a)) :: 'a word"
  note nc = no_carry [OF block_bits(1) assms(4,5)]
  have t1: "?T1 = of_nat (c div 2 ^ LENGTH('a))" using nc by simp
  have z: "of_nat c = (0 :: 'a word) \<longleftrightarrow> c mod 2 ^ LENGTH('a) = 0" by (simp add: word_of_nat_eq_0_iff dvd_eq_mod_eq_0)
  have lt: "?T0 < of_nat Bl \<longleftrightarrow> c mod 2 ^ LENGTH('a) = 0"
  proof -
    have "Bl dvd c mod 2 ^ LENGTH('a)" using block_bits(1) assms(4) by (simp add: dvd_mod)
    then have "c mod 2 ^ LENGTH('a) = 0 \<or> Bl \<le> c mod 2 ^ LENGTH('a)" using dvd_imp_le by blast
    then show ?thesis unfolding less_Bl using nc(2) assms(5) by auto
  qed
  have "blk b (close_vars Bl bl (vars h s c)) = vars (out h s b (c + bl)) s (c + bl)"
  proof (cases "of_nat c = (0 :: 'a word)")
    case zero: True
    let ?st = "(vars h s c)\<lparr>bk_T0 := - of_nat Bl + of_nat bl, bk_T1 := of_nat (c div 2 ^ LENGTH('a)) - 1\<rparr>"
    have "?T0 = - of_nat Bl + of_nat bl + of_nat Bl" using zero by simp
    then show ?thesis
      using zero z lt False assms(1-3) blk [of ?st b ?T0 ?T1] by (simp add: close_vars_def vars_def out_def t1)
  next
    case nonzero: False
    let ?st = "(vars h s c)\<lparr>bk_T0 := of_nat c - of_nat (Bl - bl)\<rparr>"
    have "(of_nat (Bl - bl) :: 'a word) = of_nat Bl - of_nat bl" using assms(5) by (simp add: of_nat_diff)
    then show ?thesis
      using nonzero z lt False assms(1-3) blk [of ?st b ?T0 ?T1] by (simp add: close_vars_def vars_def out_def t1)
  qed
  then show ?thesis using False by simp
qed

end

definition close_fill :: "nat \<Rightarrow> byte \<Rightarrow> byte \<Rightarrow> nat \<Rightarrow> bytes" where
  "close_fill w p fin l = (if l = 14 * w - 1 then [p OR fin] else p # replicate (14 * w - 2 - l) 0 @ [fin])"

definition blake_finish ::
  "nat \<Rightarrow> nat \<Rightarrow> (bytes \<Rightarrow> 'a::len word blake_vars \<Rightarrow> 'a word blake_vars) \<Rightarrow> 'a word blake_vars \<times> bytes \<Rightarrow> nat \<Rightarrow> nat \<Rightarrow> bool \<Rightarrow> 'a word blake_vars" where
  "blake_finish w Bl blk v ub n full =
     (let (st, r) = v; bl = 8 * length r + n; p = sph_pad_byte ub n; fin = of_bool full;
          L = rev (le_enc w (bk_T1 st)) @ rev (le_enc w (bk_T0 st + of_nat bl));
          st1 = close_vars Bl bl st
      in if bl \<le> 112 * w - 2 then blk (r @ close_fill w p fin (length r) @ L) st1
         else blk (replicate (14 * w - 1) 0 @ fin # L)
                ((blk (r @ p # replicate (16 * w - 1 - length r) 0) st1)\<lparr>bk_T0 := - of_nat Bl, bk_T1 := - 1\<rparr>))"

section \<open>Padding\<close>

lemma final_bit_bits:
  "bits_of_byte (of_bool full) = replicate 7 False @ [full]"
  "n < 7 \<Longrightarrow> bits_of_byte (sph_pad_byte ub n OR of_bool full) =
     take n (bits_of_byte (of_nat ub)) @ True # replicate (6 - n) False @ [full]"
proof -
  show "bits_of_byte (of_bool full) = replicate 7 False @ [full]"
    by (cases full) (simp_all add: bits_of_byte_def numeral_eq_Suc)
  show "bits_of_byte (sph_pad_byte ub n OR of_bool full) =
     take n (bits_of_byte (of_nat ub)) @ True # replicate (6 - n) False @ [full]" if "n < 7"
  proof -
    have "n \<in> {0, 1, 2, 3, 4, 5, 6}" using that by auto
    then show ?thesis
      by (cases full) (auto simp: bits_of_byte_def bit_or_iff bit_pad_byte numeral_eq_Suc)
  qed
qed

lemma bspec_pad_bytes:
  assumes "n < 8" and "0 < w" and l: "l = length m mod (16 * w)"
  shows "bytes_of_bits (bspec_pad w full (bits_of_bytes m @ take n (bits_of_byte (of_nat ub)))) =
    m @ (if 8 * l + n \<le> 112 * w - 2 then close_fill w (sph_pad_byte ub n) (of_bool full) l
         else sph_pad_byte ub n # replicate (16 * w - 1 - l) 0 @ replicate (14 * w - 1) 0 @ [of_bool full]) @
    bspec_length w (8 * length m + n)"
proof -
  let ?M = "bits_of_bytes m @ take n (bits_of_byte (of_nat ub))" and ?p = "sph_pad_byte ub n"
  let ?fill = "if 8 * l + n \<le> 112 * w - 2 then close_fill w ?p (of_bool full) l
         else ?p # replicate (16 * w - 1 - l) 0 @ replicate (14 * w - 1) 0 @ [of_bool full]"
  define Z where "Z = (256 * w - (16 * w + 2) - length ?M mod (128 * w)) mod (128 * w)"
  have len: "length ?M = 8 * length m + n" using assms(1) by (simp add: bits_of_byte_def)
  have l16: "l < 16 * w" using assms(2) by (simp add: l)
  have "8 * length m + n = (8 * l + n) + 128 * w * (length m div (16 * w))"
    using mult_div_mod_eq [of "16 * w" "length m"] unfolding l by (simp add: algebra_simps)
  then have "length ?M mod (128 * w) = (8 * l + n) mod (128 * w)" by (simp only: len mod_mult_self2)
  moreover have "8 * l + n < 128 * w" using l16 assms(1) by simp
  ultimately have M: "length ?M mod (128 * w) = 8 * l + n" by simp
  have "bits_of_bytes ?fill = take n (bits_of_byte (of_nat ub)) @ True # replicate Z False @ [full]"
  proof (cases "8 * l + n \<le> 112 * w - 2")
    case True
    have Z: "Z = 112 * w - 2 - (8 * l + n)"
    proof -
      have "256 * w - (16 * w + 2) - (8 * l + n) = (112 * w - 2 - (8 * l + n)) + 128 * w * 1" using True assms(2) by simp
      then show ?thesis unfolding Z_def M by (simp only: mod_mult_self2) (use assms(2) in simp)
    qed
    show ?thesis
    proof (cases "l = 14 * w - 1")
      case last: True
      then have "n < 7" "Z = 6 - n" using True Z assms(2) by auto
      then show ?thesis using True last by (simp add: close_fill_def bits_of_bytes_def final_bit_bits(2))
    next
      case False
      then have "Z = (7 - n) + 8 * (14 * w - 2 - l) + 7" using True Z assms(1) by simp
      then have "replicate Z False = replicate (7 - n) False @ replicate (8 * (14 * w - 2 - l)) False @ replicate 7 False"
        by (simp only: replicate_add append_assoc)
      then show ?thesis
        using True False assms(1) bits_of_zero_bytes [of "14 * w - 2 - l"]
        by (simp add: close_fill_def bits_of_bytes_def final_bit_bits(1) pad_byte_bits)
    qed
  next
    case False
    have "Z = 240 * w - 2 - (8 * l + n)" unfolding Z_def M using False assms(2) by (simp add: mod_if)
    also have "\<dots> = (7 - n) + 8 * (16 * w - 1 - l) + 8 * (14 * w - 1) + 7" using l16 assms(1,2) by simp
    finally have "replicate Z False = replicate (7 - n) False @ replicate (8 * (16 * w - 1 - l)) False @
        replicate (8 * (14 * w - 1)) False @ replicate 7 False"
      by (simp only: replicate_add append_assoc)
    then show ?thesis
      using False assms(1) bits_of_zero_bytes [of "16 * w - 1 - l"] bits_of_zero_bytes [of "14 * w - 1"]
      by (simp add: bits_of_bytes_def final_bit_bits(1) pad_byte_bits)
  qed
  then have "bspec_pad w full ?M = bits_of_bytes (m @ ?fill @ bspec_length w (8 * length m + n))"
    unfolding bspec_pad_def Z_def [symmetric] unfolding len bits_of_bytes_append by simp
  then show ?thesis by (simp only: bytes_of_bits_of_bytes)
qed

context blake_variant
begin

lemma byte_of_word:
  assumes "k + 8 \<le> LENGTH('a)"
  shows "ucast (drop_bit k (of_nat L :: 'a word)) = (of_nat (L div 2 ^ k) :: byte)"
  using assms by (intro bit_word_eqI) (auto simp: bit_simps drop_bit_eq_div [symmetric])

lemma length_field:
  "rev (le_enc w (of_nat (L div 2 ^ LENGTH('a)) :: 'a word)) @ rev (le_enc w (of_nat L :: 'a word)) = bspec_length w L"
proof (rule nth_equalityI)
  fix i assume "i < length (rev (le_enc w (of_nat (L div 2 ^ LENGTH('a)) :: 'a word)) @ rev (le_enc w (of_nat L :: 'a word)))"
  then have i: "i < 2 * w" by simp
  have pow: "(256 :: nat) ^ e = 2 ^ (8 * e)" for e by (simp add: power_mult)
  show "(rev (le_enc w (of_nat (L div 2 ^ LENGTH('a)) :: 'a word)) @ rev (le_enc w (of_nat L :: 'a word))) ! i = bspec_length w L ! i"
  proof (cases "i < w")
    case True
    have "L div 2 ^ LENGTH('a) div 2 ^ (8 * (w - 1 - i)) = L div 2 ^ (8 * (2 * w - 1 - i))"
      using True by (simp add: div_mult2_eq [symmetric] power_add [symmetric] width algebra_simps)
    then show ?thesis
      using True i by (simp add: nth_append rev_nth nth_le_enc byte_of_word width bspec_length_def pow)
  next
    case False
    then have "w - Suc (i - w) = 2 * w - 1 - i" using i by simp
    then show ?thesis
      using False i by (simp add: nth_append rev_nth nth_le_enc byte_of_word width bspec_length_def pow)
  qed
qed (simp add: bspec_length_def)

lemma length_out [simp]: "length (out h s b c) = 8"
  by (simp add: out_def F_length)

lemma chain_out: "bspec_chain F t s (h, i) b = (out h s b (t i), i + 1)"
  by (simp add: bspec_chain_def out_def)

lemma message_chain:
  assumes "length iv = 8" and "length s = 4"
    and "\<And>j. j < length m div (16 * w) \<Longrightarrow> t j = Bl * (j + 1)"
  shows "\<exists>h r. absorb_blocks (16 * w) (\<lambda>st b. blk b st) (vars iv s 0) m = (vars h s (Bl * (length m div (16 * w))), r)
    \<and> absorb_blocks (16 * w) (bspec_chain F t s) (iv, 0) m = ((h, length m div (16 * w)), r) \<and> length h = 8"
proof -
  let ?t = "\<lambda>j. Bl * (j + 1)" and ?P = "\<lambda>x. length (fst x) = 8" and ?h = "\<lambda>(h, i). vars h s (Bl * i)"
  obtain h i r where a: "absorb_blocks (16 * w) (bspec_chain F ?t s) (iv, 0) m = ((h, i), r)" by (metis prod.exhaust)
  have i: "i = length m div (16 * w)" using bspec_chain_index [of "16 * w" F ?t s iv 0 m] a by simp
  have img: "absorb_blocks (16 * w) (\<lambda>st b. blk b st) (?h (iv, 0)) m = apfst ?h (absorb_blocks (16 * w) (bspec_chain F ?t s) (iv, 0) m)"
  proof (rule absorb_blocks_image [of ?P])
    fix x :: "'a word list \<times> nat" and b :: bytes assume "?P x" "length b = 16 * w"
    then show "blk b (?h x) = ?h (bspec_chain F ?t s x b) \<and> ?P (bspec_chain F ?t s x b)"
      using blk_vars [of "fst x" s b "Bl * snd x"] assms(2) by (cases x) (simp add: chain_out algebra_simps)
  qed (simp add: assms(1))
  have "absorb_blocks (16 * w) (\<lambda>st b. blk b st) (vars iv s 0) m = (vars h s (Bl * i), r)"
    using img unfolding a by simp
  moreover have "length h = 8"
    using absorb_blocks_inv [of ?P "(iv, 0)" "16 * w" "bspec_chain F ?t s" m] assms(1) a by (auto simp: chain_out)
  moreover have "absorb_blocks (16 * w) (bspec_chain F t s) (iv, 0) m = ((h, i), r)"
    using bspec_chain_cong [of "16 * w" 0 m t ?t F s iv] assms(3) a by simp
  ultimately show ?thesis by (auto simp: i)
qed

lemma finish_digest:
  assumes "length iv = 8" and "length s = 4" and "n < 8"
  shows "bk_H (blake_finish w Bl blk (absorb_blocks (16 * w) (\<lambda>st b. blk b st) (vars iv s 0) m) ub n full) =
    fst (fst (absorb_blocks (16 * w) (bspec_chain F (bspec_counter w (8 * length m + n)) s) (iv, 0)
      (bytes_of_bits (bspec_pad w full (bits_of_bytes m @ take n (bits_of_byte (of_nat ub)))))))"
proof -
  let ?B = "16 * w" and ?k = "length m div (16 * w)" and ?p = "sph_pad_byte ub n" and ?fin = "of_bool full :: byte"
  let ?L = "8 * length m + n" and ?t = "bspec_counter w (8 * length m + n)"
  define l where "l = length m mod ?B"
  define bl where "bl = 8 * l + n"
  have l: "l < ?B" by (simp add: l_def)
  have L: "?L = Bl * ?k + bl"
    using mult_div_mod_eq [of ?B "length m"] unfolding bl_def l_def Bl by (simp add: algebra_simps)
  have bl: "bl < Bl" using l assms(3) by (simp add: bl_def Bl)
  have t: "?t j = Bl * (j + 1)" if "j < ?k" for j
  proof -
    have "Bl * (j + 1) \<le> Bl * ?k" using that by (intro mult_le_mono2) simp
    then have "Bl * (j + 1) \<le> ?L" "Bl * j < ?L" using L Bl_pos by (simp_all only: L distrib_left)
    then show ?thesis by (simp add: bspec_counter_def Bl)
  qed
  have tk: "?t ?k = (if bl = 0 then 0 else Bl * ?k + bl)" "?t (?k + 1) = 0"
    unfolding bspec_counter_def Bl [symmetric] unfolding L using bl by auto
  obtain h r where h: "absorb_blocks ?B (\<lambda>st b. blk b st) (vars iv s 0) m = (vars h s (Bl * ?k), r)"
    "absorb_blocks ?B (bspec_chain F ?t s) (iv, 0) m = ((h, ?k), r)" "length h = 8"
    using message_chain [OF assms(1,2), of m ?t] t by blast
  have r: "length r = l" using absorb_blocks_rest [OF _ h(2)] by (simp add: l_def)
  define LF where "LF = bspec_length w ?L"
  have LF: "length LF = 2 * w" by (simp add: LF_def bspec_length_def)
  have lf: "rev (le_enc w (bk_T1 (vars h s (Bl * ?k)))) @ rev (le_enc w (bk_T0 (vars h s (Bl * ?k)) + of_nat bl)) = LF"
    using length_field [of ?L] no_carry(1) [OF block_bits(1) _ bl, of "Bl * ?k"] unfolding LF_def L by (simp add: vars_def)
  define P where "P = (if bl \<le> 112 * w - 2 then close_fill w ?p ?fin l
         else ?p # replicate (16 * w - 1 - l) 0 @ replicate (14 * w - 1) 0 @ [?fin]) @ LF"
  have pad: "bytes_of_bits (bspec_pad w full (bits_of_bytes m @ take n (bits_of_byte (of_nat ub)))) = m @ P"
    using bspec_pad_bytes [OF assms(3) w_pos l_def, of full ub] by (simp add: P_def bl_def LF_def)
  have spec: "absorb_blocks ?B (bspec_chain F ?t s) (iv, 0) (m @ P) = absorb_blocks ?B (bspec_chain F ?t s) (h, ?k) (r @ P)"
    using absorb_blocks_append [OF _ h(2)] by simp
  have "bk_H (blake_finish w Bl blk (vars h s (Bl * ?k), r) ub n full) =
      fst (fst (absorb_blocks ?B (bspec_chain F ?t s) (h, ?k) (r @ P)))"
  proof (cases "bl \<le> 112 * w - 2")
    case True
    have len: "length (r @ P) = ?B" using True r LF l w_pos unfolding P_def bl_def close_fill_def by (auto simp del: w_pos)
    have "absorb_blocks ?B (bspec_chain F ?t s) (h, ?k) (r @ P) = ((out h s (r @ P) (?t ?k), ?k + 1), [])"
      using absorb_blocks_step [OF _ len, of "bspec_chain F ?t s" "(h, ?k)" "[]"] by (simp add: chain_out)
    moreover have "blake_finish w Bl blk (vars h s (Bl * ?k), r) ub n full = blk (r @ P) (close_vars Bl bl (vars h s (Bl * ?k)))"
      using True r by (simp add: blake_finish_def Let_def bl_def [symmetric] lf P_def)
    ultimately show ?thesis
      using blk_close [OF h(3) assms(2) len _ bl, of "Bl * ?k"] by (simp add: tk(1)) (simp add: vars_def)
  next
    case False
    define X where "X = r @ ?p # replicate (16 * w - 1 - l) 0"
    define Y where "Y = replicate (14 * w - 1) 0 @ ?fin # LF"
    have len: "length X = ?B" "length Y = ?B" using r LF l w_pos by (simp_all add: X_def Y_def del: w_pos)
    have split: "r @ P = X @ Y @ []" using False by (simp add: P_def X_def Y_def)
    have "bl \<noteq> 0" using False by auto
    have "absorb_blocks ?B (bspec_chain F ?t s) (h, ?k) (r @ P) =
        ((out (out h s X (?t ?k)) s Y (?t (?k + 1)), ?k + 2), [])"
      unfolding split using absorb_blocks_step [OF _ len(1), of "bspec_chain F ?t s" "(h, ?k)" "Y @ []"]
        absorb_blocks_step [OF _ len(2), of "bspec_chain F ?t s" _ "[]"] by (simp add: chain_out)
    moreover have "blake_finish w Bl blk (vars h s (Bl * ?k), r) ub n full =
        blk Y ((blk X (close_vars Bl bl (vars h s (Bl * ?k))))\<lparr>bk_T0 := - of_nat Bl, bk_T1 := - 1\<rparr>)"
      using False r by (simp add: blake_finish_def Let_def bl_def [symmetric] lf X_def Y_def)
    moreover have "blk X (close_vars Bl bl (vars h s (Bl * ?k))) = vars (out h s X (?t ?k)) s (Bl * ?k + bl)"
      using blk_close [OF h(3) assms(2) len(1) _ bl, of "Bl * ?k"] \<open>bl \<noteq> 0\<close> by (simp add: tk(1))
    ultimately show ?thesis
      using blk_zero [of "vars (out h s X (?t ?k)) s (Bl * ?k + bl)" Y] len(2) assms(2)
      by (simp add: tk(2) [simplified]) (simp add: vars_def)
  qed
  then show ?thesis by (simp only: h(1) pad spec)
qed

end

section \<open>The closing routines\<close>

text \<open>Both closing routines as one function of the word size.\<close>

definition blake_close ::
  "nat \<Rightarrow> nat \<Rightarrow> (bytes \<Rightarrow> 'a::len word blake_vars \<Rightarrow> 'a word blake_vars) \<Rightarrow> 'a word blake_vars sph_context \<Rightarrow> bytes \<Rightarrow> nat \<Rightarrow> nat \<Rightarrow> bool \<Rightarrow>
   'a word blake_vars sph_context" where
  "blake_close w Bl blk sc u ub n full =
     (let ptr = sc_ptr sc; bl = 8 * ptr + n; u = u[ptr := sph_pad_byte ub n]; st = sc_state sc;
          L = rev (le_enc w (bk_T1 st)) @ rev (le_enc w (bk_T0 st + of_nat bl));
          sc = sc\<lparr>sc_state := close_vars Bl bl st\<rparr>
      in if bl \<le> 112 * w - 2
         then let u = memcpy_at u (ptr + 1) (replicate (14 * w - 1 - ptr) 0);
                  u = (if full then u[14 * w - 1 := u ! (14 * w - 1) OR 1] else u);
                  u = memcpy_at u (14 * w) L
              in sph_core (16 * w) blk sc (take (16 * w - ptr) (drop ptr u))
         else let u = memcpy_at u (ptr + 1) (replicate (16 * w - 1 - ptr) 0);
                  sc = sph_core (16 * w) blk sc (take (16 * w - ptr) (drop ptr u));
                  sc = sc\<lparr>sc_state := (sc_state sc)\<lparr>bk_T0 := - of_nat Bl, bk_T1 := - 1\<rparr>\<rparr>;
                  u = memcpy_at u 0 (replicate (14 * w) 0);
                  u = (if full then u[14 * w - 1 := 1] else u);
                  u = memcpy_at u (14 * w) L
              in sph_core (16 * w) blk sc (take (16 * w) u))"

text \<open>The bytes the two branches pass to the input routine.\<close>

lemma close_buffer_one:
  fixes u :: bytes and p :: byte
  assumes "length u = 16 * w" and "0 < w" and "l \<le> 14 * w - 1" and "length L = 2 * w"
  defines "u1 \<equiv> memcpy_at (u[l := p]) (l + 1) (replicate (14 * w - 1 - l) 0)"
  shows "take (16 * w - l) (drop l (memcpy_at (if full then u1[14 * w - 1 := u1 ! (14 * w - 1) OR 1] else u1) (14 * w) L)) =
    close_fill w p (of_bool full) l @ L" (is "?lhs = ?rhs")
proof -
  define a where "a = 14 * w - 1"
  have w14: "14 * w = Suc a" "l \<le> a" "a < 16 * w" using assms(2,3) by (simp_all add: a_def)
  have "u[l := p] = take l u @ p # drop (Suc l) u" using w14 assms(1) by (simp add: upd_conv_take_nth_drop)
  then have u1: "u1 = take l u @ p # replicate (a - l) 0 @ drop (Suc a) u"
    using w14 assms(1) by (simp add: u1_def memcpy_at_def Suc_diff_le)
  have "u1[a := u1 ! a OR of_bool full] = take l u @ close_fill w p (of_bool full) l @ drop (Suc a) u"
  proof (cases "l = a")
    case True
    then show ?thesis
      using w14 assms(1) by (simp add: u1 close_fill_def a_def [symmetric] nth_append list_update_append)
  next
    case False
    then have "replicate (a - l) (0 :: byte) = replicate (a - Suc l) 0 @ [0]"
      using w14 replicate_last [of "a - l" 0] by simp
    then have "u1 = (take l u @ p # replicate (a - Suc l) 0) @ 0 # drop (Suc a) u" by (simp add: u1)
    moreover have "length (take l u @ p # replicate (a - Suc l) 0) = a" using False w14 assms(1) by simp
    ultimately have "u1[a := u1 ! a OR of_bool full] = (take l u @ p # replicate (a - Suc l) 0) @ of_bool full # drop (Suc a) u"
      by (metis list_update_length nth_append_length or.left_neutral)
    then show ?thesis using False by (simp add: close_fill_def a_def [symmetric]) (simp add: a_def)
  qed
  then have "(if full then u1[a := u1 ! a OR 1] else u1) = take l u @ close_fill w p (of_bool full) l @ drop (Suc a) u" by (cases full) simp_all
  moreover have "length (close_fill w p (of_bool full) l) = Suc a - l" using w14(2) assms(2) by (cases "l = a") (auto simp: close_fill_def a_def)
  ultimately show ?thesis
    unfolding a_def [symmetric] using w14 assms(1,4) by (simp only:) (simp add: memcpy_at_def)
qed

lemma close_buffer_two:
  fixes u :: bytes
  assumes "0 < w" and "length L = 2 * w"
  defines "u2 \<equiv> memcpy_at u 0 (replicate (14 * w) 0)"
  shows "take (16 * w) (memcpy_at (if full then u2[14 * w - 1 := 1] else u2) (14 * w) L) =
    replicate (14 * w - 1) 0 @ of_bool full # L"
proof -
  have "replicate (14 * w) (0 :: byte) = replicate (14 * w - 1) 0 @ [0]"
    using assms(1) by (intro replicate_last) simp
  then have "u2 = (replicate (14 * w - 1) 0 @ [0]) @ drop (14 * w) u" using assms(1) by (simp add: u2_def memcpy_at_def)
  then have "(if full then u2[14 * w - 1 := 1] else u2) = (replicate (14 * w - 1) 0 @ [of_bool full]) @ drop (14 * w) u"
    by (simp add: list_update_append)
  then show ?thesis using assms(1,2) by (simp add: memcpy_at_def)
qed

lemma blake_close_finish:
  assumes "sph_inv (16 * w) (16 * w) sc" and "length u = 16 * w" and "n < 8" and "0 < w"
  shows "sc_state (blake_close w Bl blk sc u ub n full) = blake_finish w Bl blk (sph_view sc) ub n full"
proof -
  let ?l = "sc_ptr sc" and ?p = "sph_pad_byte ub n"
  define r where "r = snd (sph_view sc)"
  define bl where "bl = 8 * ?l + n"
  define L where "L = rev (le_enc w (bk_T1 (sc_state sc))) @ rev (le_enc w (bk_T0 (sc_state sc) + of_nat bl))"
  have L: "length L = 2 * w" by (simp add: L_def)
  have l: "?l < 16 * w" and r: "length r = ?l" using assms(1) by (auto simp: sph_inv_def sph_view_def r_def)
  have view: "sph_view sc = (sc_state sc, r)" by (simp add: sph_view_def r_def)
  define sc1 where "sc1 = sc\<lparr>sc_state := close_vars Bl bl (sc_state sc)\<rparr>"
  have sc1: "sph_inv (16 * w) (16 * w) sc1" "sc_ptr sc1 = ?l" "snd (sph_view sc1) = r" "sc_state sc1 = close_vars Bl bl (sc_state sc)"
    using assms(1) by (simp_all add: sc1_def sph_inv_def sph_view_def r_def)
  note unf = blake_close_def Let_def bl_def [symmetric] L_def [symmetric] sc1_def [symmetric]
  note fin = blake_finish_def view Let_def split r bl_def [symmetric] L_def [symmetric]
  show ?thesis
  proof (cases "bl \<le> 112 * w - 2")
    case True
    let ?d = "close_fill w ?p (of_bool full) ?l @ L"
    have a: "?l \<le> 14 * w - 1" using True assms(4) by (simp add: bl_def)
    have "length ?d = 16 * w - sc_ptr sc1" using a L assms(4) sc1(2) by (auto simp: close_fill_def)
    moreover have "blake_close w Bl blk sc u ub n full = sph_core (16 * w) blk sc1 ?d"
      using True unfolding unf close_buffer_one [OF assms(2,4) a L] by simp
    ultimately show ?thesis
      using sph_core_fill(1) [OF sc1(1), of ?d blk] True unfolding fin by (simp add: sc1)
  next
    case False
    let ?x = "?p # replicate (16 * w - 1 - ?l) (0 :: byte)" and ?y = "replicate (14 * w - 1) 0 @ (of_bool full :: byte) # L"
    have "take (16 * w - ?l) (drop ?l (memcpy_at (u[?l := ?p]) (?l + 1) (replicate (16 * w - 1 - ?l) 0))) = ?x"
      using l assms(2) by (simp add: memcpy_at_def upd_conv_take_nth_drop)
    note unf = unf this close_buffer_two [OF assms(4) L]
    define sc2 where "sc2 = sph_core (16 * w) blk sc1 ?x"
    have "length ?x = 16 * w - sc_ptr sc1" using l sc1(2) by simp
    note fill = sph_core_fill [OF sc1(1) this, of blk, folded sc2_def]
    define sc3 where "sc3 = sc2\<lparr>sc_state := (sc_state sc2)\<lparr>bk_T0 := - of_nat Bl, bk_T1 := - 1\<rparr>\<rparr>"
    have sc3: "sph_inv (16 * w) (16 * w) sc3" "sc_ptr sc3 = 0" "snd (sph_view sc3) = []"
      using fill by (simp_all add: sc3_def sph_inv_def sph_view_def)
    have "blake_close w Bl blk sc u ub n full = sph_core (16 * w) blk sc3 ?y"
      using False unfolding unf sc2_def [symmetric] sc3_def [symmetric] by simp
    moreover have "length ?y = 16 * w - sc_ptr sc3" using assms(4) L sc3(2) by simp
    ultimately have "sc_state (blake_close w Bl blk sc u ub n full) = blk ?y (sc_state sc3)"
      using sph_core_fill(1) [OF sc3(1), of ?y blk] sc3(3) by simp
    then show ?thesis using fill(1) False unfolding fin by (simp add: sc1 sc3_def)
  qed
qed

lemma length_field_stores:
  "56 \<le> length v \<Longrightarrow> memcpy_at (memcpy_at v 56 (sph_enc32be_aligned host x)) 60 (sph_enc32be_aligned host y) =
     memcpy_at v 56 (rev (le_enc 4 x) @ rev (le_enc 4 y))"
  "112 \<le> length v \<Longrightarrow> memcpy_at (memcpy_at v 112 (sph_enc64be_aligned host x')) 120 (sph_enc64be_aligned host y') =
     memcpy_at v 112 (rev (le_enc 8 x') @ rev (le_enc 8 y'))"
  by (simp_all add: memcpy_at_adjacent sph_encoders)

lemma blake32_close_blake_close:
  assumes "length u = 64" and "sc_ptr sc < 64"
  shows "snd (blake32_close sc u ub n k) = blake_close 4 512 blake32_block sc u ub n (k = 8)"
proof -
  have c: "(0xFFFFFE00 :: u32) = - of_nat 512" "(0xFFFFFFFF :: u32) = - 1" by simp_all
  have nums: "112 * 4 - 2 = (446 :: nat)" "14 * 4 = (56 :: nat)" "16 * 4 = (64 :: nat)" "56 - 1 = (55 :: nat)" "64 - 1 = (63 :: nat)"
    by simp_all
  have z: "(sc_ptr sc = 0 \<and> n = 0) = (8 * sc_ptr sc + n = 0)" by simp
  let ?v = "u[sc_ptr sc := sph_pad_byte ub n]"
  let ?a = "memcpy_at ?v (sc_ptr sc + 1) (replicate (55 - sc_ptr sc) 0)"
    and ?b = "memcpy_at (memcpy_at ?v (sc_ptr sc + 1) (replicate (63 - sc_ptr sc) 0)) 0 (replicate 56 0)"
  have l: "56 \<le> length (if k = 8 then ?a[55 := ?a ! 55 OR 1] else ?a)" "56 \<le> length (if k = 8 then ?b[55 := 1] else ?b)"
    using assms by (simp_all add: memcpy_at_def)
  show ?thesis
    unfolding blake32_close_def blake_close_def blake32_def close_vars_def Let_def nums c z snd_conv
      length_field_stores(1) [OF l(1)] length_field_stores(1) [OF l(2)] by (rule refl)
qed

lemma blake64_close_blake_close:
  assumes "length u = 128" and "sc_ptr sc < 128"
  shows "snd (blake64_close sc u ub n k) = blake_close 8 1024 blake64_block sc u ub n (k = 8)"
proof -
  have c: "(0xFFFFFFFFFFFFFC00 :: u64) = - of_nat 1024" "(0xFFFFFFFFFFFFFFFF :: u64) = - 1" by simp_all
  have nums: "112 * 8 - 2 = (894 :: nat)" "14 * 8 = (112 :: nat)" "16 * 8 = (128 :: nat)" "112 - 1 = (111 :: nat)" "128 - 1 = (127 :: nat)"
    by simp_all
  have z: "(sc_ptr sc = 0 \<and> n = 0) = (8 * sc_ptr sc + n = 0)" by simp
  let ?v = "u[sc_ptr sc := sph_pad_byte ub n]"
  let ?a = "memcpy_at ?v (sc_ptr sc + 1) (replicate (111 - sc_ptr sc) 0)"
    and ?b = "memcpy_at (memcpy_at ?v (sc_ptr sc + 1) (replicate (127 - sc_ptr sc) 0)) 0 (replicate 112 0)"
  have l: "112 \<le> length (if k = 8 then ?a[111 := ?a ! 111 OR 1] else ?a)" "112 \<le> length (if k = 8 then ?b[111 := 1] else ?b)"
    using assms by (simp_all add: memcpy_at_def)
  show ?thesis
    unfolding blake64_close_def blake_close_def blake64_def close_vars_def Let_def nums c z snd_conv
      length_field_stores(2) [OF l(1)] length_field_stores(2) [OF l(2)] by (rule refl)
qed

sublocale blake_variant \<subseteq> stream: sph_hash "16 * w" "16 * w" blk "\<lambda>sc. blake_finish w Bl blk (sph_view sc) ub n full" for ub n full
  by unfold_locales simp_all

context blake_variant
begin

lemma context_digest:
  fixes c :: "'a word blake_vars sph_context"
  assumes "sph_inv (16 * w) (16 * w) c" and "sph_view c = (vars iv s 0, [])" and "length u = 16 * w"
    and "length iv = 8" and "length s = 4" and "n < 8"
  shows "bk_H (sc_state (blake_close w Bl blk (foldl (sph_core (16 * w) blk) c ds) u ub n full)) =
    fst (fst (absorb_blocks (16 * w) (bspec_chain F (bspec_counter w (8 * length (concat ds) + n)) s) (iv, 0)
      (bytes_of_bits (bspec_pad w full (bits_of_bytes (concat ds) @ take n (bits_of_byte (of_nat ub)))))))"
proof -
  let ?c = "foldl (sph_core (16 * w) blk) c ds"
  have inv: "sph_inv (16 * w) (16 * w) ?c" by (rule sph_inv_updates [OF assms(1)])
  have "sph_view ?c = absorb_blocks (16 * w) (\<lambda>st b. blk b st) (vars iv s 0) (concat ds)"
    by (rule stream.message_view [OF assms(1,2)])
  then show ?thesis
    unfolding blake_close_finish [OF inv assms(3,6) w_pos] using finish_digest [OF assms(4-6), of "concat ds" ub full] by simp
qed

lemma length_chain:
  assumes "length iv = 8"
  shows "length (fst (fst (absorb_blocks (16 * w) (bspec_chain F t s) (iv, 0) xs))) = 8"
  using absorb_blocks_inv [of "\<lambda>x. length (fst x) = 8" "(iv, 0)" "16 * w" "bspec_chain F t s" xs] assms
  by (auto simp: chain_out)

end

interpretation blk32: blake_variant 4 512 blake32_block comp32
proof
  show "512 dvd (2 :: nat) ^ LENGTH(32)" by simp
  show "length (comp32 h s b t0 t1) = 8" for h s b t0 t1 by (simp add: comp32_def bspec_compress_def Let_def)
qed (simp_all add: blake32_block_def COMPRESS32_spec Let_def)

interpretation blk64: blake_variant 8 1024 blake64_block comp64
proof
  show "1024 dvd (2 :: nat) ^ LENGTH(64)" by simp
  show "length (comp64 h s b t0 t1) = 8" for h s b t0 t1 by (simp add: comp64_def bspec_compress_def Let_def)
qed (simp_all add: blake64_block_def COMPRESS64_spec Let_def)

lemma blake32_digest:
  assumes "length (sc_buf sc) = 64" and "length u = 64" and "length iv = 8" and "length salt = 4" and "n < 8" and "k \<le> 8"
  shows "fst (blake32_close (foldl blake32 (blake32_init sc iv salt) ds) u ub n k) =
    bspec_hash comp32 4 salt iv k (bits_of_bytes (concat ds) @ take n (bits_of_byte (of_nat ub)))"
proof -
  let ?c = "blake32_init sc iv salt" and ?M = "bits_of_bytes (concat ds) @ take n (bits_of_byte (of_nat ub))"
  have init: "sph_inv (16 * 4) (16 * 4) ?c" "sph_view ?c = (blk32.vars iv salt 0, [])"
    using assms(1,3,4) by (simp_all add: blake32_init_def sph_inv_def sph_view_def blk32.vars_def)
  have core: "blake32 = sph_core (16 * 4) blake32_block" by (simp add: fun_eq_iff blake32_def)
  define cc where "cc = foldl blake32 ?c ds"
  have cc: "sph_inv (16 * 4) (16 * 4) cc" using sph_inv_updates [OF init(1)] by (simp add: cc_def core)
  then have "sc_ptr cc < 64" by (simp add: sph_inv_def)
  then have close: "snd (blake32_close cc u ub n k) = blake_close 4 512 blake32_block cc u ub n (k = 8)"
    by (rule blake32_close_blake_close [OF assms(2)])
  define H where "H = fst (fst (absorb_blocks (16 * 4) (bspec_chain comp32 (bspec_counter 4 (length ?M)) salt) (iv, 0)
      (bytes_of_bits (bspec_pad 4 (k = 8) ?M))))"
  have H: "bk_H (sc_state (snd (blake32_close cc u ub n k))) = H"
    using blk32.context_digest [OF init _ assms(3,4,5), of u ds ub "k = 8"] assms(2,5)
    by (simp add: close) (simp add: cc_def core H_def bits_of_byte_def min_def)
  have "length H = 8" unfolding H_def by (rule blk32.length_chain [OF assms(3)])
  then have "map (\<lambda>i. rev (le_enc 4 (H ! i))) [0..<k] = map (\<lambda>x. rev (le_enc 4 x)) (take k H)"
    using assms(6) by (intro nth_equalityI) simp_all
  moreover have "fst (blake32_close cc u ub n k) =
      concat (map (\<lambda>i. sph_enc32be host (4 * i) (bk_H (sc_state (snd (blake32_close cc u ub n k))) ! i)) [0..<k])"
    by (simp only: blake32_close_def Let_def fst_conv snd_conv)
  ultimately show ?thesis unfolding H by (simp add: cc_def sph_encoders bspec_hash_def H_def)
qed

lemma blake64_digest:
  assumes "length (sc_buf sc) = 128" and "length u = 128" and "length iv = 8" and "length salt = 4" and "n < 8" and "k \<le> 8"
  shows "fst (blake64_close (foldl blake64 (blake64_init sc iv salt) ds) u ub n k) =
    bspec_hash comp64 8 salt iv k (bits_of_bytes (concat ds) @ take n (bits_of_byte (of_nat ub)))"
proof -
  let ?c = "blake64_init sc iv salt" and ?M = "bits_of_bytes (concat ds) @ take n (bits_of_byte (of_nat ub))"
  have init: "sph_inv (16 * 8) (16 * 8) ?c" "sph_view ?c = (blk64.vars iv salt 0, [])"
    using assms(1,3,4) by (simp_all add: blake64_init_def sph_inv_def sph_view_def blk64.vars_def)
  have core: "blake64 = sph_core (16 * 8) blake64_block" by (simp add: fun_eq_iff blake64_def)
  define cc where "cc = foldl blake64 ?c ds"
  have cc: "sph_inv (16 * 8) (16 * 8) cc" using sph_inv_updates [OF init(1)] by (simp add: cc_def core)
  then have "sc_ptr cc < 128" by (simp add: sph_inv_def)
  then have close: "snd (blake64_close cc u ub n k) = blake_close 8 1024 blake64_block cc u ub n (k = 8)"
    by (rule blake64_close_blake_close [OF assms(2)])
  define H where "H = fst (fst (absorb_blocks (16 * 8) (bspec_chain comp64 (bspec_counter 8 (length ?M)) salt) (iv, 0)
      (bytes_of_bits (bspec_pad 8 (k = 8) ?M))))"
  have H: "bk_H (sc_state (snd (blake64_close cc u ub n k))) = H"
    using blk64.context_digest [OF init _ assms(3,4,5), of u ds ub "k = 8"] assms(2,5)
    by (simp add: close) (simp add: cc_def core H_def bits_of_byte_def min_def)
  have "length H = 8" unfolding H_def by (rule blk64.length_chain [OF assms(3)])
  then have "map (\<lambda>i. rev (le_enc 8 (H ! i))) [0..<k] = map (\<lambda>x. rev (le_enc 8 x)) (take k H)"
    using assms(6) by (intro nth_equalityI) simp_all
  moreover have "fst (blake64_close cc u ub n k) =
      concat (map (\<lambda>i. sph_enc64be host (8 * i) (bk_H (sc_state (snd (blake64_close cc u ub n k))) ! i)) [0..<k])"
    by (simp only: blake64_close_def Let_def fst_conv snd_conv)
  ultimately show ?thesis unfolding H by (simp add: cc_def sph_encoders bspec_hash_def H_def)
qed

lemmas blake_entries =
  sph_blake224_init_def sph_blake224_def [abs_def] sph_blake224_close_def sph_blake224_addbits_and_close_def
  sph_blake256_init_def sph_blake256_def [abs_def] sph_blake256_close_def sph_blake256_addbits_and_close_def
  sph_blake384_init_def sph_blake384_def [abs_def] sph_blake384_close_def sph_blake384_addbits_and_close_def
  sph_blake512_init_def sph_blake512_def [abs_def] sph_blake512_close_def sph_blake512_addbits_and_close_def

lemma blake_constants:
  "salt_zero_small = [0, 0, 0, 0]" "salt_zero_big = [0, 0, 0, 0]"
  "length blake_IV224 = 8" "length blake_IV256 = 8" "length blake_IV384 = 8" "length blake_IV512 = 8"
  by (simp_all add: salt_zero_small_def salt_zero_big_def blake_IV224_def blake_IV256_def blake_IV384_def blake_IV512_def)

section \<open>Properties\<close>

text \<open>
  C10. The four BLAKE functions on bit strings: a context initialised over any memory, any sequence
  of updates and a close with up to seven further bits write the BLAKE digest of the concatenated
  bytes followed by those bits, for every length: the counter of message bits is the one of the
  specification also in the blocks of padding, and the uninitialised buffer of the closing routine
  does not matter.
\<close>

theorem sph_blake_streaming_correct:
  fixes small :: blake_small_context and big :: blake_big_context
  assumes "length (sc_buf small) = 64" and "length u32 = 64" and "length (sc_buf big) = 128" and "length u64 = 128" and "n < 8"
  shows "fst (sph_blake224_addbits_and_close (foldl sph_blake224 (sph_blake224_init small) chunks) u32 ub n) =
      bspec_hash comp32 4 [0, 0, 0, 0] blake_IV224 7 (bits_of_bytes (concat chunks) @ take n (bits_of_byte (of_nat ub)))
    \<and> fst (sph_blake256_addbits_and_close (foldl sph_blake256 (sph_blake256_init small) chunks) u32 ub n) =
      bspec_hash comp32 4 [0, 0, 0, 0] blake_IV256 8 (bits_of_bytes (concat chunks) @ take n (bits_of_byte (of_nat ub)))
    \<and> fst (sph_blake384_addbits_and_close (foldl sph_blake384 (sph_blake384_init big) chunks) u64 ub n) =
      bspec_hash comp64 8 [0, 0, 0, 0] blake_IV384 6 (bits_of_bytes (concat chunks) @ take n (bits_of_byte (of_nat ub)))
    \<and> fst (sph_blake512_addbits_and_close (foldl sph_blake512 (sph_blake512_init big) chunks) u64 ub n) =
      bspec_hash comp64 8 [0, 0, 0, 0] blake_IV512 8 (bits_of_bytes (concat chunks) @ take n (bits_of_byte (of_nat ub)))"
  using blake32_digest [OF assms(1,2) _ _ assms(5)] blake64_digest [OF assms(3,4) _ _ assms(5)]
  by (simp add: blake_entries blake_constants)

theorem sph_blake_streaming_correct_witness:
  "fst (sph_blake512_addbits_and_close (foldl sph_blake512
      (sph_blake512_init \<lparr>sc_buf = replicate 128 9, sc_ptr = 5, sc_state = \<lparr>bk_H = [], bk_S = [], bk_T0 = 1, bk_T1 = 2\<rparr>\<rparr>) [[1], [2, 3]])
      (replicate 128 7) 0xA0 3) = bspec_hash comp64 8 [0, 0, 0, 0] blake_IV512 8 (bits_of_bytes [1, 2, 3] @ [True, False, True])"
  using sph_blake_streaming_correct [of "\<lparr>sc_buf = replicate 64 9, sc_ptr = 5, sc_state = \<lparr>bk_H = [], bk_S = [], bk_T0 = 1, bk_T1 = 2\<rparr>\<rparr>" "replicate 64 0"
      "\<lparr>sc_buf = replicate 128 9, sc_ptr = 5, sc_state = \<lparr>bk_H = [], bk_S = [], bk_T0 = 1, bk_T1 = 2\<rparr>\<rparr>" "replicate 128 7" 3 "[[1], [2, 3]]" "0xA0"]
  by (simp add: bits_of_byte_def)

end
