(* ===== verification/Sph_Skein.thy ===== *)
theory Sph_Skein
  imports Sph_Types Bit_Strings
begin

text \<open>
  Skein-224, Skein-256, Skein-384 and Skein-512 as in \<^verbatim>\<open>xmrig/crypto/ghostrider/sph_skein.c\<close>, all on the 512-bit
  state, in the unrolled 64-bit build: the block cipher Threefish-512 with permuted variable names,
  the chaining of blocks, the buffer that stays full until more data arrives, and the entry points. The
  specification has the permutation of words, the chaining mode on bit strings and the
  configuration block, from which the stored initial values are derived.
\<close>

unbundle bit_operations_syntax

section \<open>Threefish-512\<close>

text \<open>The macros \<^verbatim>\<open>M9_0_0\<close> to \<^verbatim>\<open>M9_18_7\<close> and \<^verbatim>\<open>M3_0_0\<close> to \<^verbatim>\<open>M3_18_1\<close>, one list for each subkey.\<close>

definition M9 :: "nat list list" where
  "M9 =
    [[0, 1, 2, 3, 4, 5, 6, 7], [1, 2, 3, 4, 5, 6, 7, 8], [2, 3, 4, 5, 6, 7, 8, 0],
     [3, 4, 5, 6, 7, 8, 0, 1], [4, 5, 6, 7, 8, 0, 1, 2], [5, 6, 7, 8, 0, 1, 2, 3],
     [6, 7, 8, 0, 1, 2, 3, 4], [7, 8, 0, 1, 2, 3, 4, 5], [8, 0, 1, 2, 3, 4, 5, 6],
     [0, 1, 2, 3, 4, 5, 6, 7], [1, 2, 3, 4, 5, 6, 7, 8], [2, 3, 4, 5, 6, 7, 8, 0],
     [3, 4, 5, 6, 7, 8, 0, 1], [4, 5, 6, 7, 8, 0, 1, 2], [5, 6, 7, 8, 0, 1, 2, 3],
     [6, 7, 8, 0, 1, 2, 3, 4], [7, 8, 0, 1, 2, 3, 4, 5], [8, 0, 1, 2, 3, 4, 5, 6],
     [0, 1, 2, 3, 4, 5, 6, 7]]"

definition M3 :: "nat list list" where
  "M3 = [[0, 1], [1, 2], [2, 0], [0, 1], [1, 2], [2, 0], [0, 1],
     [1, 2], [2, 0], [0, 1], [1, 2], [2, 0], [0, 1], [1, 2],
     [2, 0], [0, 1], [1, 2], [2, 0], [0, 1]]"

definition TFBIG_KINIT :: "u64 list \<Rightarrow> u64 \<Rightarrow> u64 \<Rightarrow> u64 list \<times> u64 list" where
  "TFBIG_KINIT k t0 t1 =
     (let k8 = ((k ! 0 XOR k ! 1) XOR (k ! 2 XOR k ! 3)) XOR ((k ! 4 XOR k ! 5) XOR (k ! 6 XOR k ! 7)) XOR 0x1BD11BDAA9FC1A22;
          t2 = t0 XOR t1
      in ([k ! 0, k ! 1, k ! 2, k ! 3, k ! 4, k ! 5, k ! 6, k ! 7, k8], [t0, t1, t2]))"

definition TFBIG_ADDKEY :: "u64 list \<Rightarrow> u64 list \<Rightarrow> u64 list \<Rightarrow> nat \<Rightarrow> u64 list" where
  "TFBIG_ADDKEY p k t s =
     [p ! 0 + k ! (M9 ! s ! 0),
      p ! 1 + k ! (M9 ! s ! 1),
      p ! 2 + k ! (M9 ! s ! 2),
      p ! 3 + k ! (M9 ! s ! 3),
      p ! 4 + k ! (M9 ! s ! 4),
      p ! 5 + k ! (M9 ! s ! 5) + t ! (M3 ! s ! 0),
      p ! 6 + k ! (M9 ! s ! 6) + t ! (M3 ! s ! 1),
      p ! 7 + k ! (M9 ! s ! 7) + of_nat s]"

text \<open>The arguments of the mixing macros are variables, i.e. positions of the list.\<close>

definition TFBIG_MIX :: "nat \<Rightarrow> nat \<Rightarrow> nat \<Rightarrow> u64 list \<Rightarrow> u64 list" where
  "TFBIG_MIX x0 x1 rc p =
     (let p = p[x0 := p ! x0 + p ! x1]
      in p[x1 := SPH_ROTL64 (p ! x1) rc XOR p ! x0])"

definition TFBIG_MIX8 :: "nat list \<Rightarrow> nat \<Rightarrow> nat \<Rightarrow> nat \<Rightarrow> nat \<Rightarrow> u64 list \<Rightarrow> u64 list" where
  "TFBIG_MIX8 w rc0 rc1 rc2 rc3 p =
     (let p = TFBIG_MIX (w ! 0) (w ! 1) rc0 p;
          p = TFBIG_MIX (w ! 2) (w ! 3) rc1 p;
          p = TFBIG_MIX (w ! 4) (w ! 5) rc2 p
      in TFBIG_MIX (w ! 6) (w ! 7) rc3 p)"

definition TFBIG_4e :: "u64 list \<Rightarrow> u64 list \<Rightarrow> nat \<Rightarrow> u64 list \<Rightarrow> u64 list" where
  "TFBIG_4e h t s p =
     (let p = TFBIG_ADDKEY p h t s;
          p = TFBIG_MIX8 [0, 1, 2, 3, 4, 5, 6, 7] 46 36 19 37 p;
          p = TFBIG_MIX8 [2, 1, 4, 7, 6, 5, 0, 3] 33 27 14 42 p;
          p = TFBIG_MIX8 [4, 1, 6, 3, 0, 5, 2, 7] 17 49 36 39 p
      in TFBIG_MIX8 [6, 1, 0, 7, 2, 5, 4, 3] 44 9 54 56 p)"

definition TFBIG_4o :: "u64 list \<Rightarrow> u64 list \<Rightarrow> nat \<Rightarrow> u64 list \<Rightarrow> u64 list" where
  "TFBIG_4o h t s p =
     (let p = TFBIG_ADDKEY p h t s;
          p = TFBIG_MIX8 [0, 1, 2, 3, 4, 5, 6, 7] 39 30 34 24 p;
          p = TFBIG_MIX8 [2, 1, 4, 7, 6, 5, 0, 3] 13 50 10 17 p;
          p = TFBIG_MIX8 [4, 1, 6, 3, 0, 5, 2, 7] 25 29 39 43 p
      in TFBIG_MIX8 [6, 1, 0, 7, 2, 5, 4, 3] 8 35 56 22 p)"

text \<open>\<^verbatim>\<open>UBI_BIG\<close>: the new chaining value from the buffer, the old one and the block count.\<close>

definition UBI_BIG :: "nat \<Rightarrow> nat \<Rightarrow> bytes \<Rightarrow> u64 \<Rightarrow> u64 list \<Rightarrow> u64 list" where
  "UBI_BIG etype extra buf bcount h =
     (let m = map (\<lambda>i. sph_dec64le_aligned host (drop (8 * i) buf)) [0, 1, 2, 3, 4, 5, 6, 7];
          t0 = push_bit 6 bcount + of_nat extra;
          t1 = drop_bit 58 bcount + push_bit 55 (of_nat etype);
          (k, t) = TFBIG_KINIT h t0 t1;
          p = TFBIG_4e k t 0 m; p = TFBIG_4o k t 1 p;
          p = TFBIG_4e k t 2 p; p = TFBIG_4o k t 3 p;
          p = TFBIG_4e k t 4 p; p = TFBIG_4o k t 5 p;
          p = TFBIG_4e k t 6 p; p = TFBIG_4o k t 7 p;
          p = TFBIG_4e k t 8 p; p = TFBIG_4o k t 9 p;
          p = TFBIG_4e k t 10 p; p = TFBIG_4o k t 11 p;
          p = TFBIG_4e k t 12 p; p = TFBIG_4o k t 13 p;
          p = TFBIG_4e k t 14 p; p = TFBIG_4o k t 15 p;
          p = TFBIG_4e k t 16 p; p = TFBIG_4o k t 17 p;
          p = TFBIG_ADDKEY p k t 18
      in [m ! 0 XOR p ! 0, m ! 1 XOR p ! 1, m ! 2 XOR p ! 2, m ! 3 XOR p ! 3,
          m ! 4 XOR p ! 4, m ! 5 XOR p ! 5, m ! 6 XOR p ! 6, m ! 7 XOR p ! 7])"

section \<open>Contexts\<close>

record skein_context =
  sk_buf :: bytes
  sk_ptr :: nat
  sk_h :: "u64 list"
  sk_bcount :: u64

definition skein_IV224 :: "u64 list" where
  "skein_IV224 =
    [0xCCD0616248677224, 0xCBA65CF3A92339EF, 0x8CCD69D652FF4B64, 0x398AED7B3AB890B4,
     0x0F59D1B1457D2BD0, 0x6776FE6575D4EB3D, 0x99FBC70E997413E9, 0x9E2CFCCFE1C41EF7]"

definition skein_IV256 :: "u64 list" where
  "skein_IV256 =
    [0xCCD044A12FDB3E13, 0xE83590301A79A9EB, 0x55AEA0614F816E6F, 0x2A2767A4AE9B94DB,
     0xEC06025E74DD7683, 0xE7A436CDC4746251, 0xC36FBAF9393AD185, 0x3EEDBA1833EDFC13]"

definition skein_IV384 :: "u64 list" where
  "skein_IV384 =
    [0xA3F6C6BF3A75EF5F, 0xB0FEF9CCFD84FAA4, 0x9D77DD663D770CFE, 0xD798CBF3B468FDDA,
     0x1BC4A6668A0E4465, 0x7ED7D434E5807407, 0x548FC1ACD4EC44D6, 0x266E17546AA18FF8]"

definition skein_IV512 :: "u64 list" where
  "skein_IV512 =
    [0x4903ADFF749C51CE, 0x0D95DE399746DF03, 0x8FD1934127C79BCE, 0x9A255629FF352CB1,
     0x5DB62599DF6CA7B0, 0xEABE394CA9D5C3F4, 0x991112C71A75B523, 0xAE18A40B660FCC33]"

definition skein_big_init :: "skein_context \<Rightarrow> u64 list \<Rightarrow> skein_context" where
  "skein_big_init sc iv =
     sc\<lparr>sk_h := [iv ! 0, iv ! 1, iv ! 2, iv ! 3, iv ! 4, iv ! 5, iv ! 6, iv ! 7], sk_bcount := 0, sk_ptr := 0\<rparr>"

text \<open>
  The loop of \<^verbatim>\<open>skein_big_core\<close>. The buffer may stay full until more data arrives. The position is at
  most the buffer size in every context the entry points build, so the second part of the
  test never stops the loop early; it makes the recursion total.
\<close>

function skein_big_loop :: "nat \<Rightarrow> skein_context \<Rightarrow> bytes \<Rightarrow> skein_context" where
  "skein_big_loop first sc data =
     (if data = [] \<or> 64 < sk_ptr sc then sc
      else
        let (sc, first) =
              (if sk_ptr sc = 64
               then let bcount = sk_bcount sc + 1
                    in (sc\<lparr>sk_bcount := bcount, sk_h := UBI_BIG (96 + first) 0 (sk_buf sc) bcount (sk_h sc), sk_ptr := 0\<rparr>, 0)
               else (sc, first));
            clen = min (64 - sk_ptr sc) (length data)
        in skein_big_loop first
             (sc\<lparr>sk_buf := memcpy_at (sk_buf sc) (sk_ptr sc) (take clen data), sk_ptr := sk_ptr sc + clen\<rparr>) (drop clen data))"
  by pat_completeness auto
termination
  by (relation "measure (\<lambda>(first, sc, data). length data)") (auto simp: Let_def split: if_splits)

declare skein_big_loop.simps [simp del]

definition skein_big_core :: "skein_context \<Rightarrow> bytes \<Rightarrow> skein_context" where
  "skein_big_core sc data =
     (if length data \<le> 64 - sk_ptr sc
      then sc\<lparr>sk_buf := memcpy_at (sk_buf sc) (sk_ptr sc) data, sk_ptr := sk_ptr sc + length data\<rparr>
      else skein_big_loop (if sk_bcount sc = 0 then 128 else 0) sc data)"

definition skein_big_close :: "skein_context \<Rightarrow> nat \<Rightarrow> nat \<Rightarrow> nat \<Rightarrow> bytes \<times> skein_context" where
  "skein_big_close sc ub n out_len =
     (let sc = (if n \<noteq> 0 then skein_big_core sc [sph_pad_byte ub n] else sc);
          ptr = sk_ptr sc;
          buf = memcpy_at (sk_buf sc) ptr (replicate (64 - ptr) 0);
          et = 352 + (if sk_bcount sc = 0 then 128 else 0) + (if n \<noteq> 0 then 1 else 0);
          h = UBI_BIG et ptr buf (sk_bcount sc) (sk_h sc);
          buf = memcpy_at buf 0 (replicate 64 0);
          h = UBI_BIG 510 8 buf 0 h;
          buf = foldl (\<lambda>buf i. memcpy_at buf (8 * i) (sph_enc64le_aligned host (h ! i))) buf [0, 1, 2, 3, 4, 5, 6, 7]
      in (take out_len buf, sc\<lparr>sk_buf := buf\<rparr>))"

definition sph_skein224_init :: "skein_context \<Rightarrow> skein_context" where
  "sph_skein224_init cc = skein_big_init cc skein_IV224"

definition sph_skein224 :: "skein_context \<Rightarrow> bytes \<Rightarrow> skein_context" where
  "sph_skein224 cc data = skein_big_core cc data"

definition sph_skein224_addbits_and_close :: "skein_context \<Rightarrow> nat \<Rightarrow> nat \<Rightarrow> bytes \<times> skein_context" where
  "sph_skein224_addbits_and_close cc ub n = skein_big_close cc ub n 28"

definition sph_skein224_close :: "skein_context \<Rightarrow> bytes \<times> skein_context" where
  "sph_skein224_close cc = sph_skein224_addbits_and_close cc 0 0"

definition sph_skein256_init :: "skein_context \<Rightarrow> skein_context" where
  "sph_skein256_init cc = skein_big_init cc skein_IV256"

definition sph_skein256 :: "skein_context \<Rightarrow> bytes \<Rightarrow> skein_context" where
  "sph_skein256 cc data = skein_big_core cc data"

definition sph_skein256_addbits_and_close :: "skein_context \<Rightarrow> nat \<Rightarrow> nat \<Rightarrow> bytes \<times> skein_context" where
  "sph_skein256_addbits_and_close cc ub n = skein_big_close cc ub n 32"

definition sph_skein256_close :: "skein_context \<Rightarrow> bytes \<times> skein_context" where
  "sph_skein256_close cc = sph_skein256_addbits_and_close cc 0 0"

definition sph_skein384_init :: "skein_context \<Rightarrow> skein_context" where
  "sph_skein384_init cc = skein_big_init cc skein_IV384"

definition sph_skein384 :: "skein_context \<Rightarrow> bytes \<Rightarrow> skein_context" where
  "sph_skein384 cc data = skein_big_core cc data"

definition sph_skein384_addbits_and_close :: "skein_context \<Rightarrow> nat \<Rightarrow> nat \<Rightarrow> bytes \<times> skein_context" where
  "sph_skein384_addbits_and_close cc ub n = skein_big_close cc ub n 48"

definition sph_skein384_close :: "skein_context \<Rightarrow> bytes \<times> skein_context" where
  "sph_skein384_close cc = sph_skein384_addbits_and_close cc 0 0"

definition sph_skein512_init :: "skein_context \<Rightarrow> skein_context" where
  "sph_skein512_init cc = skein_big_init cc skein_IV512"

definition sph_skein512 :: "skein_context \<Rightarrow> bytes \<Rightarrow> skein_context" where
  "sph_skein512 cc data = skein_big_core cc data"

definition sph_skein512_addbits_and_close :: "skein_context \<Rightarrow> nat \<Rightarrow> nat \<Rightarrow> bytes \<times> skein_context" where
  "sph_skein512_addbits_and_close cc ub n = skein_big_close cc ub n 64"

definition sph_skein512_close :: "skein_context \<Rightarrow> bytes \<times> skein_context" where
  "sph_skein512_close cc = sph_skein512_addbits_and_close cc 0 0"

section \<open>Specification\<close>

text \<open>
  Skein-512 as in its specification, version 1.3: Threefish-512 with the words permuted
  after each of 72 rounds, the chaining mode UBI over bit strings with a tweak that holds position, type
  and flags, and the hash as three UBI calls on the configuration, the message and a counter of zero.
\<close>

definition tf_rotations :: "nat list list" where
  "tf_rotations =
    [[46, 36, 19, 37], [33, 27, 14, 42], [17, 49, 36, 39], [44, 9, 54, 56],
     [39, 30, 34, 24], [13, 50, 10, 17], [25, 29, 39, 43], [8, 35, 56, 22]]"

definition tf_permutation :: "nat list" where
  "tf_permutation = [2, 1, 4, 7, 6, 5, 0, 3]"

definition tf_round :: "nat list \<Rightarrow> u64 list \<Rightarrow> u64 list" where
  "tf_round r v =
     (let f = concat (map (\<lambda>j. let y = v ! (2 * j) + v ! (2 * j + 1) in [y, word_rotl (r ! j) (v ! (2 * j + 1)) XOR y]) [0, 1, 2, 3])
      in map (\<lambda>i. f ! (tf_permutation ! i)) [0, 1, 2, 3, 4, 5, 6, 7])"

definition tf_subkey :: "u64 list \<Rightarrow> u64 \<times> u64 \<Rightarrow> nat \<Rightarrow> u64 list" where
  "tf_subkey k tw s =
     (let k9 = k @ [foldl (XOR) 0x1BD11BDAA9FC1A22 k]; t = [fst tw, snd tw, fst tw XOR snd tw]
      in map (\<lambda>i. k9 ! ((s + i) mod 9) +
           (if i = 5 then t ! (s mod 3) else if i = 6 then t ! ((s + 1) mod 3) else if i = 7 then of_nat s else 0)) [0, 1, 2, 3, 4, 5, 6, 7])"

definition tf_step :: "u64 list \<Rightarrow> u64 \<times> u64 \<Rightarrow> u64 list \<Rightarrow> nat \<Rightarrow> u64 list" where
  "tf_step k tw v d = tf_round (tf_rotations ! (d mod 8)) (if d mod 4 = 0 then map2 (+) v (tf_subkey k tw (d div 4)) else v)"

definition threefish :: "u64 list \<Rightarrow> u64 \<times> u64 \<Rightarrow> u64 list \<Rightarrow> u64 list" where
  "threefish k tw v = map2 (+) (foldl (tf_step k tw) v [0..<72]) (tf_subkey k tw 18)"

section \<open>The rounds without permutation\<close>

text \<open>The list as the spec sees it: position \<open>i\<close> is the variable \<open>w ! i\<close>.\<close>

definition renamed :: "nat list \<Rightarrow> u64 list \<Rightarrow> u64 list" where
  "renamed w p = map (\<lambda>i. p ! i) w"

lemma TFBIG_MIX8_round:
  assumes "length p = 8" and "0 < r0" "r0 < 64" "0 < r1" "r1 < 64" "0 < r2" "r2 < 64" "0 < r3" "r3 < 64"
  shows "renamed [2, 1, 4, 7, 6, 5, 0, 3] (TFBIG_MIX8 [0, 1, 2, 3, 4, 5, 6, 7] r0 r1 r2 r3 p) =
      tf_round [r0, r1, r2, r3] (renamed [0, 1, 2, 3, 4, 5, 6, 7] p)"
    and "renamed [4, 1, 6, 3, 0, 5, 2, 7] (TFBIG_MIX8 [2, 1, 4, 7, 6, 5, 0, 3] r0 r1 r2 r3 p) =
      tf_round [r0, r1, r2, r3] (renamed [2, 1, 4, 7, 6, 5, 0, 3] p)"
    and "renamed [6, 1, 0, 7, 2, 5, 4, 3] (TFBIG_MIX8 [4, 1, 6, 3, 0, 5, 2, 7] r0 r1 r2 r3 p) =
      tf_round [r0, r1, r2, r3] (renamed [4, 1, 6, 3, 0, 5, 2, 7] p)"
    and "renamed [0, 1, 2, 3, 4, 5, 6, 7] (TFBIG_MIX8 [6, 1, 0, 7, 2, 5, 4, 3] r0 r1 r2 r3 p) =
      tf_round [r0, r1, r2, r3] (renamed [6, 1, 0, 7, 2, 5, 4, 3] p)"
    and "length (TFBIG_MIX8 w r0 r1 r2 r3 p) = 8"
proof -
  obtain a b c d e f g h where p: "p = [a, b, c, d, e, f, g, h]" using assms(1) by (rule list8_cases)
  note simps = p TFBIG_MIX8_def TFBIG_MIX_def Let_def renamed_def tf_round_def tf_permutation_def
  show "renamed [2, 1, 4, 7, 6, 5, 0, 3] (TFBIG_MIX8 [0, 1, 2, 3, 4, 5, 6, 7] r0 r1 r2 r3 p) =
      tf_round [r0, r1, r2, r3] (renamed [0, 1, 2, 3, 4, 5, 6, 7] p)"
    using assms(2-) by (simp add: simps SPH_ROTL_rotl)
  show "renamed [4, 1, 6, 3, 0, 5, 2, 7] (TFBIG_MIX8 [2, 1, 4, 7, 6, 5, 0, 3] r0 r1 r2 r3 p) =
      tf_round [r0, r1, r2, r3] (renamed [2, 1, 4, 7, 6, 5, 0, 3] p)"
    using assms(2-) by (simp add: simps SPH_ROTL_rotl)
  show "renamed [6, 1, 0, 7, 2, 5, 4, 3] (TFBIG_MIX8 [4, 1, 6, 3, 0, 5, 2, 7] r0 r1 r2 r3 p) =
      tf_round [r0, r1, r2, r3] (renamed [4, 1, 6, 3, 0, 5, 2, 7] p)"
    using assms(2-) by (simp add: simps SPH_ROTL_rotl)
  show "renamed [0, 1, 2, 3, 4, 5, 6, 7] (TFBIG_MIX8 [6, 1, 0, 7, 2, 5, 4, 3] r0 r1 r2 r3 p) =
      tf_round [r0, r1, r2, r3] (renamed [6, 1, 0, 7, 2, 5, 4, 3] p)"
    using assms(2-) by (simp add: simps SPH_ROTL_rotl)
  show "length (TFBIG_MIX8 w r0 r1 r2 r3 p) = 8"
    using assms(1) by (simp add: TFBIG_MIX8_def TFBIG_MIX_def Let_def)
qed

lemma renamed_id: "length p = 8 \<Longrightarrow> renamed [0, 1, 2, 3, 4, 5, 6, 7] p = p"
  using map_nth [of p] by (simp add: renamed_def upt_0_8)

text \<open>Four rounds bring the variables back to their places.\<close>

lemma MIX8_rounds:
  assumes "length p = 8" and "\<forall>r \<in> set (concat [ra, rb, rc, rd]). 0 < r \<and> r < 64"
    and "length ra = 4" "length rb = 4" "length rc = 4" "length rd = 4"
  shows "(let p = TFBIG_MIX8 [0, 1, 2, 3, 4, 5, 6, 7] (ra ! 0) (ra ! 1) (ra ! 2) (ra ! 3) p;
          p = TFBIG_MIX8 [2, 1, 4, 7, 6, 5, 0, 3] (rb ! 0) (rb ! 1) (rb ! 2) (rb ! 3) p;
          p = TFBIG_MIX8 [4, 1, 6, 3, 0, 5, 2, 7] (rc ! 0) (rc ! 1) (rc ! 2) (rc ! 3) p
      in TFBIG_MIX8 [6, 1, 0, 7, 2, 5, 4, 3] (rd ! 0) (rd ! 1) (rd ! 2) (rd ! 3) p) =
    tf_round rd (tf_round rc (tf_round rb (tf_round ra p)))"
proof -
  have l: "xs = [xs ! 0, xs ! 1, xs ! 2, xs ! 3]" if "length xs = 4" for xs :: "nat list"
    using that by (intro nth_equalityI) (auto simp: less_Suc_eq numeral_eq_Suc)
  have r: "0 < xs ! i \<and> xs ! i < 64" if "xs \<in> {ra, rb, rc, rd}" "i < 4" for xs i
    using that assms(2-) nth_mem [of i xs] by auto
  define p1 where "p1 = TFBIG_MIX8 [0, 1, 2, 3, 4, 5, 6, 7] (ra ! 0) (ra ! 1) (ra ! 2) (ra ! 3) p"
  define p2 where "p2 = TFBIG_MIX8 [2, 1, 4, 7, 6, 5, 0, 3] (rb ! 0) (rb ! 1) (rb ! 2) (rb ! 3) p1"
  define p3 where "p3 = TFBIG_MIX8 [4, 1, 6, 3, 0, 5, 2, 7] (rc ! 0) (rc ! 1) (rc ! 2) (rc ! 3) p2"
  define p4 where "p4 = TFBIG_MIX8 [6, 1, 0, 7, 2, 5, 4, 3] (rd ! 0) (rd ! 1) (rd ! 2) (rd ! 3) p3"
  note rs = r [of ra 0] r [of ra 1] r [of ra 2] r [of ra 3] r [of rb 0] r [of rb 1] r [of rb 2] r [of rb 3]
    r [of rc 0] r [of rc 1] r [of rc 2] r [of rc 3] r [of rd 0] r [of rd 1] r [of rd 2] r [of rd 3]
  have len: "length p1 = 8" "length p2 = 8" "length p3 = 8" "length p4 = 8"
    using assms(1) by (simp_all add: p1_def p2_def p3_def p4_def TFBIG_MIX8_def TFBIG_MIX_def Let_def)
  have "renamed [2, 1, 4, 7, 6, 5, 0, 3] p1 = tf_round ra p"
    using TFBIG_MIX8_round(1) [OF assms(1), of "ra ! 0" "ra ! 1" "ra ! 2" "ra ! 3"] rs l [OF assms(3)] renamed_id [OF assms(1)]
    by (simp add: p1_def)
  moreover have "renamed [4, 1, 6, 3, 0, 5, 2, 7] p2 = tf_round rb (renamed [2, 1, 4, 7, 6, 5, 0, 3] p1)"
    using TFBIG_MIX8_round(2) [OF len(1), of "rb ! 0" "rb ! 1" "rb ! 2" "rb ! 3"] rs l [OF assms(4)] by (simp add: p2_def)
  moreover have "renamed [6, 1, 0, 7, 2, 5, 4, 3] p3 = tf_round rc (renamed [4, 1, 6, 3, 0, 5, 2, 7] p2)"
    using TFBIG_MIX8_round(3) [OF len(2), of "rc ! 0" "rc ! 1" "rc ! 2" "rc ! 3"] rs l [OF assms(5)] by (simp add: p3_def)
  moreover have "p4 = tf_round rd (renamed [6, 1, 0, 7, 2, 5, 4, 3] p3)"
    using TFBIG_MIX8_round(4) [OF len(3), of "rd ! 0" "rd ! 1" "rd ! 2" "rd ! 3"] rs l [OF assms(6)] renamed_id [OF len(4)]
    by (simp add: p4_def)
  ultimately show ?thesis by (simp add: Let_def p1_def p2_def p3_def p4_def)
qed

lemma M_tables:
  "M9 = map (\<lambda>s. map (\<lambda>i. (s + i) mod 9) [0..<8]) [0..<19]" "M3 = map (\<lambda>s. map (\<lambda>j. (s + j) mod 3) [0..<2]) [0..<19]"
  by code_simp+

lemma nth_M9: "s < 19 \<Longrightarrow> i < 8 \<Longrightarrow> M9 ! s ! i = (s + i) mod 9"
  by (simp add: M_tables(1) del: upt_Suc upt_rec_numeral)

lemma nth_M3: "s < 19 \<Longrightarrow> j < 2 \<Longrightarrow> M3 ! s ! j = (s + j) mod 3"
  by (simp add: M_tables(2) del: upt_Suc upt_rec_numeral)

lemma TFBIG_ADDKEY_subkey:
  assumes "length p = 8" and "length h = 8" and "s < 19" and "TFBIG_KINIT h t0 t1 = (k, t)"
  shows "TFBIG_ADDKEY p k t s = map2 (+) p (tf_subkey h (t0, t1) s)"
proof -
  obtain a b c d e f g i where h: "h = [a, b, c, d, e, f, g, i]" using assms(2) by (rule list8_cases)
  obtain p0 p1 p2 p3 p4 p5 p6 p7 where p: "p = [p0, p1, p2, p3, p4, p5, p6, p7]" using assms(1) by (rule list8_cases)
  have kt: "k = h @ [foldl (XOR) 0x1BD11BDAA9FC1A22 h]" "t = [t0, t1, t0 XOR t1]"
    using assms(4) by (auto simp: TFBIG_KINIT_def Let_def h ac_simps)
  note M = nth_M9 [OF assms(3)] nth_M3 [OF assms(3)]
  show ?thesis
    unfolding TFBIG_ADDKEY_def tf_subkey_def Let_def kt p fst_conv snd_conv
    by (simp add: M M [of 0, simplified] M [of 1, simplified] add.assoc)
qed

lemma length_tf [simp]:
  "length (tf_round r v) = 8" "length (tf_subkey k tw s) = 8" "length (tf_step k tw v d) = 8"
  by (simp_all add: tf_round_def tf_subkey_def tf_step_def Let_def)

lemma TFBIG_4_rounds:
  assumes "length p = 8" and "length h = 8" and "s < 18" and "TFBIG_KINIT h t0 t1 = (k, t)"
  shows "even s \<Longrightarrow> TFBIG_4e k t s p = foldl (tf_step h (t0, t1)) p [4 * s..<4 * s + 4]"
    and "odd s \<Longrightarrow> TFBIG_4o k t s p = foldl (tf_step h (t0, t1)) p [4 * s..<4 * s + 4]"
proof -
  let ?q = "TFBIG_ADDKEY p k t s"
  have q: "?q = map2 (+) p (tf_subkey h (t0, t1) s)" using TFBIG_ADDKEY_subkey assms by simp
  have lq: "length ?q = 8" by (simp add: TFBIG_ADDKEY_def)
  have u: "[4 * s..<4 * s + 4] = [4 * s, 4 * s + 1, 4 * s + 2, 4 * s + 3]" by (simp add: upt_rec)
  have e: "(4 * s + i) mod 8 = (if even s then i else 4 + i)" if "i < 4" for i
  proof (cases "even s")
    case True
    then obtain b where "4 * s + i = i + 8 * b" by (auto elim: evenE)
    then show ?thesis using True that by simp
  next
    case False
    then obtain b where "4 * s + i = (4 + i) + 8 * b" by (auto elim: oddE)
    then show ?thesis using False that by (simp only: mod_mult_self2) simp
  qed
  have m: "(4 * s + i) mod 4 = i" "(4 * s + i) div 4 = s" if "i < 4" for i using that by simp_all
  have steps: "foldl (tf_step h (t0, t1)) p [4 * s..<4 * s + 4] =
      tf_round (tf_rotations ! ((4 * s + 3) mod 8)) (tf_round (tf_rotations ! ((4 * s + 2) mod 8))
       (tf_round (tf_rotations ! ((4 * s + 1) mod 8)) (tf_round (tf_rotations ! ((4 * s + 0) mod 8)) ?q)))"
    unfolding u q using m [of 1] m [of 2] m [of 3] by (simp add: tf_step_def)
  show "TFBIG_4e k t s p = foldl (tf_step h (t0, t1)) p [4 * s..<4 * s + 4]" if "even s"
    unfolding steps using that e [of 0] e [of 1] e [of 2] e [of 3]
      MIX8_rounds [OF lq, of "[46, 36, 19, 37]" "[33, 27, 14, 42]" "[17, 49, 36, 39]" "[44, 9, 54, 56]"]
    by (simp add: TFBIG_4e_def Let_def tf_rotations_def)
  show "TFBIG_4o k t s p = foldl (tf_step h (t0, t1)) p [4 * s..<4 * s + 4]" if "odd s"
    unfolding steps using that e [of 0] e [of 1] e [of 2] e [of 3]
      MIX8_rounds [OF lq, of "[39, 30, 34, 24]" "[13, 50, 10, 17]" "[25, 29, 39, 43]" "[8, 35, 56, 22]"]
    by (simp add: TFBIG_4o_def Let_def tf_rotations_def)
qed

definition skein_tweak :: "nat \<Rightarrow> nat \<Rightarrow> bool \<Rightarrow> bool \<Rightarrow> bool \<Rightarrow> nat" where
  "skein_tweak typ pos first final bitpad =
     pos + 2 ^ 119 * of_bool bitpad + 2 ^ 120 * typ + 2 ^ 126 * of_bool first + 2 ^ 127 * of_bool final"

definition ubi_block :: "u64 list \<Rightarrow> bytes \<Rightarrow> nat \<Rightarrow> u64 list" where
  "ubi_block h block tweak =
     (let m = map (\<lambda>i. le_dec (take 8 (drop (8 * i) block))) [0, 1, 2, 3, 4, 5, 6, 7]
      in map2 (XOR) m (threefish h (of_nat tweak, of_nat (tweak div 2 ^ 64)) m))"

text \<open>A message whose length is not a number of bytes is completed by a one and zeros.\<close>

definition ubi_bytes :: "bool list \<Rightarrow> bytes" where
  "ubi_bytes M = bytes_of_bits (if length M mod 8 = 0 then M else M @ True # replicate (7 - length M mod 8) False)"

definition ubi :: "nat \<Rightarrow> u64 list \<Rightarrow> bool list \<Rightarrow> u64 list" where
  "ubi typ G M =
     (let N = ubi_bytes M; k = max 1 ((length N + 63) div 64); P = N @ replicate (64 * k - length N) 0
      in foldl (\<lambda>h i. ubi_block h (take 64 (drop (64 * i) P))
           (skein_tweak typ (min (length N) (64 * (i + 1))) (i = 0) (i + 1 = k) (i + 1 = k \<and> length M mod 8 \<noteq> 0))) G [0..<k])"

definition skein_config :: "nat \<Rightarrow> bytes" where
  "skein_config bits = [0x53, 0x48, 0x41, 0x33, 1, 0, 0, 0] @ le_enc 8 (of_nat bits :: u64) @ replicate 16 0"

definition skein_spec :: "nat \<Rightarrow> bool list \<Rightarrow> bytes" where
  "skein_spec bits M =
     (let G = ubi 48 (ubi 4 (replicate 8 0) (bits_of_bytes (skein_config bits))) M
      in take (bits div 8) (concat (map (le_enc 8) (ubi 63 G (bits_of_bytes (replicate 8 0))))))"

section \<open>A block\<close>

lemma tf_rounds_append: "a \<le> b \<Longrightarrow> b \<le> c \<Longrightarrow> foldl f (foldl f v [a..<b]) [b..<c] = foldl f v [a..<c]"
  using upt_add_eq_append [of a b "c - b"] by (simp flip: foldl_append)

lemma length_tf_steps: "length v = 8 \<Longrightarrow> length (foldl (tf_step k tw) v ds) = 8"
  by (induction ds arbitrary: v) simp_all

lemma TFBIG_threefish:
  assumes "length m = 8" and "length h = 8" and kt: "TFBIG_KINIT h t0 t1 = (k, t)"
  shows "TFBIG_ADDKEY (TFBIG_4o k t 17 (TFBIG_4e k t 16 (TFBIG_4o k t 15 (TFBIG_4e k t 14 (TFBIG_4o k t 13 (TFBIG_4e k t 12
      (TFBIG_4o k t 11 (TFBIG_4e k t 10 (TFBIG_4o k t 9 (TFBIG_4e k t 8 (TFBIG_4o k t 7 (TFBIG_4e k t 6
      (TFBIG_4o k t 5 (TFBIG_4e k t 4 (TFBIG_4o k t 3 (TFBIG_4e k t 2 (TFBIG_4o k t 1 (TFBIG_4e k t 0 m)))))))))))))))))) k t 18 =
    threefish h (t0, t1) m"
proof -
  let ?R = "\<lambda>s. foldl (tf_step h (t0, t1)) m [0..<4 * s]"
  have len: "length (?R s) = 8" for s by (rule length_tf_steps [OF assms(1)])
  have step: "TFBIG_4o k t (2 * j + 1) (TFBIG_4e k t (2 * j) (?R (2 * j))) = ?R (2 * j + 2)" if "j < 9" for j
  proof -
    have "TFBIG_4e k t (2 * j) (?R (2 * j)) = ?R (2 * j + 1)"
      using TFBIG_4_rounds(1) [OF len assms(2) _ kt, of "2 * j" "2 * j"] tf_rounds_append [of 0 "4 * (2 * j)" "4 * (2 * j) + 4"] that
      by (simp add: algebra_simps)
    moreover have "TFBIG_4o k t (2 * j + 1) (?R (2 * j + 1)) = ?R (2 * j + 2)"
      using TFBIG_4_rounds(2) [OF len assms(2) _ kt, of "2 * j + 1" "2 * j + 1"]
        tf_rounds_append [of 0 "4 * (2 * j + 1)" "4 * (2 * j + 1) + 4"] that
      by (simp add: algebra_simps)
    ultimately show ?thesis by simp
  qed
  have "TFBIG_4o k t 17 (TFBIG_4e k t 16 (TFBIG_4o k t 15 (TFBIG_4e k t 14 (TFBIG_4o k t 13 (TFBIG_4e k t 12
      (TFBIG_4o k t 11 (TFBIG_4e k t 10 (TFBIG_4o k t 9 (TFBIG_4e k t 8 (TFBIG_4o k t 7 (TFBIG_4e k t 6
      (TFBIG_4o k t 5 (TFBIG_4e k t 4 (TFBIG_4o k t 3 (TFBIG_4e k t 2 (TFBIG_4o k t 1 (TFBIG_4e k t 0 m))))))))))))))))) = ?R 18"
    using step [of 0] step [of 1] step [of 2] step [of 3] step [of 4] step [of 5] step [of 6] step [of 7] step [of 8]
    by (simp del: upt_rec_numeral)
  then show ?thesis
    using TFBIG_ADDKEY_subkey [OF len assms(2) _ kt, of 18 18] by (simp add: threefish_def del: upt_rec_numeral)
qed

lemma UBI_BIG_block:
  assumes "length buf = 64" and "length h = 8" and "64 * c + extra < 2 ^ 64" and "etype < 512"
  shows "UBI_BIG etype extra buf (of_nat c) h = ubi_block h buf (64 * c + extra + 2 ^ 119 * etype)"
proof -
  let ?T = "64 * c + extra + 2 ^ 119 * etype"
  let ?m = "map (\<lambda>i. le_dec (take 8 (drop (8 * i) buf))) [0, 1, 2, 3, 4, 5, 6, 7] :: u64 list"
  have m: "map (\<lambda>i. sph_dec64le_aligned host (drop (8 * i) buf)) [0, 1, 2, 3, 4, 5, 6, 7] = ?m"
    using assms(1) by (simp add: sph_decoders)
  have l: "length ?m = 8" by simp
  have c: "c < 2 ^ 58" using assms(3) by simp
  have t0: "push_bit 6 (of_nat c) + of_nat extra = (of_nat ?T :: u64)"
  proof -
    have "(2 :: nat) ^ LENGTH(64) dvd 2 ^ 119 * etype" by (intro dvd_mult2 le_imp_power_dvd) simp
    then have "(of_nat (2 ^ 119 * etype) :: u64) = 0" by (simp only: word_of_nat_eq_0_iff)
    then show ?thesis by (simp only: of_nat_add) (simp add: push_bit_eq_mult)
  qed
  have "drop_bit 58 (of_nat c :: u64) = 0"
  proof -
    have "unat (of_nat c :: u64) = c" using c by (simp add: unat_of_nat)
    then have "unat (drop_bit 58 (of_nat c :: u64)) = 0" using c by (simp only: unat_drop_bit_eq) (simp add: drop_bit_eq_div)
    then show ?thesis by (simp only: unat_eq_0)
  qed
  moreover have "?T div 2 ^ 64 = 2 ^ 55 * etype"
  proof -
    have "?T = (64 * c + extra) + 2 ^ 64 * (2 ^ 55 * etype)" by simp
    then show ?thesis using assms(3) by (simp only: div_mult_self2) simp
  qed
  ultimately have t1: "drop_bit 58 (of_nat c) + push_bit 55 (of_nat etype) = (of_nat (?T div 2 ^ 64) :: u64)"
    by (simp add: push_bit_eq_mult)
  obtain k t where kt: "TFBIG_KINIT h (of_nat ?T) (of_nat (?T div 2 ^ 64)) = (k, t)" by fastforce
  define p where "p = threefish h (of_nat ?T, of_nat (?T div 2 ^ 64)) ?m"
  have p: "length p = 8" by (simp add: p_def threefish_def length_tf_steps)
  have "UBI_BIG etype extra buf (of_nat c) h = [?m ! 0 XOR p ! 0, ?m ! 1 XOR p ! 1, ?m ! 2 XOR p ! 2, ?m ! 3 XOR p ! 3,
      ?m ! 4 XOR p ! 4, ?m ! 5 XOR p ! 5, ?m ! 6 XOR p ! 6, ?m ! 7 XOR p ! 7]"
    unfolding UBI_BIG_def m t0 t1 Let_def kt split p_def TFBIG_threefish [OF l assms(2) kt] ..
  also have "\<dots> = map2 (XOR) ?m p"
    using p by (elim list8_cases) simp
  finally show ?thesis by (simp only: ubi_block_def Let_def p_def)
qed

section \<open>Initial values\<close>

text \<open>Threefish over the integers, which evaluates quickly: the keys are rotated instead of indexed.\<close>

definition irotl :: "nat \<Rightarrow> int \<Rightarrow> int" where
  "irotl r x = take_bit 64 (push_bit r x) OR drop_bit (64 - r) x"

definition iadd :: "int \<Rightarrow> int \<Rightarrow> int" where
  "iadd x y = (x + y) mod 18446744073709551616"

fun iround :: "nat list \<Rightarrow> int list \<Rightarrow> int list" where
  "iround [r0, r1, r2, r3] [a, b, c, d, e, f, g, h] =
     (let a' = iadd a b; c' = iadd c d; e' = iadd e f; g' = iadd g h
      in [c', irotl r0 b XOR a', e', irotl r3 h XOR g', g', irotl r2 f XOR e', a', irotl r1 d XOR c'])"
| "iround r v = v"

fun ikey :: "int list \<Rightarrow> int list \<Rightarrow> int \<Rightarrow> int list \<Rightarrow> int list" where
  "ikey [k0, k1, k2, k3, k4, k5, k6, k7, k8] [t0, t1, t2] s [a, b, c, d, e, f, g, h] =
     [iadd a k0, iadd b k1, iadd c k2, iadd d k3, iadd e k4, iadd f (iadd k5 t0), iadd g (iadd k6 t1), iadd h (iadd k7 s)]"
| "ikey k t s v = v"

fun isteps :: "nat \<Rightarrow> int list \<Rightarrow> int list \<Rightarrow> int \<Rightarrow> int list \<Rightarrow> int list" where
  "isteps 0 k t s v = ikey k t s v"
| "isteps (Suc n) k t s v =
     isteps n (rotate1 (rotate1 k)) (rotate1 (rotate1 t)) (s + 2)
       (iround [8, 35, 56, 22] (iround [25, 29, 39, 43] (iround [13, 50, 10, 17] (iround [39, 30, 34, 24]
         (ikey (rotate1 k) (rotate1 t) (s + 1)
           (iround [44, 9, 54, 56] (iround [17, 49, 36, 39] (iround [33, 27, 14, 42] (iround [46, 36, 19, 37]
             (ikey k t s v))))))))))"

lemma uint_rotl: "0 < r \<Longrightarrow> r < 64 \<Longrightarrow> uint (word_rotl r (x :: u64)) = irotl r (uint x)"
  using shifts_or_rotl [of r x, symmetric] take_bit_int_eq_self [of "uint x" 64] uint_lt2p [of x]
  by (simp add: irotl_def unsigned_or_eq unsigned_push_bit_eq unsigned_drop_bit_eq)

lemma uint_add: "uint (x + y :: u64) = iadd (uint x) (uint y)"
  by (simp add: uint_word_ariths iadd_def)

lemma iround_tf:
  assumes "length v = 8" and "\<forall>r \<in> {r0, r1, r2, r3}. 0 < r \<and> r < 64"
  shows "iround [r0, r1, r2, r3] (map uint v) = map uint (tf_round [r0, r1, r2, r3] v)"
proof -
  obtain a b c d e f g h where v: "v = [a, b, c, d, e, f, g, h]" using assms(1) by (rule list8_cases)
  show ?thesis using assms(2) by (simp add: v tf_round_def tf_permutation_def Let_def uint_add uint_xor uint_rotl)
qed

lemma iround_four:
  assumes "length v = 8"
  shows "iround [44, 9, 54, 56] (iround [17, 49, 36, 39] (iround [33, 27, 14, 42] (iround [46, 36, 19, 37] (map uint v)))) =
      map uint (tf_round [44, 9, 54, 56] (tf_round [17, 49, 36, 39] (tf_round [33, 27, 14, 42] (tf_round [46, 36, 19, 37] v))))"
    and "iround [8, 35, 56, 22] (iround [25, 29, 39, 43] (iround [13, 50, 10, 17] (iround [39, 30, 34, 24] (map uint v)))) =
      map uint (tf_round [8, 35, 56, 22] (tf_round [25, 29, 39, 43] (tf_round [13, 50, 10, 17] (tf_round [39, 30, 34, 24] v))))"
  using assms by (simp_all add: iround_tf)

lemma length_keyed: "length v = 8 \<Longrightarrow> length (map2 (+) v (tf_subkey k tw s)) = 8"
  by simp

lemma tf_subkey_rotate:
  assumes "length k = 8" and "k9 = k @ [foldl (XOR) 0x1BD11BDAA9FC1A22 k]" and "t = [t0, t1, t0 XOR t1]" and "length v = 8"
  shows "ikey (map uint (rotate s k9)) (map uint (rotate s t)) (uint (of_nat s :: u64)) (map uint v) =
    map uint (map2 (+) v (tf_subkey k (t0, t1) s))"
proof -
  obtain a b c d e f g h where v: "v = [a, b, c, d, e, f, g, h]" using assms(4) by (rule list8_cases)
  have k9: "length k9 = 9" and t: "length t = 3" using assms(1-3) by simp_all
  have rot: "rotate s xs = map (\<lambda>i. xs ! ((s + i) mod length xs)) [0..<length xs]" for xs :: "u64 list"
    by (intro nth_equalityI) (simp_all add: nth_rotate)
  have "[0..<9] = [0, 1, 2, 3, 4, 5, 6, 7, 8]" "[0..<3] = [0, 1, 2]" by code_simp+
  then have "rotate s k9 = map (\<lambda>i. k9 ! ((s + i) mod 9)) [0, 1, 2, 3, 4, 5, 6, 7, 8]"
    "rotate s t = map (\<lambda>i. t ! ((s + i) mod 3)) [0, 1, 2]"
    using rot [of k9] rot [of t] unfolding k9 t by (simp_all only:)
  then show ?thesis
    by (simp add: v tf_subkey_def Let_def uint_add assms(2,3) [symmetric])
qed

lemma tf_eight_steps:
  "foldl (tf_step k tw) v [8 * j..<8 * j + 8] =
     tf_round [8, 35, 56, 22] (tf_round [25, 29, 39, 43] (tf_round [13, 50, 10, 17] (tf_round [39, 30, 34, 24]
       (map2 (+) (tf_round [44, 9, 54, 56] (tf_round [17, 49, 36, 39] (tf_round [33, 27, 14, 42] (tf_round [46, 36, 19, 37]
         (map2 (+) v (tf_subkey k tw (2 * j))))))) (tf_subkey k tw (2 * j + 1))))))"
proof -
  have u: "[8 * j..<8 * j + 8] = [8 * j, 8 * j + 1, 8 * j + 2, 8 * j + 3, 8 * j + 4, 8 * j + 5, 8 * j + 6, 8 * j + 7]"
    by (simp add: upt_rec)
  have m8: "(8 * j + i) mod 8 = i" if "i < 8" for i using that by simp
  have m4: "(8 * j + i) mod 4 = i mod 4" "(8 * j + i) div 4 = 2 * j + i div 4" for i
  proof -
    have "8 * j + i = i + 4 * (2 * j)" by simp
    then show "(8 * j + i) mod 4 = i mod 4" "(8 * j + i) div 4 = 2 * j + i div 4" by (simp_all only: mod_mult_self2 div_mult_self2)
  qed
  have st: "tf_step k tw x (8 * j + i) = tf_round (tf_rotations ! i) (if i mod 4 = 0 then map2 (+) x (tf_subkey k tw (2 * j + i div 4)) else x)"
    if "i < 8" for x i using m8 [OF that] m4 by (simp add: tf_step_def)
  show ?thesis
    unfolding u foldl.simps using st [of 0] st [of 1] st [of 2] st [of 3] st [of 4] st [of 5] st [of 6] st [of 7]
    by (simp add: tf_rotations_def)
qed

lemma isteps_tf:
  assumes "length k = 8" and "k9 = k @ [foldl (XOR) 0x1BD11BDAA9FC1A22 k]" and "t = [t0, t1, t0 XOR t1]" and "length v = 8" and "n \<le> 9"
  shows "isteps n (map uint (rotate (2 * (9 - n)) k9)) (map uint (rotate (2 * (9 - n)) t)) (int (2 * (9 - n))) (map uint v) =
    map uint (map2 (+) (foldl (tf_step k (t0, t1)) v [8 * (9 - n)..<72]) (tf_subkey k (t0, t1) 18))"
  using assms(4,5)
proof (induction n arbitrary: v)
  case 0
  then show ?case using tf_subkey_rotate [OF assms(1-3), of v 18] by simp
next
  case (Suc n)
  define j where "j = 9 - Suc n"
  have j: "9 - n = j + 1" "j < 9" using Suc.prems by (auto simp: j_def)
  have s: "uint (of_nat (2 * j) :: u64) = int (2 * j)" "uint (of_nat (2 * j + 1) :: u64) = int (2 * j) + 1"
    using j(2) by (simp_all add: uint_word_ariths unsigned_of_nat take_bit_nat_eq_self)
  let ?w = "foldl (tf_step k (t0, t1)) v [8 * j..<8 * j + 8]"
  note key = tf_subkey_rotate [OF assms(1-3)]
  have k1: "ikey (map uint (rotate (2 * j) k9)) (map uint (rotate (2 * j) t)) (int (2 * j)) (map uint x) =
      map uint (map2 (+) x (tf_subkey k (t0, t1) (2 * j)))" if "length x = 8" for x
    using key [OF that, of "2 * j"] s(1) by simp
  have k2: "ikey (rotate1 (map uint (rotate (2 * j) k9))) (rotate1 (map uint (rotate (2 * j) t))) (int (2 * j) + 1) (map uint x) =
      map uint (map2 (+) x (tf_subkey k (t0, t1) (2 * j + 1)))" if "length x = 8" for x
    using key [OF that, of "2 * j + 1"] s(2) by (simp add: rotate1_map)
  have "isteps (Suc n) (map uint (rotate (2 * j) k9)) (map uint (rotate (2 * j) t)) (int (2 * j)) (map uint v) =
      isteps n (map uint (rotate (2 * (j + 1)) k9)) (map uint (rotate (2 * (j + 1)) t)) (int (2 * (j + 1))) (map uint ?w)"
  proof -
    have two: "int (2 * j) + 2 = int (2 * (j + 1))" "rotate1 (rotate1 (map uint (rotate (2 * j) xs))) = map uint (rotate (2 * (j + 1)) xs)"
      for xs :: "u64 list"
      by (simp_all add: rotate1_map)
    show ?thesis
      unfolding tf_eight_steps isteps.simps two k1 [OF Suc.prems(1)]
      by (simp only: iround_four(1) [OF length_keyed] k2 [OF length_tf(1)] iround_four(2) [OF length_keyed] length_tf Suc.prems(1))
  qed
  also have "\<dots> = map uint (map2 (+) (foldl (tf_step k (t0, t1)) ?w [8 * (j + 1)..<72]) (tf_subkey k (t0, t1) 18))"
    using Suc.IH [of ?w] Suc.prems j(1) length_tf_steps by simp
  also have "foldl (tf_step k (t0, t1)) ?w [8 * (j + 1)..<72] = foldl (tf_step k (t0, t1)) v [8 * j..<72]"
    using tf_rounds_append [of "8 * j" "8 * j + 8" 72] j(2) by (simp add: algebra_simps)
  finally show ?case by (simp only: j_def)
qed

lemma threefish_isteps:
  assumes "length k = 8" and "length v = 8"
  shows "map uint (threefish k (t0, t1) v) =
    isteps 9 (map uint (k @ [foldl (XOR) 0x1BD11BDAA9FC1A22 k])) (map uint [t0, t1, t0 XOR t1]) 0 (map uint v)"
  using isteps_tf [OF assms(1) refl refl assms(2), of 9 t0 t1] by (simp add: threefish_def)

lemma ubi_single:
  assumes "0 < length N" and "length N \<le> 64"
  shows "ubi typ G (bits_of_bytes N) = ubi_block G (N @ replicate (64 - length N) 0) (skein_tweak typ (length N) True True False)"
proof -
  have "ubi_bytes (bits_of_bytes N) = N" by (simp add: ubi_bytes_def bytes_of_bits_of_bytes)
  moreover have "max 1 ((length N + 63) div 64) = 1" using assms by simp
  ultimately show ?thesis using assms by (simp add: ubi_def Let_def)
qed

lemma threefish_eqI:
  fixes m r :: "u64 list"
  assumes "map2 (XOR) (map uint m) (isteps 9 (map uint (h @ [foldl (XOR) 0x1BD11BDAA9FC1A22 h])) (map uint [t0, t1, t0 XOR t1]) 0 (map uint m)) = map uint r"
    and "length h = 8" and "length m = 8"
  shows "map2 (XOR) m (threefish h (t0, t1) m) = r"
proof -
  have "map uint (map2 (XOR) m (threefish h (t0, t1) m)) = map2 (XOR) (map uint m) (map uint (threefish h (t0, t1) m))"
    by (simp add: zip_map_map split_def uint_xor)
  then have "map uint (map2 (XOR) m (threefish h (t0, t1) m)) = map uint r"
    using assms by (simp only: threefish_isteps)
  then show ?thesis by (rule map_injective) (simp add: inj_def word_uint_eq_iff)
qed

lemma config_words:
  "map (\<lambda>i. le_dec (take 8 (drop (8 * i) (skein_config bits @ replicate 32 0)))) [0, 1, 2, 3, 4, 5, 6, 7] =
     [0x133414853, of_nat bits, 0, 0, 0, 0, 0, 0 :: u64]"
proof -
  have w: "le_dec (take 8 (drop (8 * i) (replicate 16 0 @ replicate 32 0))) = (0 :: u64)" for i
    by (rule bit_eqI) (simp add: bit_le_dec flip: replicate_add)
  have "le_dec [0x53, 0x48, 0x41, 0x33, 1, 0, 0, 0] = (0x133414853 :: u64)" by code_simp
  moreover have "le_dec (le_enc 8 (of_nat bits :: u64)) = (of_nat bits :: u64)" by (rule bit_eqI) (simp add: le_dec_le_enc bit_take_bit_iff bit_imp_le_length)
  ultimately show ?thesis using w [of 0] w [of 1] w [of 2] w [of 3] w [of 4] w [of 5]
    by (simp add: skein_config_def)
qed

lemma ubi_config:
  "ubi 4 (replicate 8 0) (bits_of_bytes (skein_config bits)) =
     map2 (XOR) [0x133414853, of_nat bits, 0, 0, 0, 0, 0, 0]
       (threefish (replicate 8 0) (32, 0xC400000000000000) [0x133414853, of_nat bits, 0, 0, 0, 0, 0, 0])"
proof -
  have l: "length (skein_config bits) = 32" by (simp add: skein_config_def)
  have "(of_nat (skein_tweak 4 32 True True False) :: u64) = 32" "(of_nat (skein_tweak 4 32 True True False div 2 ^ 64) :: u64) = 0xC400000000000000"
    by (simp_all add: skein_tweak_def)
  then show ?thesis using ubi_single [of "skein_config bits" 4 "replicate 8 0"] config_words [of bits]
    by (simp add: l ubi_block_def Let_def)
qed

lemma skein_IVs:
  "ubi 4 (replicate 8 0) (bits_of_bytes (skein_config 224)) = skein_IV224"
  "ubi 4 (replicate 8 0) (bits_of_bytes (skein_config 256)) = skein_IV256"
  "ubi 4 (replicate 8 0) (bits_of_bytes (skein_config 384)) = skein_IV384"
  "ubi 4 (replicate 8 0) (bits_of_bytes (skein_config 512)) = skein_IV512"
proof -
  have z: "replicate 8 (0 :: u64) = [0, 0, 0, 0, 0, 0, 0, 0]" by (simp add: numeral_eq_Suc)
  have k: "map uint (replicate 8 0 @ [foldl (XOR) 0x1BD11BDAA9FC1A22 (replicate 8 (0 :: u64))]) = [0, 0, 0, 0, 0, 0, 0, 0, 0x1BD11BDAA9FC1A22]"
    unfolding z by simp
  have t: "map uint [32, 0xC400000000000000, 32 XOR 0xC400000000000000 :: u64] = [32, 0xC400000000000000, 0xC400000000000020]"
    by simp
  have IV: "map uint skein_IV224 = [0xCCD0616248677224, 0xCBA65CF3A92339EF, 0x8CCD69D652FF4B64, 0x398AED7B3AB890B4,
     0x0F59D1B1457D2BD0, 0x6776FE6575D4EB3D, 0x99FBC70E997413E9, 0x9E2CFCCFE1C41EF7]"
    "map uint skein_IV256 = [0xCCD044A12FDB3E13, 0xE83590301A79A9EB, 0x55AEA0614F816E6F, 0x2A2767A4AE9B94DB,
     0xEC06025E74DD7683, 0xE7A436CDC4746251, 0xC36FBAF9393AD185, 0x3EEDBA1833EDFC13]"
    "map uint skein_IV384 = [0xA3F6C6BF3A75EF5F, 0xB0FEF9CCFD84FAA4, 0x9D77DD663D770CFE, 0xD798CBF3B468FDDA,
     0x1BC4A6668A0E4465, 0x7ED7D434E5807407, 0x548FC1ACD4EC44D6, 0x266E17546AA18FF8]"
    "map uint skein_IV512 = [0x4903ADFF749C51CE, 0x0D95DE399746DF03, 0x8FD1934127C79BCE, 0x9A255629FF352CB1,
     0x5DB62599DF6CA7B0, 0xEABE394CA9D5C3F4, 0x991112C71A75B523, 0xAE18A40B660FCC33]"
    by (simp_all add: skein_IV224_def skein_IV256_def skein_IV384_def skein_IV512_def)
  have m: "map uint [0x133414853, of_nat 224, 0, 0, 0, 0, 0, 0 :: u64] = [0x133414853, 224, 0, 0, 0, 0, 0, 0]"
    "map uint [0x133414853, of_nat 256, 0, 0, 0, 0, 0, 0 :: u64] = [0x133414853, 256, 0, 0, 0, 0, 0, 0]"
    "map uint [0x133414853, of_nat 384, 0, 0, 0, 0, 0, 0 :: u64] = [0x133414853, 384, 0, 0, 0, 0, 0, 0]"
    "map uint [0x133414853, of_nat 512, 0, 0, 0, 0, 0, 0 :: u64] = [0x133414853, 512, 0, 0, 0, 0, 0, 0]"
    by simp_all
  show "ubi 4 (replicate 8 0) (bits_of_bytes (skein_config 224)) = skein_IV224"
    unfolding ubi_config by (rule threefish_eqI, unfold k t m IV, code_simp, simp, simp)
  show "ubi 4 (replicate 8 0) (bits_of_bytes (skein_config 256)) = skein_IV256"
    unfolding ubi_config by (rule threefish_eqI, unfold k t m IV, code_simp, simp, simp)
  show "ubi 4 (replicate 8 0) (bits_of_bytes (skein_config 384)) = skein_IV384"
    unfolding ubi_config by (rule threefish_eqI, unfold k t m IV, code_simp, simp, simp)
  show "ubi 4 (replicate 8 0) (bits_of_bytes (skein_config 512)) = skein_IV512"
    unfolding ubi_config by (rule threefish_eqI, unfold k t m IV, code_simp, simp, simp)
qed

section \<open>Streaming\<close>

text \<open>
  \<open>skein_inv iv m c sc\<close>: the context has absorbed \<open>m\<close>, of which \<open>c\<close> blocks are processed; the rest
  fills the buffer, which stays full until the next byte arrives.
\<close>

definition skein_chain :: "nat \<Rightarrow> u64 list \<Rightarrow> nat \<Rightarrow> bytes \<Rightarrow> u64 list" where
  "skein_chain typ h c N =
     foldl (\<lambda>h i. ubi_block h (take 64 (drop (64 * i) N)) (skein_tweak typ (64 * (i + 1)) (i = 0) False False)) h [0..<c]"

definition skein_inv :: "u64 list \<Rightarrow> bytes \<Rightarrow> nat \<Rightarrow> skein_context \<Rightarrow> bool" where
  "skein_inv iv m c sc \<longleftrightarrow> sk_h sc = skein_chain 48 iv c m \<and> sk_bcount sc = of_nat c \<and> length (sk_buf sc) = 64
     \<and> length m = 64 * c + sk_ptr sc \<and> sk_ptr sc \<le> 64 \<and> take (sk_ptr sc) (sk_buf sc) = drop (64 * c) m"

lemma length_ubi_block [simp]: "length (ubi_block h b t) = 8"
  by (simp add: ubi_block_def Let_def threefish_def length_tf_steps)

lemma length_skein_chain: "length iv = 8 \<Longrightarrow> length (skein_chain typ iv c m) = 8"
  by (cases c) (simp_all add: skein_chain_def)

lemma skein_chain_append: "64 * c \<le> length m \<Longrightarrow> skein_chain typ iv c (m @ d) = skein_chain typ iv c m"
  unfolding skein_chain_def by (rule foldl_cong) auto

lemma skein_chain_Suc:
  "skein_chain typ iv (Suc c) m = ubi_block (skein_chain typ iv c m) (take 64 (drop (64 * c) m)) (skein_tweak typ (64 * (c + 1)) (c = 0) False False)"
  by (simp add: skein_chain_def)

lemma skein_bcount_zero:
  assumes "skein_inv iv m c sc" and "length m < 2 ^ 64"
  shows "sk_bcount sc = 0 \<longleftrightarrow> c = 0"
proof -
  have "c < 2 ^ 58" using assms by (simp add: skein_inv_def)
  then show ?thesis using assms(1) by (simp add: skein_inv_def word_of_nat_eq_0_iff) (auto dest: dvd_imp_le)
qed

lemma skein_inv_flush:
  assumes "skein_inv iv m c sc" and "sk_ptr sc = 64" and "length iv = 8" and "length m < 2 ^ 64"
  shows "skein_inv iv m (c + 1)
    (sc\<lparr>sk_bcount := sk_bcount sc + 1,
        sk_h := UBI_BIG (96 + (if c = 0 then 128 else 0)) 0 (sk_buf sc) (sk_bcount sc + 1) (sk_h sc), sk_ptr := 0\<rparr>)"
proof -
  have m: "length m = 64 * (c + 1)" "drop (64 * c) m = sk_buf sc" and b: "length (sk_buf sc) = 64" "sk_bcount sc + 1 = of_nat (c + 1)"
    using assms(1,2) by (auto simp: skein_inv_def)
  have "UBI_BIG (96 + (if c = 0 then 128 else 0)) 0 (sk_buf sc) (of_nat (c + 1)) (sk_h sc) =
      ubi_block (sk_h sc) (sk_buf sc) (64 * (c + 1) + 0 + 2 ^ 119 * (96 + (if c = 0 then 128 else 0)))"
    using assms m(1) b(1) by (intro UBI_BIG_block) (simp_all add: skein_inv_def length_skein_chain)
  also have "64 * (c + 1) + 0 + 2 ^ 119 * (96 + (if c = 0 then 128 else 0)) = skein_tweak 48 (64 * (c + 1)) (c = 0) False False"
    by (simp add: skein_tweak_def)
  finally have "UBI_BIG (96 + (if c = 0 then 128 else 0)) 0 (sk_buf sc) (of_nat (c + 1)) (sk_h sc) = skein_chain 48 iv (c + 1) m"
    using assms(1) m(2) b(1) by (simp add: skein_chain_Suc skein_inv_def)
  then show ?thesis using m(1) b unfolding b(2) by (simp add: skein_inv_def)
qed

lemma skein_inv_fill:
  assumes "skein_inv iv m c sc" and "sk_ptr sc + length d \<le> 64"
  shows "skein_inv iv (m @ d) c (sc\<lparr>sk_buf := memcpy_at (sk_buf sc) (sk_ptr sc) d, sk_ptr := sk_ptr sc + length d\<rparr>)"
  using assms by (auto simp: skein_inv_def skein_chain_append take_memcpy_at)

lemma skein_big_loop_inv:
  assumes "skein_inv iv m c sc" and "first = (if c = 0 then 128 else 0)" and "length iv = 8" and "length (m @ data) < 2 ^ 64" and "data \<noteq> []"
  shows "\<exists>c'. skein_inv iv (m @ data) c' (skein_big_loop first sc data) \<and> 64 * c' < length (m @ data)"
  using assms
proof (induction first sc data arbitrary: m c rule: skein_big_loop.induct)
  case (1 first sc data)
  have p: "sk_ptr sc \<le> 64" using "1.prems"(1) by (simp add: skein_inv_def)
  define sc1 where "sc1 = (if sk_ptr sc = 64 then sc\<lparr>sk_bcount := sk_bcount sc + 1,
      sk_h := UBI_BIG (96 + first) 0 (sk_buf sc) (sk_bcount sc + 1) (sk_h sc), sk_ptr := 0\<rparr> else sc)"
  define first1 where "first1 = (if sk_ptr sc = 64 then 0 else first)"
  define c1 where "c1 = (if sk_ptr sc = 64 then c + 1 else c)"
  have inv1: "skein_inv iv m c1 sc1"
    using "1.prems" skein_inv_flush [of iv m c sc] by (simp add: c1_def sc1_def)
  have f1: "first1 = (if c1 = 0 then 128 else 0)" using "1.prems"(2) by (simp add: first1_def c1_def)
  have p1: "sk_ptr sc1 < 64" using p by (simp add: sc1_def)
  define clen where "clen = min (64 - sk_ptr sc1) (length data)"
  have clen: "0 < clen" "clen \<le> length data" "sk_ptr sc1 + clen \<le> 64" using p1 "1.prems"(5) by (auto simp: clen_def)
  define sc2 where "sc2 = sc1\<lparr>sk_buf := memcpy_at (sk_buf sc1) (sk_ptr sc1) (take clen data), sk_ptr := sk_ptr sc1 + clen\<rparr>"
  have inv2: "skein_inv iv (m @ take clen data) c1 sc2"
    using skein_inv_fill [OF inv1, of "take clen data"] clen by (simp add: sc2_def min_absorb2)
  have step: "skein_big_loop first sc data = skein_big_loop first1 sc2 (drop clen data)"
    using "1.prems"(5) p by (subst skein_big_loop.simps) (simp add: Let_def sc2_def sc1_def first1_def clen_def)
  show ?case
  proof (cases "drop clen data = []")
    case True
    then have "skein_big_loop first1 sc2 (drop clen data) = sc2" by (simp add: skein_big_loop.simps)
    moreover have "64 * c1 < length (m @ data)" using inv1 "1.prems"(5) by (simp add: skein_inv_def)
    ultimately show ?thesis using inv2 True unfolding step by auto
  next
    case False
    have "\<exists>c'. skein_inv iv ((m @ take clen data) @ drop clen data) c' (skein_big_loop first1 sc2 (drop clen data))
        \<and> 64 * c' < length ((m @ take clen data) @ drop clen data)"
    proof (rule "1.IH" [of _ sc1 first1 clen, folded sc2_def])
      show "\<not> (data = [] \<or> 64 < sk_ptr sc)" using "1.prems"(5) p by simp
    qed (use False inv2 f1 "1.prems" in \<open>simp_all add: Let_def sc1_def first1_def c1_def clen_def\<close>)
    then show ?thesis unfolding step by simp
  qed
qed

lemma skein_big_core_inv:
  assumes "skein_inv iv m c sc" and "c = 0 \<or> 64 * c < length m" and "length iv = 8" and "length (m @ data) < 2 ^ 64"
  shows "\<exists>c'. skein_inv iv (m @ data) c' (skein_big_core sc data) \<and> (c' = 0 \<or> 64 * c' < length (m @ data))"
proof (cases "length data \<le> 64 - sk_ptr sc")
  case True
  moreover have "sk_ptr sc \<le> 64" using assms(1) by (simp add: skein_inv_def)
  ultimately have "skein_inv iv (m @ data) c (skein_big_core sc data)"
    using skein_inv_fill [OF assms(1), of data] by (simp add: skein_big_core_def)
  then show ?thesis using assms(2) by auto
next
  case False
  have "sk_bcount sc = 0 \<longleftrightarrow> c = 0" using skein_bcount_zero [OF assms(1)] assms(4) by simp
  moreover have "data \<noteq> []" using False by auto
  ultimately show ?thesis
    using skein_big_loop_inv [OF assms(1) refl assms(3,4)] False by (auto simp: skein_big_core_def)
qed

section \<open>Closing\<close>

lemma ubi_last_block:
  assumes "ubi_bytes M = N" and "64 * c \<le> length N" and "length N \<le> 64 * c + 64" and "c = 0 \<or> 64 * c < length N"
  shows "ubi typ G M = ubi_block (skein_chain typ G c N) (drop (64 * c) N @ replicate (64 * c + 64 - length N) 0)
    (skein_tweak typ (length N) (c = 0) True (length M mod 8 \<noteq> 0))"
proof -
  define P where "P = N @ replicate (64 * (c + 1) - length N) 0"
  have k: "max 1 ((length N + 63) div 64) = c + 1" using assms(2-4) by auto
  have "ubi typ G M = foldl (\<lambda>h i. ubi_block h (take 64 (drop (64 * i) P))
      (skein_tweak typ (min (length N) (64 * (i + 1))) (i = 0) (i + 1 = c + 1) (i + 1 = c + 1 \<and> length M mod 8 \<noteq> 0))) G [0..<c + 1]"
    unfolding ubi_def Let_def assms(1) k P_def ..
  also have "\<dots> = ubi_block (foldl (\<lambda>h i. ubi_block h (take 64 (drop (64 * i) P))
      (skein_tweak typ (min (length N) (64 * (i + 1))) (i = 0) (i + 1 = c + 1) (i + 1 = c + 1 \<and> length M mod 8 \<noteq> 0))) G [0..<c])
        (take 64 (drop (64 * c) P)) (skein_tweak typ (length N) (c = 0) True (length M mod 8 \<noteq> 0))"
    using assms(3) by simp
  also have "foldl (\<lambda>h i. ubi_block h (take 64 (drop (64 * i) P))
      (skein_tweak typ (min (length N) (64 * (i + 1))) (i = 0) (i + 1 = c + 1) (i + 1 = c + 1 \<and> length M mod 8 \<noteq> 0))) G [0..<c] =
      skein_chain typ G c N"
    unfolding skein_chain_def
  proof (rule foldl_cong)
    fix h i assume "i \<in> set [0..<c]"
    then have "64 * (i + 1) \<le> length N" "i < c" using assms(2) by auto
    then show "ubi_block h (take 64 (drop (64 * i) P))
        (skein_tweak typ (min (length N) (64 * (i + 1))) (i = 0) (i + 1 = c + 1) (i + 1 = c + 1 \<and> length M mod 8 \<noteq> 0)) =
      ubi_block h (take 64 (drop (64 * i) N)) (skein_tweak typ (64 * (i + 1)) (i = 0) False False)"
      by (simp add: P_def)
  qed simp_all
  also have "take 64 (drop (64 * c) P) = drop (64 * c) N @ replicate (64 * c + 64 - length N) 0"
    using assms(2,3) by (simp add: P_def)
  finally show ?thesis .
qed

lemma ubi_bytes_bits:
  "ubi_bytes (bits_of_bytes m) = m"
  "0 < n \<Longrightarrow> n < 8 \<Longrightarrow> ubi_bytes (bits_of_bytes m @ take n (bits_of_byte (of_nat ub))) = m @ [sph_pad_byte ub n]"
proof -
  show "ubi_bytes (bits_of_bytes m) = m" by (simp add: ubi_bytes_def bytes_of_bits_of_bytes)
  assume n: "0 < n" "n < 8"
  let ?M = "bits_of_bytes m @ take n (bits_of_byte (of_nat ub))"
  have "length ?M mod 8 = n" using n by (simp add: bits_of_byte_def)
  then have "ubi_bytes ?M = bytes_of_bits (bits_of_bytes m @ bits_of_byte (sph_pad_byte ub n))"
    using n by (simp add: ubi_bytes_def pad_byte_bits)
  also have "bits_of_bytes m @ bits_of_byte (sph_pad_byte ub n) = bits_of_bytes (m @ [sph_pad_byte ub n])"
    by (simp add: bits_of_bytes_def)
  finally show "ubi_bytes ?M = m @ [sph_pad_byte ub n]" by (simp only: bytes_of_bits_of_bytes)
qed

lemma UBI_message:
  assumes inv: "skein_inv iv N c sc" and c: "c = 0 \<or> 64 * c < length N" and "length iv = 8" and len: "length N < 2 ^ 64"
    and M: "ubi_bytes M = N" and e: "e = (if length M mod 8 \<noteq> 0 then 1 else 0)"
  shows "UBI_BIG (352 + (if sk_bcount sc = 0 then 128 else 0) + e) (sk_ptr sc)
      (memcpy_at (sk_buf sc) (sk_ptr sc) (replicate (64 - sk_ptr sc) 0)) (sk_bcount sc) (sk_h sc) = ubi 48 iv M"
proof -
  have p: "length N = 64 * c + sk_ptr sc" "sk_ptr sc \<le> 64" "length (sk_buf sc) = 64" using inv by (simp_all add: skein_inv_def)
  have z: "sk_bcount sc = 0 \<longleftrightarrow> c = 0" by (rule skein_bcount_zero [OF inv len])
  have buf: "memcpy_at (sk_buf sc) (sk_ptr sc) (replicate (64 - sk_ptr sc) 0) = drop (64 * c) N @ replicate (64 * c + 64 - length N) 0"
    using inv p by (simp add: skein_inv_def memcpy_at_def)
  have "UBI_BIG (352 + (if sk_bcount sc = 0 then 128 else 0) + e) (sk_ptr sc)
      (memcpy_at (sk_buf sc) (sk_ptr sc) (replicate (64 - sk_ptr sc) 0)) (of_nat c) (sk_h sc) =
    ubi_block (sk_h sc) (memcpy_at (sk_buf sc) (sk_ptr sc) (replicate (64 - sk_ptr sc) 0))
      (64 * c + sk_ptr sc + 2 ^ 119 * (352 + (if sk_bcount sc = 0 then 128 else 0) + e))"
    using inv p len assms(3) e by (intro UBI_BIG_block) (auto simp: skein_inv_def length_skein_chain)
  also have "64 * c + sk_ptr sc + 2 ^ 119 * (352 + (if sk_bcount sc = 0 then 128 else 0) + e) =
      skein_tweak 48 (length N) (c = 0) True (length M mod 8 \<noteq> 0)"
    unfolding z p(1) e skein_tweak_def by simp
  also have "ubi_block (sk_h sc) (memcpy_at (sk_buf sc) (sk_ptr sc) (replicate (64 - sk_ptr sc) 0)) \<dots> = ubi 48 iv M"
    using ubi_last_block [OF M _ _ c, of 48 iv] p inv unfolding buf by (simp add: skein_inv_def)
  finally show ?thesis using inv by (simp add: skein_inv_def)
qed

lemma UBI_output:
  assumes "length h = 8"
  shows "UBI_BIG 510 8 (replicate 64 0) 0 h = ubi 63 h (bits_of_bytes (replicate 8 0))"
proof -
  have "UBI_BIG 510 8 (replicate 64 0) (of_nat 0) h = ubi_block h (replicate 64 0) (64 * 0 + 8 + 2 ^ 119 * 510)"
    using assms by (intro UBI_BIG_block) simp_all
  moreover have "replicate 8 0 @ replicate (64 - 8) 0 = replicate 64 (0 :: byte)" by (simp flip: replicate_add)
  moreover have "64 * 0 + 8 + 2 ^ 119 * 510 = skein_tweak 63 8 True True False" by (simp add: skein_tweak_def)
  ultimately show ?thesis using ubi_single [of "replicate 8 0" 63 h] by simp
qed

lemma store_words:
  assumes "length buf = 64" and "length h = 8"
  shows "foldl (\<lambda>buf i. memcpy_at buf (8 * i) (sph_enc64le_aligned host (h ! i))) buf [0, 1, 2, 3, 4, 5, 6, 7] = concat (map (le_enc 8) h)"
proof -
  obtain h0 h1 h2 h3 h4 h5 h6 h7 where h: "h = [h0, h1, h2, h3, h4, h5, h6, h7]" using assms(2) by (rule list8_cases)
  show ?thesis using assms(1) by (simp add: h sph_encoders memcpy_at_adjacent) (simp add: memcpy_at_def)
qed

lemma skein_big_close_spec:
  assumes "skein_inv iv m c sc" and "c = 0 \<or> 64 * c < length m" and "length iv = 8" and "length m + 1 < 2 ^ 64" and "n < 8"
  shows "fst (skein_big_close sc ub n out) =
    take out (concat (map (le_enc 8) (ubi 63 (ubi 48 iv (bits_of_bytes m @ take n (bits_of_byte (of_nat ub)))) (bits_of_bytes (replicate 8 0)))))"
proof -
  let ?M = "bits_of_bytes m @ take n (bits_of_byte (of_nat ub))"
  define sc1 where "sc1 = (if n \<noteq> 0 then skein_big_core sc [sph_pad_byte ub n] else sc)"
  define N where "N = (if n \<noteq> 0 then m @ [sph_pad_byte ub n] else m)"
  have N: "ubi_bytes ?M = N" using ubi_bytes_bits assms(5) by (auto simp: N_def)
  have n: "length ?M mod 8 = n" using assms(5) by (simp add: bits_of_byte_def)
  obtain c' where inv: "skein_inv iv N c' sc1" and c': "c' = 0 \<or> 64 * c' < length N"
    using skein_big_core_inv [OF assms(1-3), of "[sph_pad_byte ub n]"] assms(1,2,4) unfolding sc1_def N_def by (cases "n = 0") auto
  let ?h = "ubi 48 iv ?M"
  have h: "UBI_BIG (352 + (if sk_bcount sc1 = 0 then 128 else 0) + (if n \<noteq> 0 then 1 else 0)) (sk_ptr sc1)
      (memcpy_at (sk_buf sc1) (sk_ptr sc1) (replicate (64 - sk_ptr sc1) 0)) (sk_bcount sc1) (sk_h sc1) = ?h"
    using assms(3,4) by (intro UBI_message [OF inv c' _ _ N]) (simp_all only: N_def n, auto)
  have lens: "sk_ptr sc1 \<le> 64" "length (sk_buf sc1) = 64" using inv by (simp_all add: skein_inv_def)
  have l: "length ?h = 8" "length (ubi 63 ?h (bits_of_bytes (replicate 8 0))) = 8"
    unfolding h [symmetric] by (simp_all add: UBI_BIG_def Let_def split_def ubi_single)
  have z: "memcpy_at (memcpy_at (sk_buf sc1) (sk_ptr sc1) (replicate (64 - sk_ptr sc1) 0)) 0 (replicate 64 0) = replicate 64 0"
    using lens by (simp add: memcpy_at_def)
  have s: "foldl (\<lambda>buf i. memcpy_at buf (8 * i) (sph_enc64le_aligned host (ubi 63 ?h (bits_of_bytes (replicate 8 0)) ! i))) (replicate 64 0)
      [0, 1, 2, 3, 4, 5, 6, 7] = concat (map (le_enc 8) (ubi 63 ?h (bits_of_bytes (replicate 8 0))))"
    by (rule store_words) (simp_all add: l)
  show ?thesis
    unfolding skein_big_close_def Let_def sc1_def [symmetric] h z UBI_output [OF l(1)] s fst_conv ..
qed

lemma skein_fold_inv:
  assumes "skein_inv iv m c sc" and "c = 0 \<or> 64 * c < length m" and "length iv = 8" and "length (m @ concat chunks) < 2 ^ 64"
  shows "\<exists>c'. skein_inv iv (m @ concat chunks) c' (foldl skein_big_core sc chunks) \<and> (c' = 0 \<or> 64 * c' < length (m @ concat chunks))"
  using assms
proof (induction chunks arbitrary: m c sc)
  case (Cons d chunks)
  have "length (m @ d) < 2 ^ 64" using Cons.prems(4) by simp
  then obtain c' where "skein_inv iv (m @ d) c' (skein_big_core sc d)" "c' = 0 \<or> 64 * c' < length (m @ d)"
    using skein_big_core_inv [OF Cons.prems(1-3), of d] by blast
  then show ?case using Cons.IH [of "m @ d" c' "skein_big_core sc d"] Cons.prems(3,4) by simp
qed auto

lemma skein_digest:
  assumes "length (sk_buf sc) = 64" and "length iv = 8" and "length (concat chunks) + 1 < 2 ^ 64" and "n < 8"
    and "ubi 4 (replicate 8 0) (bits_of_bytes (skein_config bits)) = iv" and "out = bits div 8"
  shows "fst (skein_big_close (foldl skein_big_core (skein_big_init sc iv) chunks) ub n out) =
    skein_spec bits (bits_of_bytes (concat chunks) @ take n (bits_of_byte (of_nat ub)))"
proof -
  have "iv = [iv ! 0, iv ! 1, iv ! 2, iv ! 3, iv ! 4, iv ! 5, iv ! 6, iv ! 7]" using assms(2) by (elim list8_cases) simp
  then have "skein_inv iv [] 0 (skein_big_init sc iv)"
    using assms(1) by (simp add: skein_inv_def skein_big_init_def skein_chain_def)
  then obtain c where "skein_inv iv (concat chunks) c (foldl skein_big_core (skein_big_init sc iv) chunks)" "c = 0 \<or> 64 * c < length (concat chunks)"
    using skein_fold_inv [of iv "[]" 0 _ chunks] assms(2,3) by auto
  then show ?thesis
    using skein_big_close_spec [OF _ _ assms(2,3,4)] assms(5,6) by (simp add: skein_spec_def Let_def)
qed

lemmas skein_entries =
  sph_skein224_init_def sph_skein224_def [abs_def] sph_skein224_close_def sph_skein224_addbits_and_close_def
  sph_skein256_init_def sph_skein256_def [abs_def] sph_skein256_close_def sph_skein256_addbits_and_close_def
  sph_skein384_init_def sph_skein384_def [abs_def] sph_skein384_close_def sph_skein384_addbits_and_close_def
  sph_skein512_init_def sph_skein512_def [abs_def] sph_skein512_close_def sph_skein512_addbits_and_close_def

lemma length_skein_IVs: "length skein_IV224 = 8" "length skein_IV256 = 8" "length skein_IV384 = 8" "length skein_IV512 = 8"
  by (simp_all add: skein_IV224_def skein_IV256_def skein_IV384_def skein_IV512_def)

section \<open>Properties\<close>

text \<open>
  C11. The four Skein functions on bit strings: a context initialised over any memory, any sequence of
  updates and a close with up to seven further bits write the Skein-512 digest of the concatenated
  bytes followed by those bits. In particular the stored initial values are the chaining values
  of the configuration blocks, and keeping a full buffer back gives every block its flags.
\<close>

theorem sph_skein_streaming_correct:
  assumes "length (sk_buf cc) = 64" and "length (concat chunks) + 1 < 2 ^ 64" and "n < 8"
  shows "fst (sph_skein224_addbits_and_close (foldl sph_skein224 (sph_skein224_init cc) chunks) ub n) =
      skein_spec 224 (bits_of_bytes (concat chunks) @ take n (bits_of_byte (of_nat ub)))
    \<and> fst (sph_skein256_addbits_and_close (foldl sph_skein256 (sph_skein256_init cc) chunks) ub n) =
      skein_spec 256 (bits_of_bytes (concat chunks) @ take n (bits_of_byte (of_nat ub)))
    \<and> fst (sph_skein384_addbits_and_close (foldl sph_skein384 (sph_skein384_init cc) chunks) ub n) =
      skein_spec 384 (bits_of_bytes (concat chunks) @ take n (bits_of_byte (of_nat ub)))
    \<and> fst (sph_skein512_addbits_and_close (foldl sph_skein512 (sph_skein512_init cc) chunks) ub n) =
      skein_spec 512 (bits_of_bytes (concat chunks) @ take n (bits_of_byte (of_nat ub)))"
  unfolding skein_entries
  using skein_digest [OF assms(1) length_skein_IVs(1) assms(2,3) skein_IVs(1)] skein_digest [OF assms(1) length_skein_IVs(2) assms(2,3) skein_IVs(2)]
    skein_digest [OF assms(1) length_skein_IVs(3) assms(2,3) skein_IVs(3)] skein_digest [OF assms(1) length_skein_IVs(4) assms(2,3) skein_IVs(4)]
  by simp

theorem sph_skein_streaming_correct_witness:
  "fst (sph_skein512_addbits_and_close (foldl sph_skein512 (sph_skein512_init \<lparr>sk_buf = replicate 64 9, sk_ptr = 5, sk_h = [], sk_bcount = 7\<rparr>)
      [replicate 64 1, [2, 3]]) 0xA0 3) = skein_spec 512 (bits_of_bytes (replicate 64 1 @ [2, 3]) @ [True, False, True])"
  using sph_skein_streaming_correct [of "\<lparr>sk_buf = replicate 64 9, sk_ptr = 5, sk_h = [], sk_bcount = 7\<rparr>" "[replicate 64 1, [2, 3]]" 3 "0xA0"]
  by (simp add: bits_of_byte_def)

end
