(* ===== verification/GhostRider.thy ===== *)
theory GhostRider
  imports Keccak Cubehash Whirlpool Sph_Blake Sph_Skein
begin

text \<open>
  The GhostRider chain of \<^verbatim>\<open>xmrig/crypto/ghostrider/ghostrider.cpp\<close> in the build without hwloc, which is
  the one the native module uses: the choice of the algorithms from the previous block hash, the
  placement of scratchpads and the computation of eight hashes. The core hashes come from the
  theories of the sphlib hashes as far as they are modelled; the other core hashes and the
  CryptoNight functions are arguments.
\<close>

unbundle bit_operations_syntax

section \<open>Choice of the algorithms\<close>

text \<open>
  The loop of \<^verbatim>\<open>select_indices\<close> over the 64 nibbles of the seed, low nibble of a byte first. It
  returns early, with \<open>True\<close>, once all indices are selected.
\<close>

function select_loop :: "nat \<Rightarrow> bytes \<Rightarrow> nat \<Rightarrow> bool list \<times> nat list \<Rightarrow> bool \<times> bool list \<times> nat list" where
  "select_loop N seed i (selected, indices) =
     (if i < 64
      then let index = (unat (drop_bit ((i mod 2) * 4) (seed ! (i div 2)) AND 0xF)) mod N
           in if \<not> selected ! index
              then let selected = selected[index := True]; indices = indices @ [index]
                   in if N \<le> length indices then (True, selected, indices)
                      else select_loop N seed (i + 1) (selected, indices)
              else select_loop N seed (i + 1) (selected, indices)
      else (False, selected, indices))"
  by pat_completeness auto
termination
  by (relation "measure (\<lambda>(N, seed, i, st). 64 - i)") auto

declare select_loop.simps [simp del]

definition select_indices :: "nat \<Rightarrow> bytes \<Rightarrow> nat list" where
  "select_indices N seed =
     (case select_loop N seed 0 (replicate N False, []) of
        (True, selected, indices) \<Rightarrow> indices
      | (False, selected, indices) \<Rightarrow>
          foldl (\<lambda>indices i. if \<not> selected ! i then indices @ [i] else indices) indices [0..<N])"

text \<open>Specification: the indices in the order of their first occurrence, then the others in order.\<close>

definition nibble :: "bytes \<Rightarrow> nat \<Rightarrow> nat" where
  "nibble seed i = unat (seed ! (i div 2)) div 16 ^ (i mod 2) mod 16"

definition first_occurrences :: "'a list \<Rightarrow> 'a list" where
  "first_occurrences xs = rev (remdups (rev xs))"

definition select_spec :: "nat \<Rightarrow> bytes \<Rightarrow> nat list" where
  "select_spec N seed =
     (let xs = first_occurrences (map (\<lambda>i. nibble seed i mod N) [0..<64])
      in xs @ filter (\<lambda>i. i \<notin> set xs) [0..<N])"

lemma nibble_code: "unat (drop_bit ((i mod 2) * 4) (seed ! (i div 2)) AND 0xF) = nibble seed i"
proof -
  have "drop_bit k b AND 0xF = take_bit 4 (drop_bit k b)" for k and b :: byte
    by (simp add: take_bit_eq_mask mask_eq_exp_minus_1)
  then have "unat (drop_bit k b AND 0xF) = unat b div 2 ^ k mod 16" for k and b :: byte
    by (simp only: unsigned_take_bit_eq unat_drop_bit_eq) (simp add: take_bit_eq_mod drop_bit_eq_div)
  moreover have "(2 :: nat) ^ ((i mod 2) * 4) = 16 ^ (i mod 2)"
    by (cases "even i") (auto simp: even_iff_mod_2_eq_zero odd_iff_mod_2_eq_one)
  ultimately show ?thesis by (simp add: nibble_def)
qed

lemma first_occurrences_snoc: "first_occurrences (xs @ [x]) = (if x \<in> set xs then first_occurrences xs else first_occurrences xs @ [x])"
  by (simp add: first_occurrences_def)

lemma set_first_occurrences [simp]: "set (first_occurrences xs) = set xs" "distinct (first_occurrences xs)"
  by (simp_all add: first_occurrences_def)

text \<open>The loop state after the nibbles \<open>xs\<close>.\<close>

definition selection :: "nat \<Rightarrow> nat list \<Rightarrow> bool list \<times> nat list" where
  "selection N xs = (map (\<lambda>i. i \<in> set xs) [0..<N], first_occurrences xs)"

lemma first_occurrences_full:
  assumes "set xs \<subseteq> {..<N}" and "N \<le> length (first_occurrences xs)" and "set ys \<subseteq> {..<N}"
  shows "first_occurrences (xs @ ys) = first_occurrences xs" and "set xs = {..<N}"
proof -
  have "card (set xs) = length (first_occurrences xs)"
    by (metis distinct_card set_first_occurrences(1,2))
  then show full: "set xs = {..<N}"
    using assms(1,2) by (metis card_lessThan card_seteq finite_lessThan)
  show "first_occurrences (xs @ ys) = first_occurrences xs"
    using assms(3)
    by (induction ys rule: rev_induct) (auto simp: full first_occurrences_snoc simp flip: append_assoc)
qed

lemma select_loop_selection:
  assumes "i \<le> 64" and "0 < N" and "xs = map (\<lambda>i. nibble seed i mod N) [0..<i]"
  shows "\<exists>b ys. select_loop N seed i (selection N xs) = (b, selection N ys)
    \<and> first_occurrences ys = first_occurrences (map (\<lambda>i. nibble seed i mod N) [0..<64])
    \<and> (b \<longrightarrow> set ys = {..<N}) \<and> set ys \<subseteq> {..<N}"
  using assms(1,3)
proof (induction i arbitrary: xs rule: inc_induct)
  case base
  then show ?case
    using assms(2) by (intro exI [of _ False] exI [of _ xs]) (auto simp: select_loop.simps [of N seed 64] selection_def)
next
  case (step n)
  let ?x = "nibble seed n mod N" and ?all = "map (\<lambda>i. nibble seed i mod N) [0..<64]"
  let ?rest = "map (\<lambda>i. nibble seed i mod N) [Suc n..<64]"
  have x: "?x < N" using assms(2) by simp
  have xs: "set xs \<subseteq> {..<N}" using assms(2) by (auto simp: step.prems)
  have ys: "xs @ [?x] = map (\<lambda>i. nibble seed i mod N) [0..<Suc n]" by (simp add: step.prems)
  note IH = step.IH [OF ys]
  have sel: "fst (selection N xs) ! ?x \<longleftrightarrow> ?x \<in> set xs" using x by (simp add: selection_def)
  have upd: "(fst (selection N xs))[?x := True] = fst (selection N (xs @ [?x]))"
    using x by (intro nth_equalityI) (auto simp: selection_def nth_list_update)
  show ?case
  proof (cases "?x \<in> set xs")
    case True
    then have "selection N (xs @ [?x]) = selection N xs"
      by (auto simp: selection_def first_occurrences_snoc insert_absorb)
    moreover have "select_loop N seed n (selection N xs) = select_loop N seed (Suc n) (selection N xs)"
      using step.hyps True x by (simp add: selection_def select_loop.simps [of N seed n] nibble_code Let_def)
    ultimately show ?thesis using IH by simp
  next
    case False
    let ?ys = "xs @ [?x]"
    have nxt: "selection N ?ys = ((fst (selection N xs))[?x := True], snd (selection N xs) @ [?x])"
      unfolding upd using False by (simp add: selection_def first_occurrences_snoc)
    obtain s ks where S: "selection N xs = (s, ks)" by fastforce
    have ks: "\<not> s ! ?x" "length (first_occurrences ?ys) = length ks + 1"
      using sel False S nxt by (auto simp: selection_def)
    show ?thesis
    proof (cases "N \<le> length (first_occurrences ?ys)")
      case True
      then have loop: "select_loop N seed n (selection N xs) = (True, selection N ?ys)"
        using step.hyps ks by (simp add: nxt S select_loop.simps [of N seed n] nibble_code Let_def)
      have "[0..<64] = [0..<Suc n] @ [Suc n..<64]"
        using upt_add_eq_append [of 0 "Suc n" "64 - Suc n"] step.hyps by simp
      then have all: "?all = ?ys @ ?rest" by (simp only: ys map_append)
      show ?thesis
      proof -
        have "set ?ys \<subseteq> {..<N}" "set ?rest \<subseteq> {..<N}" using xs x assms(2) by auto
        note full = first_occurrences_full [OF this(1) True this(2)]
        with loop all show ?thesis by (intro exI [of _ True] exI [of _ ?ys]) (simp add: full)
      qed
    next
      case more: False
      then have "select_loop N seed n (selection N xs) = select_loop N seed (Suc n) (selection N ?ys)"
        using step.hyps ks by (simp add: nxt S select_loop.simps [of N seed n] nibble_code Let_def)
      then show ?thesis using IH by simp
    qed
  qed
qed

lemma select_indices_correct:
  assumes "0 < N"
  shows "select_indices N seed = select_spec N seed"
proof -
  let ?all = "map (\<lambda>i. nibble seed i mod N) [0..<64]"
  have start: "(replicate N False, []) = selection N []"
    by (intro prod_eqI nth_equalityI) (simp_all add: selection_def first_occurrences_def)
  obtain b ys where l: "select_loop N seed 0 (selection N []) = (b, selection N ys)"
    and ys: "first_occurrences ys = first_occurrences ?all" "b \<longrightarrow> set ys = {..<N}"
    using select_loop_selection [of 0 N "[]" seed] assms by auto
  have set: "set ys = set ?all" by (metis set_first_occurrences(1) ys(1))
  note l' = l [folded start]
  have fill: "foldl (\<lambda>ks i. if \<not> s ! i then ks @ [i] else ks) ks is = ks @ filter (\<lambda>i. \<not> s ! i) is" for s ks "is"
    by (induction "is" arbitrary: ks) simp_all
  have "filter (\<lambda>i. \<not> map (\<lambda>i. i \<in> set ys) [0..<N] ! i) [0..<N] = filter (\<lambda>i. i \<notin> set ys) [0..<N]"
    by (rule filter_cong) simp_all
  moreover have "b \<Longrightarrow> filter (\<lambda>i. i \<notin> set ys) [0..<N] = []" using ys(2) by (auto simp: filter_empty_conv)
  ultimately show ?thesis
    by (cases b) (simp_all add: select_indices_def l' selection_def fill select_spec_def ys(1) set Let_def del: set_map)
qed

lemma select_spec_permutation:
  assumes "0 < N"
  shows "distinct (select_spec N seed)" "set (select_spec N seed) = {..<N}" "length (select_spec N seed) = N"
proof -
  show d: "distinct (select_spec N seed)" by (auto simp: select_spec_def Let_def)
  show s: "set (select_spec N seed) = {..<N}" using assms by (auto simp: select_spec_def Let_def)
  show "length (select_spec N seed) = N" using distinct_card [OF d] s by simp
qed

section \<open>Parameters\<close>

text \<open>The algorithm identifiers of \<^verbatim>\<open>Algorithm.h\<close> carry the binary logarithm of the scratchpad size.\<close>

definition algorithm_l3 :: "u32 \<Rightarrow> nat" where
  "algorithm_l3 i = 2 ^ unat (drop_bit 16 i AND 0xFF)"

definition cn_hash :: "u32 list" where
  "cn_hash = [0x63130100, 0x63130101, 0x63150102, 0x63140103, 0x63120104, 0x63120105]"

definition cn_sizes :: "nat list" where
  "cn_sizes = [algorithm_l3 (cn_hash ! 0), algorithm_l3 (cn_hash ! 1) div 2, algorithm_l3 (cn_hash ! 2),
     algorithm_l3 (cn_hash ! 3), algorithm_l3 (cn_hash ! 4), algorithm_l3 (cn_hash ! 5) div 2]"

datatype cn_variant = AV_AUTO | AV_SINGLE | AV_DOUBLE | AV_SINGLE_SOFT | AV_DOUBLE_SOFT | AV_TRIPLE | AV_QUAD | AV_PENTA
  | AV_TRIPLE_SOFT | AV_QUAD_SOFT | AV_PENTA_SOFT | AV_MAX

definition av_hw_aes :: "cn_variant list" where
  "av_hw_aes = [AV_SINGLE, AV_SINGLE, AV_DOUBLE, AV_TRIPLE, AV_QUAD]"

definition av_soft_aes :: "cn_variant list" where
  "av_soft_aes = [AV_SINGLE_SOFT, AV_SINGLE_SOFT, AV_DOUBLE_SOFT, AV_TRIPLE_SOFT, AV_QUAD_SOFT]"

text \<open>
  The number of hashes the CryptoNight function of a variant computes at once; \<open>AV_AUTO\<close> and
  \<open>AV_MAX\<close> do not name a function.
\<close>

fun ways :: "cn_variant \<Rightarrow> nat" where
  "ways AV_SINGLE = 1"
| "ways AV_DOUBLE = 2"
| "ways AV_TRIPLE = 3"
| "ways AV_QUAD = 4"
| "ways AV_SINGLE_SOFT = 1"
| "ways AV_DOUBLE_SOFT = 2"
| "ways AV_TRIPLE_SOFT = 3"
| "ways AV_QUAD_SOFT = 4"
| "ways AV_PENTA = 5"
| "ways AV_PENTA_SOFT = 5"
| "ways _ = 0"

text \<open>How many hashes share the scratchpad memory, by CryptoNight variant and platform.\<close>

definition gr_step :: "bool \<Rightarrow> nat list" where
  "gr_step arm = (if arm then [1, 1, 1, 1, 1, 1] else [4, 4, 1, 2, 4, 4])"

text \<open>
  \<^verbatim>\<open>CORE_HASH\<close>: initialise, hash the whole input, close. The contexts on the stack are uninitialised.
  Of the fifteen functions \<open>h0\<close>, \<open>h4\<close>, \<open>h5\<close>, \<open>h7\<close> and \<open>h14\<close> are the ones of the modelled hashes; the
  others are the argument \<open>others\<close>.
\<close>

record core_stack =
  st_blake :: blake_big_context
  st_blake_tmp :: bytes
  st_keccak :: keccak_context
  st_keccak_tmp :: bytes
  st_skein :: skein_context
  st_cubehash :: cube_context
  st_whirlpool :: sph_whirlpool_context

definition h0 :: "core_stack \<Rightarrow> bytes \<Rightarrow> bytes" where
  "h0 st data = fst (sph_blake512_close (sph_blake512 (sph_blake512_init (st_blake st)) data) (st_blake_tmp st))"

definition h4 :: "core_stack \<Rightarrow> bytes \<Rightarrow> bytes" where
  "h4 st data = fst (sph_keccak512_close (sph_keccak512 (sph_keccak512_init (st_keccak st)) data) (st_keccak_tmp st))"

definition h5 :: "core_stack \<Rightarrow> bytes \<Rightarrow> bytes" where
  "h5 st data = fst (sph_skein512_close (sph_skein512 (sph_skein512_init (st_skein st)) data))"

definition h7 :: "core_stack \<Rightarrow> bytes \<Rightarrow> bytes" where
  "h7 st data = fst (sph_cubehash512_close (sph_cubehash512 (sph_cubehash512_init (st_cubehash st)) data))"

definition h14 :: "core_stack \<Rightarrow> bytes \<Rightarrow> bytes" where
  "h14 st data = fst (sph_whirlpool_close (sph_whirlpool (sph_whirlpool_init (st_whirlpool st)) data))"

definition core_hash :: "core_stack \<Rightarrow> (nat \<Rightarrow> bytes \<Rightarrow> bytes) \<Rightarrow> nat \<Rightarrow> bytes \<Rightarrow> bytes" where
  "core_hash st others i =
     (if i = 0 then h0 st else if i = 4 then h4 st else if i = 5 then h5 st else if i = 7 then h7 st
      else if i = 14 then h14 st else others i)"

section \<open>Eight hashes\<close>

text \<open>
  The scratchpad addresses: each group of \<open>step\<close> hashes starts again at the first context's memory
  and moves to the next context's memory after 2 MiB.
\<close>

definition alloc_step :: "nat \<Rightarrow> nat \<Rightarrow> nat list \<Rightarrow> nat \<times> nat \<times> nat list \<Rightarrow> nat \<Rightarrow> nat \<times> nat \<times> nat list" where
  "alloc_step step sz ctx_memory = (\<lambda>(k, p, memory) i.
     let (k, p) = (if i mod step = 0 then (0, ctx_memory ! 0)
                   else if 2 ^ 21 \<le> p - ctx_memory ! k then (k + 1, ctx_memory ! (k + 1))
                   else (k, p))
     in (k, p + sz, memory[i := p]))"

definition alloc_scratchpads :: "nat \<Rightarrow> nat \<Rightarrow> nat list \<Rightarrow> nat list \<Rightarrow> nat list" where
  "alloc_scratchpads step sz ctx_memory memory =
     snd (snd (foldl (alloc_step step sz ctx_memory) (0, ctx_memory ! 0, memory) [0..<8]))"

text \<open>Where the core hashes read: the job data at first, the buffer they write to afterwards.\<close>

datatype gr_input = Job_Data bytes | Tmp

definition gr_read :: "gr_input \<Rightarrow> bytes \<Rightarrow> nat \<Rightarrow> nat \<Rightarrow> bytes" where
  "gr_read src tmp off len = take len (drop off (case src of Job_Data d \<Rightarrow> d | Tmp \<Rightarrow> tmp))"

definition core_pass :: "(bytes \<Rightarrow> bytes) \<Rightarrow> gr_input \<Rightarrow> nat \<Rightarrow> bytes \<Rightarrow> bytes" where
  "core_pass h src sz tmp = foldl (\<lambda>tmp j. memcpy_at tmp (64 * j) (h (gr_read src tmp (j * sz) sz))) tmp [0..<8]"

definition cn_pass :: "(cn_variant \<Rightarrow> nat list \<Rightarrow> bytes \<Rightarrow> bytes) \<Rightarrow> cn_variant list \<Rightarrow> nat \<Rightarrow> nat list \<Rightarrow> bytes \<Rightarrow> bytes \<Rightarrow> bytes" where
  "cn_pass f av step memory tmp output =
     foldl (\<lambda>output j. memcpy_at output (32 * j) (f (av ! step) memory (take (64 * ways (av ! step)) (drop (64 * j) tmp)))) output
       (map (\<lambda>i. i * step) [0..<(7 + step) div step])"

definition copy_back :: "bytes \<Rightarrow> bytes \<Rightarrow> bytes" where
  "copy_back output tmp =
     foldl (\<lambda>tmp j. memcpy_at (memcpy_at tmp (64 * j) (take 32 (drop (32 * j) output))) (64 * j + 32) (replicate 32 0)) tmp [0..<8]"

record gr_state =
  gr_src :: gr_input
  gr_size :: nat
  gr_tmp :: bytes
  gr_output :: bytes
  gr_memory :: "nat list"

definition gr_core_step :: "(nat \<Rightarrow> bytes \<Rightarrow> bytes) \<Rightarrow> gr_state \<Rightarrow> nat \<Rightarrow> gr_state" where
  "gr_core_step core s i =
     s\<lparr>gr_tmp := core_pass (core i) (gr_src s) (gr_size s) (gr_tmp s), gr_src := Tmp, gr_size := 64\<rparr>"

definition gr_part ::
  "(nat \<Rightarrow> bytes \<Rightarrow> bytes) \<Rightarrow> (u32 \<Rightarrow> cn_variant \<Rightarrow> nat list \<Rightarrow> bytes \<Rightarrow> bytes) \<Rightarrow> cn_variant list \<Rightarrow> nat list \<Rightarrow> nat list \<Rightarrow> nat list
   \<Rightarrow> nat list \<Rightarrow> gr_state \<Rightarrow> nat \<Rightarrow> gr_state" where
  "gr_part core cn av steps ctx_memory core_indices cn_indices s part =
     (let c = cn_indices ! part;
          step = steps ! c;
          s = s\<lparr>gr_memory := alloc_scratchpads step (cn_sizes ! c) ctx_memory (gr_memory s)\<rparr>;
          s = foldl (\<lambda>s i. gr_core_step core s (core_indices ! (part * 5 + i))) s [0..<5];
          s = s\<lparr>gr_output := cn_pass (cn (cn_hash ! c)) av step (gr_memory s) (gr_tmp s) (gr_output s)\<rparr>
      in s\<lparr>gr_tmp := copy_back (gr_output s) (gr_tmp s)\<rparr>)"

text \<open>
  The arguments \<open>core\<close> and \<open>cn\<close> are the arrays of core hashes and of CryptoNight functions, \<open>tmp\<close> is
  the uninitialised buffer on the stack and \<open>memory\<close> the scratchpad pointers of the eight contexts.
  The optional log message about the chosen algorithms is left out.
\<close>

definition hash_octa ::
  "(nat \<Rightarrow> bytes \<Rightarrow> bytes) \<Rightarrow> (u32 \<Rightarrow> cn_variant \<Rightarrow> nat list \<Rightarrow> bytes \<Rightarrow> bytes) \<Rightarrow> bool \<Rightarrow> bool \<Rightarrow> bytes \<Rightarrow> bytes \<Rightarrow> nat \<Rightarrow> bytes
   \<Rightarrow> nat list \<Rightarrow> bytes \<times> nat list" where
  "hash_octa core cn arm hasAES tmp data sz output memory =
     (let ctx_memory = map (\<lambda>i. memory ! i) [0..<8];
          core_indices = select_indices 15 (drop 4 data);
          cn_indices = select_indices 6 (drop 4 data);
          av = (if hasAES then av_hw_aes else av_soft_aes);
          s = foldl (gr_part core cn av (gr_step arm) ctx_memory core_indices cn_indices)
                \<lparr>gr_src = Job_Data data, gr_size = sz, gr_tmp = tmp, gr_output = output, gr_memory = memory\<rparr> [0..<3]
      in (gr_output s, foldl (\<lambda>m i. m[i := ctx_memory ! i]) (gr_memory s) [0..<8]))"

section \<open>The hash of one block\<close>

definition gr_stage :: "(nat \<Rightarrow> bytes \<Rightarrow> bytes) \<Rightarrow> (u32 \<Rightarrow> bytes \<Rightarrow> bytes) \<Rightarrow> nat list \<Rightarrow> nat list \<Rightarrow> nat \<Rightarrow> bytes \<Rightarrow> bytes" where
  "gr_stage core cn1 ci ni part x = cn1 (cn_hash ! (ni ! part)) (foldl (\<lambda>x i. core (ci ! (part * 5 + i)) x) x [0..<5])"

definition gr_pad :: "bytes \<Rightarrow> bytes" where
  "gr_pad x = x @ replicate 32 0"

definition ghostrider_spec :: "(nat \<Rightarrow> bytes \<Rightarrow> bytes) \<Rightarrow> (u32 \<Rightarrow> bytes \<Rightarrow> bytes) \<Rightarrow> bytes \<Rightarrow> bytes" where
  "ghostrider_spec core cn1 d =
     (let ci = select_spec 15 (take 32 (drop 4 d)); ni = select_spec 6 (take 32 (drop 4 d)); stage = gr_stage core cn1 ci ni
      in stage 2 (gr_pad (stage 1 (gr_pad (stage 0 d)))))"

text \<open>Scratchpads of \<open>sz\<close> bytes inside a buffer of 2 MiB, without overlap.\<close>

definition scratchpads_ok :: "nat \<Rightarrow> nat \<Rightarrow> nat list \<Rightarrow> bool" where
  "scratchpads_ok sz buf addrs \<longleftrightarrow> (\<forall>a \<in> set addrs. buf \<le> a \<and> a + sz \<le> buf + 2 ^ 21)
     \<and> sorted_wrt (\<lambda>a b. a + sz \<le> b) addrs"

text \<open>What the CryptoNight functions promise: with such scratchpads a variant that computes several
  hashes computes the same as the single hash on each input.\<close>

definition cn_ok :: "(u32 \<Rightarrow> cn_variant \<Rightarrow> nat list \<Rightarrow> bytes \<Rightarrow> bytes) \<Rightarrow> (u32 \<Rightarrow> bytes \<Rightarrow> bytes) \<Rightarrow> nat \<Rightarrow> bool" where
  "cn_ok cn cn1 buf \<longleftrightarrow>
     (\<forall>c < 6. \<forall>v mem ys. length ys = ways v \<longrightarrow> (\<forall>y \<in> set ys. length y = 64) \<longrightarrow> ways v \<le> length mem \<longrightarrow>
        scratchpads_ok (cn_sizes ! c) buf (take (ways v) mem) \<longrightarrow> cn (cn_hash ! c) v mem (concat ys) = concat (map (cn1 (cn_hash ! c)) ys))
     \<and> (\<forall>c y. length (cn1 c y) = 32)"

definition gr_inputs :: "gr_state \<Rightarrow> bytes list" where
  "gr_inputs s = map (\<lambda>j. gr_read (gr_src s) (gr_tmp s) (j * gr_size s) (gr_size s)) [0..<8]"

definition gr_ok :: "gr_state \<Rightarrow> bool" where
  "gr_ok s \<longleftrightarrow> length (gr_tmp s) = 512 \<and> length (gr_output s) = 256 \<and> length (gr_memory s) = 8
     \<and> (gr_src s = Tmp \<longrightarrow> gr_size s = 64)"

lemma gr_inputs_Tmp:
  assumes "gr_src s = Tmp" and "gr_size s = 64" and "gr_tmp s = concat xs" and "length xs = 8" and "\<forall>x \<in> set xs. length x = 64"
  shows "gr_inputs s = xs"
  using assms slot_concat [OF assms(5)] by (intro nth_equalityI) (simp_all add: gr_inputs_def gr_read_def mult.commute)

lemma core_pass_slots:
  assumes "gr_ok s" and "\<And>x. length (h x) = 64"
  shows "core_pass h (gr_src s) (gr_size s) (gr_tmp s) = concat (map h (gr_inputs s))"
proof -
  let ?f = "\<lambda>j b. h (gr_read (gr_src s) b (j * gr_size s) (gr_size s))"
  have keep: "?f j b = ?f j (gr_tmp s)" if "drop (64 * j) b = drop (64 * j) (gr_tmp s)" for j b
    using assms(1) that by (cases "gr_src s") (simp_all add: gr_read_def gr_ok_def mult.commute)
  have "foldl (\<lambda>b j. memcpy_at b (64 * j) (?f j b)) (gr_tmp s) [0..<8] =
      concat (map (\<lambda>j. ?f j (gr_tmp s)) [0..<8]) @ drop (64 * 8) (gr_tmp s)"
    by (rule foldl_slots) (simp add: assms(2), use assms(1) in \<open>simp add: gr_ok_def\<close>, rule keep)
  then show ?thesis
    using assms(1) by (simp add: core_pass_def gr_inputs_def gr_ok_def comp_def del: upt_Suc)
qed

lemma gr_core_step_inputs:
  assumes "gr_ok s" and "\<And>x. length (core i x) = 64"
  shows "gr_inputs (gr_core_step core s i) = map (core i) (gr_inputs s)" and "gr_ok (gr_core_step core s i)"
    and "gr_tmp (gr_core_step core s i) = concat (map (core i) (gr_inputs s))"
proof -
  let ?s = "gr_core_step core s i" and ?xs = "map (core i) (gr_inputs s)"
  have len: "length ?xs = 8" "\<forall>x \<in> set ?xs. length x = 64" using assms(2) by (auto simp: gr_inputs_def)
  show tmp: "gr_tmp ?s = concat ?xs" using core_pass_slots [OF assms(1), of "core i"] assms(2) by (simp add: gr_core_step_def)
  have "length (concat ?xs) = 512" using length_slots [OF len(2)] len(1) by simp
  then show "gr_ok ?s" using assms(1) tmp by (simp add: gr_ok_def gr_core_step_def)
  show "gr_inputs ?s = ?xs" using gr_inputs_Tmp [OF _ _ tmp len] by (simp add: gr_core_step_def)
qed

lemma gr_core_steps:
  assumes "gr_ok s" and "\<And>i x. length (core i x) = 64"
  shows "gr_inputs (foldl (gr_core_step core) s ks) = map (\<lambda>x. foldl (\<lambda>x i. core i x) x ks) (gr_inputs s)"
    and "gr_ok (foldl (gr_core_step core) s ks)"
    and "ks \<noteq> [] \<Longrightarrow> gr_tmp (foldl (gr_core_step core) s ks) = concat (gr_inputs (foldl (gr_core_step core) s ks))"
    and "gr_memory (foldl (gr_core_step core) s ks) = gr_memory s" "gr_output (foldl (gr_core_step core) s ks) = gr_output s"
    and "ks \<noteq> [] \<Longrightarrow> gr_src (foldl (gr_core_step core) s ks) = Tmp \<and> gr_size (foldl (gr_core_step core) s ks) = 64"
proof (induction ks rule: rev_induct)
  case (snoc i ks)
  note step = gr_core_step_inputs [OF snoc(2), of core i, OF assms(2)]
  { case 1 then show ?case using step(1) snoc(1) by simp }
  { case 2 then show ?case using step(2) by simp }
  { case 3 then show ?case using step(1,3) by simp }
  { case 4 then show ?case using snoc(4) by (simp add: gr_core_step_def) }
  { case 5 then show ?case using snoc(5) by (simp add: gr_core_step_def) }
  { case 6 then show ?case by (simp add: gr_core_step_def) }
qed (simp_all add: assms)

lemma upt_8: "[0..<8] = [0, 1, 2, 3, 4, 5, 6, 7]"
  by code_simp

lemma upt_small: "[0..<2] = [0, 1]" "[0..<4] = [0, 1, 2, 3]" "[0..<5] = [0, 1, 2, 3, 4]"
  by code_simp+

lemma cn_sizes_values: "cn_sizes = [524288, 262144, 2097152, 1048576, 262144, 131072]"
  by (simp add: cn_sizes_def cn_hash_def algorithm_l3_def)

lemma alloc_scratchpads_addresses:
  assumes "c < 6" and "length memory = 8" and "step = gr_step arm ! c"
  shows "take step (alloc_scratchpads step (cn_sizes ! c) ctx_memory memory) = map (\<lambda>i. ctx_memory ! 0 + i * cn_sizes ! c) [0..<step]"
    and "length (alloc_scratchpads step sz ctx_memory memory) = 8"
proof -
  have "length memory = Suc (Suc (Suc (Suc (Suc (Suc (Suc (Suc 0)))))))" using assms(2) by simp
  then obtain m0 m1 m2 m3 m4 m5 m6 m7 where m: "memory = [m0, m1, m2, m3, m4, m5, m6, m7]"
    unfolding length_Suc_conv by auto
  show "length (alloc_scratchpads step sz ctx_memory memory) = 8"
    by (simp add: alloc_scratchpads_def upt_8 alloc_step_def m Let_def split: prod.split)
  have "c \<in> {0, 1, 2, 3, 4, 5}" using assms(1) by auto
  then show "take step (alloc_scratchpads step (cn_sizes ! c) ctx_memory memory) = map (\<lambda>i. ctx_memory ! 0 + i * cn_sizes ! c) [0..<step]"
    unfolding assms(3)
    by (elim insertE emptyE; cases arm)
       (simp_all add: alloc_scratchpads_def upt_8 alloc_step_def m gr_step_def cn_sizes_values upt_small)
qed

lemma scratchpads_ok_alloc:
  assumes "c < 6" and "length memory = 8" and "step = gr_step arm ! c"
  shows "scratchpads_ok (cn_sizes ! c) (ctx_memory ! 0) (take step (alloc_scratchpads step (cn_sizes ! c) ctx_memory memory))"
proof -
  have "c \<in> {0, 1, 2, 3, 4, 5}" using assms(1) by auto
  then have fit: "step * cn_sizes ! c \<le> 2 ^ 21" unfolding assms(3) by (auto simp: gr_step_def cn_sizes_values)
  have "(ctx_memory ! 0 + i * cn_sizes ! c) + cn_sizes ! c \<le> ctx_memory ! 0 + 2 ^ 21" if "i < step" for i
  proof -
    have "(i + 1) * cn_sizes ! c \<le> step * cn_sizes ! c" using that by (intro mult_right_mono) simp_all
    then show ?thesis using fit by simp
  qed
  moreover have "i * cn_sizes ! c + cn_sizes ! c \<le> j * cn_sizes ! c" if "i < j" for i j
  proof -
    have "(i + 1) * cn_sizes ! c \<le> j * cn_sizes ! c" using that by (intro mult_right_mono) simp_all
    then show ?thesis by simp
  qed
  ultimately show ?thesis
    by (auto simp: alloc_scratchpads_addresses(1) [OF assms] scratchpads_ok_def sorted_wrt_iff_nth_less)
qed

lemma gr_steps:
  assumes "c < 6" and "av \<in> {av_hw_aes, av_soft_aes}"
  shows "gr_step arm ! c \<in> {1, 2, 4}" "ways (av ! (gr_step arm ! c)) = gr_step arm ! c"
proof -
  have "c \<in> {0, 1, 2, 3, 4, 5}" using assms(1) by auto
  then show s: "gr_step arm ! c \<in> {1, 2, 4}" by (auto simp: gr_step_def)
  then show "ways (av ! (gr_step arm ! c)) = gr_step arm ! c"
    using assms(2) by (auto simp: av_hw_aes_def av_soft_aes_def)
qed

lemma cn_pass_slots:
  assumes "step \<in> {1, 2, 4}" and "ways (av ! step) = step" and "length xs = 8" and "\<forall>x \<in> set xs. length x = 64"
    and "length output = 256"
    and f: "\<And>ys. length ys = step \<Longrightarrow> \<forall>y \<in> set ys. length y = 64 \<Longrightarrow> f (av ! step) memory (concat ys) = concat (map g ys)"
    and g: "\<And>y. length (g y) = 32"
  shows "cn_pass f av step memory (concat xs) output = concat (map g xs)"
proof -
  define k where "k = 8 div step"
  have k: "(7 + step) div step = k" "step * k = 8" using assms(1) by (auto simp: k_def)
  let ?ys = "\<lambda>i. take step (drop (i * step) xs)"
  let ?e = "\<lambda>i. f (av ! step) memory (take (64 * step) (drop (64 * (i * step)) (concat xs)))"
  have e: "?e i = concat (map g (?ys i))" if "i < k" for i
  proof -
    have "(i + 1) * step \<le> k * step" using that by (intro mult_right_mono) simp_all
    then have "length (?ys i) = step" using k(2) assms(3) by (simp add: mult.commute)
    moreover have "\<forall>y \<in> set (?ys i). length y = 64" using assms(4) by (auto dest: in_set_takeD in_set_dropD)
    ultimately show ?thesis using f slots_concat [OF assms(4), of step "i * step"] by simp
  qed
  have len: "length (?e i) = 32 * step" if "i < k" for i
  proof -
    have "(i + 1) * step \<le> k * step" using that by (intro mult_right_mono) simp_all
    then have "length (?ys i) = step" using k(2) assms(3) by (simp add: mult.commute)
    then show ?thesis using e [OF that] length_slots [of "map g (?ys i)" 32] g by simp
  qed
  have parts: "concat (map ?ys [0..<n]) = take (n * step) xs" for n
    by (induction n) (simp_all add: add.commute [of step] take_add)
  have "cn_pass f av step memory (concat xs) output = foldl (\<lambda>b i. memcpy_at b (32 * step * i) (?e i)) output [0..<k]"
    unfolding cn_pass_def k(1) by (simp add: assms(2) foldl_map ac_simps)
  also have "\<dots> = concat (map ?e [0..<k]) @ drop (32 * step * k) output"
    using foldl_memcpy_at [of k ?e "32 * step" "output"] len assms(5) k(2) by (simp add: mult.commute [of k])
  also have "concat (map ?e [0..<k]) = concat (map (\<lambda>i. concat (map g (?ys i))) [0..<k])"
    using e by (intro arg_cong [where f = concat] map_cong) simp_all
  also have "\<dots> = concat (map g (concat (map ?ys [0..<k])))"
  proof -
    have "concat (map (\<lambda>i. concat (map g (?ys i))) js) = concat (map g (concat (map ?ys js)))" for js
      by (induction js) simp_all
    then show ?thesis .
  qed
  finally show ?thesis using parts [of k] k(2) assms(3,5) by (simp add: mult.commute)
qed

lemma copy_back_slots:
  assumes "length ys = 8" and "\<forall>y \<in> set ys. length y = 32" and "length tmp = 512"
  shows "copy_back (concat ys) tmp = concat (map gr_pad ys)"
proof -
  have two: "memcpy_at (memcpy_at t (64 * j) a) (64 * j + 32) z = memcpy_at t (64 * j) (a @ z)"
    if "length a = 32" "64 * j \<le> length t" for t a z :: bytes and j
    using that by (simp add: memcpy_at_def min_def ac_simps)
  have s: "take 32 (drop (32 * j) (concat ys)) = ys ! j" if "j < 8" for j
    using slot_concat [OF assms(2)] that assms(1) by simp
  have each: "foldl (\<lambda>t j. memcpy_at (memcpy_at t (64 * j) (take 32 (drop (32 * j) (concat ys)))) (64 * j + 32) (replicate 32 0)) tmp [0..<k] =
      foldl (\<lambda>t j. memcpy_at t (64 * j) (gr_pad (ys ! j))) tmp [0..<k]
      \<and> length (foldl (\<lambda>t j. memcpy_at t (64 * j) (gr_pad (ys ! j))) tmp [0..<k]) = 512" if "k \<le> 8" for k
    using that
  proof (induction k)
    case (Suc k)
    moreover have "length (ys ! k) = 32" using assms(1,2) Suc.prems by simp
    ultimately show ?case by (simp add: s two gr_pad_def)
  qed (simp add: assms(3))
  have "length (gr_pad (ys ! j)) = 64" if "j < 8" for j using assms(1,2) that by (simp add: gr_pad_def)
  then have "copy_back (concat ys) tmp = concat (map (\<lambda>j. gr_pad (ys ! j)) [0..<8])"
    using each [of 8] foldl_memcpy_at [of 8 "\<lambda>j. gr_pad (ys ! j)" 64 tmp] assms(3)
    by (simp add: copy_back_def del: upt_Suc)
  also have "map (\<lambda>j. gr_pad (ys ! j)) [0..<8] = map gr_pad ys" using assms(1) by (intro nth_equalityI) simp_all
  finally show ?thesis .
qed

lemma gr_part_correct:
  assumes ok: "gr_ok s" and core: "\<And>i x. length (core i x) = 64" and cn: "cn_ok cn cn1 (ctx_memory ! 0)"
    and ni: "ni ! part < 6" and av: "av \<in> {av_hw_aes, av_soft_aes}"
    and s': "s' = gr_part core cn av (gr_step arm) ctx_memory ci ni s part"
  shows "gr_ok s' \<and> gr_output s' = concat (map (gr_stage core cn1 ci ni part) (gr_inputs s))
    \<and> gr_inputs s' = map (\<lambda>x. gr_pad (gr_stage core cn1 ci ni part x)) (gr_inputs s)"
proof -
  define c where "c = ni ! part"
  define step where "step = gr_step arm ! c"
  define t where "t = s\<lparr>gr_memory := alloc_scratchpads step (cn_sizes ! c) ctx_memory (gr_memory s)\<rparr>"
  define cs where "cs = map (\<lambda>i. ci ! (part * 5 + i)) [0..<5]"
  define u where "u = foldl (gr_core_step core) t cs"
  have c: "c < 6" using ni by (simp add: c_def)
  have mem: "length (gr_memory s) = 8" using ok by (simp add: gr_ok_def)
  have t: "gr_ok t" "gr_inputs t = gr_inputs s"
    using ok alloc_scratchpads_addresses(2) [OF c mem step_def] by (simp_all add: t_def gr_ok_def gr_inputs_def)
  have cs: "cs \<noteq> []" "\<And>x. foldl (\<lambda>x i. core i x) x cs = foldl (\<lambda>x i. core (ci ! (part * 5 + i)) x) x [0..<5]"
    by (simp_all add: cs_def foldl_map)
  note u = gr_core_steps [of t core cs, OF t(1) core, folded u_def]
  let ?xs = "gr_inputs u" and ?g = "cn1 (cn_hash ! c)"
  have xs: "length ?xs = 8" "\<forall>x \<in> set ?xs. length x = 64"
    using u(2) u(6) [OF cs(1)] by (auto simp: gr_inputs_def gr_read_def gr_ok_def)
  have st: "step \<in> {1, 2, 4}" "ways (av ! step) = step" using gr_steps [OF c av] by (simp_all add: step_def)
  have f: "cn (cn_hash ! c) (av ! step) (gr_memory u) (concat ys) = concat (map ?g ys)"
    if "length ys = step" "\<forall>y \<in> set ys. length y = 64" for ys
  proof -
    have "scratchpads_ok (cn_sizes ! c) (ctx_memory ! 0) (take step (gr_memory u))"
      using scratchpads_ok_alloc [OF c mem step_def] by (simp add: u(4) t_def)
    moreover have "step \<le> length (gr_memory u)" using st(1) u(2) by (auto simp: gr_ok_def)
    ultimately show ?thesis using cn c st(2) that unfolding cn_ok_def by metis
  qed
  have g: "length (?g y) = 32" for y using cn by (simp add: cn_ok_def)
  have out: "cn_pass (cn (cn_hash ! c)) av step (gr_memory u) (gr_tmp u) (gr_output u) = concat (map ?g ?xs)"
    using cn_pass_slots [OF st xs, of "gr_output u" "cn (cn_hash ! c)" "gr_memory u" ?g] f g u(2,3) cs(1) by (simp add: gr_ok_def)
  have stage: "map ?g ?xs = map (gr_stage core cn1 ci ni part) (gr_inputs s)"
    by (simp add: u(1) t(2) cs(2) gr_stage_def c_def [symmetric])
  define v where "v = u\<lparr>gr_output := concat (map ?g ?xs)\<rparr>"
  have s'v: "s' = v\<lparr>gr_tmp := copy_back (gr_output v) (gr_tmp v)\<rparr>"
  proof -
    have u': "foldl (\<lambda>s i. gr_core_step core s (ci ! (part * 5 + i))) t [0..<5] = u"
      by (simp only: u_def cs_def foldl_map)
    show ?thesis
      unfolding s' gr_part_def Let_def c_def [symmetric] step_def [symmetric] t_def [symmetric] u'
      by (simp add: out v_def)
  qed
  have pads: "length (map ?g ?xs) = 8" "\<forall>y \<in> set (map ?g ?xs). length y = 32" using xs(1) g by auto
  have tmp: "gr_tmp s' = concat (map gr_pad (map ?g ?xs))"
    using copy_back_slots [OF pads, of "gr_tmp u"] u(2) by (simp add: s'v v_def gr_ok_def)
  have p64: "\<forall>y \<in> set (map gr_pad (map ?g ?xs)). length y = 64" using g by (auto simp: gr_pad_def)
  have src: "gr_src s' = Tmp" "gr_size s' = 64" using u(6) [OF cs(1)] by (simp_all add: s'v v_def)
  have "gr_inputs s' = map gr_pad (map ?g ?xs)"
    by (rule gr_inputs_Tmp [OF src tmp _ p64]) (simp add: xs(1))
  moreover have "gr_ok s'"
    using length_slots [OF p64] length_slots [OF pads(2)] xs(1) u(2) src tmp by (simp add: gr_ok_def s'v v_def)
  moreover have "gr_output s' = concat (map ?g ?xs)" by (simp add: s'v v_def)
  ultimately show ?thesis by (simp add: stage del: map_map) (simp add: comp_def)
qed

lemma select_spec_seed:
  assumes "32 \<le> length d"
  shows "select_spec N d = select_spec N (take 32 d)"
proof -
  have "map (\<lambda>i. nibble d i mod N) [0..<64] = map (\<lambda>i. nibble (take 32 d) i mod N) [0..<64]"
    using assms by (intro map_cong refl) (simp add: nibble_def)
  then show ?thesis by (simp only: select_spec_def)
qed

lemma hash_octa_chain:
  assumes data: "length data = 8 * sz" "36 \<le> sz" and bufs: "length tmp = 512" "length out = 256" "length memory = 8"
    and seeds: "\<And>j. j < 8 \<Longrightarrow> take 32 (drop (j * sz + 4) data) = take 32 (drop 4 data)"
    and core: "\<And>i x. length (core i x) = 64" and cn: "cn_ok cn cn1 (memory ! 0)"
  shows "hash_octa core cn arm hasAES tmp data sz out memory =
    (concat (map (\<lambda>j. ghostrider_spec core cn1 (take sz (drop (j * sz) data))) [0..<8]), memory)"
proof -
  define av where "av = (if hasAES then av_hw_aes else av_soft_aes)"
  define ci where "ci = select_indices 15 (drop 4 data)"
  define ni where "ni = select_indices 6 (drop 4 data)"
  define s0 where "s0 = \<lparr>gr_src = Job_Data data, gr_size = sz, gr_tmp = tmp, gr_output = out, gr_memory = memory\<rparr>"
  have ctx: "map (\<lambda>i. memory ! i) [0..<8] = memory" using bufs(3) map_nth [of memory] by simp
  let ?p = "gr_part core cn av (gr_step arm) memory ci ni"
  define s1 where "s1 = ?p s0 0"
  define s2 where "s2 = ?p s1 1"
  define s3 where "s3 = ?p s2 2"
  have av: "av \<in> {av_hw_aes, av_soft_aes}" by (simp add: av_def)
  have ni6: "ni ! k < 6" if "k < 6" for k
    using select_spec_permutation(2,3) [of 6 "drop 4 data"] nth_mem [of k ni] that
    by (auto simp: ni_def select_indices_correct)
  let ?st = "gr_stage core cn1 ci ni"
  have s0: "gr_ok s0" "gr_inputs s0 = map (\<lambda>j. take sz (drop (j * sz) data)) [0..<8]"
    using bufs by (simp_all add: s0_def gr_ok_def gr_inputs_def gr_read_def)
  note p1 = gr_part_correct [OF s0(1) core cn ni6 av s1_def]
  note p2 = gr_part_correct [OF _ core cn ni6 av s2_def]
  note p3 = gr_part_correct [OF _ core cn ni6 av s3_def]
  have out: "gr_output s3 = concat (map (\<lambda>x. ?st 2 (gr_pad (?st 1 (gr_pad (?st 0 x))))) (gr_inputs s0))"
    using p1 p2 p3 by (simp add: comp_def)
  have "gr_ok s3" using p1 p2 p3 by simp
  then have mem: "length (gr_memory s3) = 8" by (simp add: gr_ok_def)
  have "[0..<3] = [0, 1, 2 :: nat]" by code_simp
  then have fin: "foldl ?p s0 [0..<3] = s3" by (simp add: s1_def s2_def s3_def)
  have restore: "foldl (\<lambda>m i. m[i := memory ! i]) (gr_memory s3) [0..<8] = memory"
  proof -
    have "map (\<lambda>i. if i < 8 then memory ! i else gr_memory s3 ! i) [0..<8] = map ((!) memory) [0..<8]"
      by (rule map_cong) simp_all
    then show ?thesis using foldl_list_update [of 8 "gr_memory s3" "\<lambda>i x. memory ! i"] mem ctx by simp
  qed
  have each: "?st 2 (gr_pad (?st 1 (gr_pad (?st 0 x)))) = ghostrider_spec core cn1 x"
    if "x = take sz (drop (j * sz) data)" "j < 8" for x j
  proof -
    have "j * sz + sz \<le> 8 * sz" using mult_right_mono [of "Suc j" 8 sz] that(2) by simp
    then have "take 32 (drop 4 x) = take 32 (drop 4 data)"
      using seeds [OF that(2)] data by (simp add: that(1) drop_take min_def add.commute)
    moreover have "32 \<le> length (drop 4 data)" using data by simp
    ultimately show ?thesis
      using select_spec_seed [of "drop 4 data"]
      by (simp add: ghostrider_spec_def Let_def ci_def ni_def select_indices_correct)
  qed
  have "hash_octa core cn arm hasAES tmp data sz out memory = (gr_output s3, memory)"
    unfolding hash_octa_def Let_def ctx av_def [symmetric] ci_def [symmetric] ni_def [symmetric] s0_def [symmetric] fin
    by (simp only: restore)
  moreover have "map (\<lambda>x. ?st 2 (gr_pad (?st 1 (gr_pad (?st 0 x))))) (gr_inputs s0) =
      map (\<lambda>j. ghostrider_spec core cn1 (take sz (drop (j * sz) data))) [0..<8]"
    unfolding s0(2) map_map comp_def by (rule map_cong [OF refl]) (rule each [OF refl], simp)
  ultimately show ?thesis by (simp only: out)
qed

lemma length_keccak_spec [simp]: "length (keccak_spec 72 64 m) = 64"
proof -
  have "length (fst (absorb_blocks 72 (kk_step 72) (replicate 25 0) p)) = 25" for p
    using absorb_blocks_inv [of "\<lambda>A. length A = 25" "replicate 25 0" 72 "kk_step 72" p] by simp
  then show ?thesis
    using length_slots [of "map (le_enc 8) (fst (absorb_blocks 72 (kk_step 72) (replicate 25 (0 :: u64)) p))" 8 for p]
    by (simp add: keccak_spec_def keccak_sponge_def)
qed

lemma length_cube_spec [simp]: "length (cube_spec cube_IV512 16 M) = 64"
proof -
  have x: "length (fst (absorb_blocks 32 cube_step cube_IV512 p)) = 32" for p
    using absorb_blocks_inv [of "\<lambda>A. length A = 32" cube_IV512 32 cube_step p] by simp
  have r: "length ((cube_round ^^ n) x) = 32" if "length x = 32" for n x
    using that by (induction n) simp_all
  show ?thesis
    using length_slots [of "map (le_enc 4) (take 16 x)" 4 for x :: cube_state]
    by (simp add: cube_spec_def Let_def x r)
qed

lemma length_bspec_512 [simp]: "length (bspec_hash comp64 8 s blake_IV512 8 M) = 64"
  using blk64.length_chain [OF blake_constants(6), of _ s]
    length_slots [of "map (\<lambda>x. rev (le_enc 8 x)) xs" 8 for xs :: "u64 list"]
  by (simp add: bspec_hash_def)

lemma length_skein_spec [simp]: "length (skein_spec 512 M) = 64"
proof -
  have "length (ubi 63 h (bits_of_bytes (replicate 8 0))) = 8" for h by (simp add: ubi_single)
  then show ?thesis
    using length_slots [of "map (le_enc 8) xs" 8 for xs :: "u64 list"] by (simp add: skein_spec_def Let_def)
qed

lemma length_whirlpool_spec [simp]: "length (whirlpool_spec S c m) = 64"
proof -
  have "rows (fst (absorb_blocks 64 (whirl_compress S c) (replicate 8 (replicate 8 0)) (whirl_pad m)))"
    by (rule absorb_blocks_inv) (simp add: rows_def, simp add: whirl_compress_def)
  then show ?thesis using length_slots [of "fst (absorb_blocks 64 (whirl_compress S c) (replicate 8 (replicate 8 0)) (whirl_pad m))" 8]
    by (simp add: rows_def whirlpool_spec_def)
qed

text \<open>The core hashes with the modelled ones replaced by their specifications.\<close>

definition core_spec :: "(nat \<Rightarrow> bytes \<Rightarrow> bytes) \<Rightarrow> nat \<Rightarrow> bytes \<Rightarrow> bytes" where
  "core_spec others i d =
     (if i = 0 then bspec_hash comp64 8 [0, 0, 0, 0] blake_IV512 8 (bits_of_bytes d)
      else if i = 4 then keccak_spec 72 64 d
      else if i = 5 then skein_spec 512 (bits_of_bytes d)
      else if i = 7 then cube_spec cube_IV512 16 (bits_of_bytes d)
      else if i = 14 then whirlpool_spec whirlpool_sbox plain_circ d
      else others i d)"

definition core_stack_ok :: "core_stack \<Rightarrow> bool" where
  "core_stack_ok st \<longleftrightarrow> length (sc_buf (st_blake st)) = 128 \<and> length (st_blake_tmp st) = 128
     \<and> length (sc_buf (st_keccak st)) = 144 \<and> length (st_keccak_tmp st) = 73
     \<and> length (sk_buf (st_skein st)) = 64 \<and> length (sc_buf (st_cubehash st)) = 32 \<and> length (md_buf (st_whirlpool st)) = 64"

lemma core_hash_correct:
  assumes "core_stack_ok st" and "length d + 1 < 2 ^ 64"
  shows "core_hash st others i d = core_spec others i d"
proof -
  have "h0 st d = bspec_hash comp64 8 [0, 0, 0, 0] blake_IV512 8 (bits_of_bytes d)"
    using blake64_digest [of "st_blake st" "st_blake_tmp st" blake_IV512 salt_zero_big 0 8 "[d]" 0] assms(1)
    by (simp add: h0_def core_stack_ok_def blake_entries blake_constants)
  moreover have "h4 st d = keccak_spec 72 64 d"
    using keccak_digest [of "st_keccak st" 0 72 "st_keccak_tmp st" 64 512 "[d]" 0] assms(1)
    by (simp add: h4_def core_stack_ok_def keccak_entries)
  moreover have "h5 st d = skein_spec 512 (bits_of_bytes d)"
  proof -
    have "length (sk_buf (st_skein st)) = 64" "length (concat [d]) + 1 < 2 ^ 64" using assms by (simp_all add: core_stack_ok_def)
    from skein_digest [OF this(1) length_skein_IVs(4) this(2) _ skein_IVs(4), of 0 64 0] show ?thesis
      unfolding h5_def skein_entries by simp
  qed
  moreover have "h7 st d = cube_spec cube_IV512 16 (bits_of_bytes d)"
    using cubehash_message [of "st_cubehash st" cube_IV512 0 16 "[d]" 0] assms(1)
    by (simp add: h7_def core_stack_ok_def cube_wrappers split_beta)
  moreover have "h14 st d = whirlpool_spec whirlpool_sbox plain_circ d"
    using whirlpool_digest [OF _ plain_ok, of "st_whirlpool st" "[d]"] assms
    by (simp add: h14_def core_stack_ok_def sph_whirlpool_close_def sph_whirlpool_def whirlpool_round_def)
  ultimately show ?thesis by (simp add: core_hash_def core_spec_def)
qed

text \<open>The chain calls the core hashes on the blocks of the job and on 64 bytes only.\<close>

lemma gr_core_step_cong:
  assumes "\<And>i x. length x \<le> B \<Longrightarrow> core i x = core' i x" and "gr_size s \<le> B"
  shows "gr_core_step core s i = gr_core_step core' s i"
proof -
  have "length (gr_read src tmp off (gr_size s)) \<le> B" for src tmp off using assms(2) by (simp add: gr_read_def)
  then show ?thesis using assms(1) by (simp add: gr_core_step_def core_pass_def)
qed

lemma gr_part_cong:
  assumes "\<And>i x. length x \<le> B \<Longrightarrow> core i x = core' i x" and "gr_size s \<le> B" and "64 \<le> B"
  shows "gr_part core cn av steps ctx ci ni s part = gr_part core' cn av steps ctx ci ni s part"
    and "gr_size (gr_part core cn av steps ctx ci ni s part) \<le> B"
proof -
  have step: "gr_size (gr_core_step core s i) \<le> B" for s i using assms(3) by (simp add: gr_core_step_def)
  have *: "foldl (\<lambda>s i. gr_core_step core s (f i)) s is = foldl (\<lambda>s i. gr_core_step core' s (f i)) s is
      \<and> gr_size (foldl (\<lambda>s i. gr_core_step core s (f i)) s is) \<le> B" if "gr_size s \<le> B" for s "is" f
    using that
  proof (induction "is" arbitrary: s)
    case (Cons i "is")
    note eq = gr_core_step_cong [of B core core' s "f i", OF assms(1) Cons.prems]
    show ?case by (simp only: foldl.simps flip: eq) (rule Cons.IH [OF step])
  qed simp
  note ** = * [of "s\<lparr>gr_memory := m\<rparr>" for m, simplified, OF assms(2)]
  show "gr_part core cn av steps ctx ci ni s part = gr_part core' cn av steps ctx ci ni s part"
    by (simp add: gr_part_def Let_def ** [THEN conjunct1] del: upt_rec_numeral)
  show "gr_size (gr_part core cn av steps ctx ci ni s part) \<le> B"
    using ** [THEN conjunct2] by (simp add: gr_part_def Let_def del: upt_rec_numeral)
qed

lemma hash_octa_cong:
  assumes "\<And>i x. length x \<le> max 64 sz \<Longrightarrow> core i x = core' i x"
  shows "hash_octa core cn arm hasAES tmp data sz out memory = hash_octa core' cn arm hasAES tmp data sz out memory"
proof -
  have "foldl (gr_part core cn av steps ctx ci ni) s ps = foldl (gr_part core' cn av steps ctx ci ni) s ps"
    if "gr_size s \<le> max 64 sz" for av steps ctx ci ni s ps
    using that
  proof (induction ps arbitrary: s)
    case (Cons p ps)
    then show ?case
      using gr_part_cong [of "max 64 sz" core core' s cn av steps ctx ci ni p, OF assms] by simp
  qed simp
  then show ?thesis by (simp add: hash_octa_def Let_def del: upt_rec_numeral)
qed

section \<open>Properties\<close>

text \<open>
  C39. \<^verbatim>\<open>select_indices\<close> returns every index below \<open>N\<close> exactly once: those that occur among the
  nibbles of the seed, taken modulo \<open>N\<close>, in the order of their first occurrence, then the others.
\<close>

theorem select_indices_permutation:
  assumes "0 < N"
  shows "select_indices N seed = select_spec N seed \<and> distinct (select_indices N seed)
    \<and> set (select_indices N seed) = {..<N} \<and> length (select_indices N seed) = N"
  using select_spec_permutation [OF assms] by (simp add: select_indices_correct [OF assms])

theorem select_indices_permutation_witness:
  "distinct (select_indices 15 (replicate 32 0x3A)) \<and> length (select_indices 15 (replicate 32 0x3A)) = 15"
  using select_indices_permutation [of 15 "replicate 32 0x3A", OF zero_less_numeral] by blast

text \<open>
  C5. GhostRider on eight nonces. Let the blocks of a job share the previous block hash, the core
  hashes write 64 bytes and the CryptoNight functions compute, in scratchpads that lie in the
  first context's 2 MiB and do not overlap, the same hashes as one at a time. Then for both
  platforms' step tables and both AES variants \<^verbatim>\<open>hash_octa\<close> writes for each block the GhostRider
  hash of that block alone (fifteen core hashes in the order the block's seed selects, with three
  CryptoNight hashes between them), whatever its stack held, and restores the contexts' memory.
  BLAKE-512, Keccak-512, Skein-512, CubeHash-512 and WHIRLPOOL among the core hashes are the
  modelled routines.
\<close>

theorem hash_octa_correct:
  assumes "length data = 8 * sz" and "36 \<le> sz" and "sz < 2 ^ 60"
    and "length tmp = 512" and "length out = 256" and "length memory = 8" and "core_stack_ok st"
    and "\<And>j. j < 8 \<Longrightarrow> take 32 (drop (j * sz + 4) data) = take 32 (drop 4 data)"
    and "\<And>i x. length (others i x) = 64" and "cn_ok cn cn1 (memory ! 0)"
  shows "hash_octa (core_hash st others) cn arm hasAES tmp data sz out memory =
    (concat (map (\<lambda>j. ghostrider_spec (core_spec others) cn1 (take sz (drop (j * sz) data))) [0..<8]), memory)"
proof -
  have "length (core_spec others i x) = 64" for i x using assms(9) by (simp add: core_spec_def)
  note chain = hash_octa_chain [OF assms(1,2,4-6,8) this assms(10)]
  have "core_hash st others i x = core_spec others i x" if "length x \<le> max 64 sz" for i x
    using core_hash_correct [OF assms(7), of x] that assms(3) by simp
  from hash_octa_cong [OF this] chain show ?thesis by simp
qed

definition sample_cn :: "u32 \<Rightarrow> bytes \<Rightarrow> bytes" where
  "sample_cn c y = ucast c # take 31 (y @ replicate 31 0)"

definition sample_ways :: "u32 \<Rightarrow> cn_variant \<Rightarrow> nat list \<Rightarrow> bytes \<Rightarrow> bytes" where
  "sample_ways c v mem d = concat (map (\<lambda>j. sample_cn c (take 64 (drop (64 * j) d))) [0..<ways v])"

lemma sample_cn_ok: "cn_ok sample_ways sample_cn buf"
proof -
  have m: "map (\<lambda>j. sample_cn c (take 64 (drop (64 * j) (concat ys)))) [0..<length ys] = map (sample_cn c) ys"
    if "\<forall>y \<in> set ys. length y = 64" for c ys
    using slot_concat [OF that] by (intro nth_equalityI) simp_all
  have "length (sample_cn c y) = 32" for c y by (simp add: sample_cn_def)
  then show ?thesis by (auto simp: cn_ok_def sample_ways_def m [symmetric])
qed

definition sample_stack :: core_stack where
  "sample_stack =
     \<lparr>st_blake = \<lparr>sc_buf = replicate 128 1, sc_ptr = 3, sc_state = \<lparr>bk_H = [], bk_S = [], bk_T0 = 1, bk_T1 = 2\<rparr>\<rparr>,
      st_blake_tmp = replicate 128 2,
      st_keccak = \<lparr>sc_buf = replicate 144 1, sc_ptr = 3, sc_state = [], kc_lim = 0\<rparr>,
      st_keccak_tmp = replicate 73 7,
      st_skein = \<lparr>sk_buf = replicate 64 9, sk_ptr = 5, sk_h = [], sk_bcount = 7\<rparr>,
      st_cubehash = \<lparr>sc_buf = replicate 32 1, sc_ptr = 9, sc_state = []\<rparr>,
      st_whirlpool = \<lparr>md_buf = replicate 64 9, md_val = [], md_count = 5\<rparr>\<rparr>"

theorem hash_octa_correct_witness:
  "snd (hash_octa (core_hash sample_stack (\<lambda>i d. replicate 64 (of_nat i)))
      sample_ways False True (replicate 512 0) (replicate 640 5) 80 (replicate 256 0) (replicate 8 4096)) = replicate 8 4096"
  using hash_octa_correct [of "replicate 640 5" 80 "replicate 512 0" "replicate 256 0" "replicate 8 4096"
      sample_stack
      "\<lambda>i d. replicate 64 (of_nat i)" sample_ways sample_cn False True]
  by (simp add: core_stack_ok_def sample_stack_def sample_cn_ok)

end
