(* ===== verification/Spec2Isabelle.thy ===== *)
theory Spec2Isabelle
  imports Pbkdf2 Blake2b Job_Boundary Cycle_Search Sph_Sha2 Cpu_Scheduling Gpu_Capacity Reciprocal Blake256
    Hoohash_Blake3 GhostRider
begin

text \<open>
  MO-Miner is a miner for CPU and GPU proof-of-work algorithms. A JavaScript front end
  (\<^verbatim>\<open>mom.js\<close>, \<^verbatim>\<open>miner/\<close>, \<^verbatim>\<open>pool/\<close>) talks to pools and passes jobs to a native addon
  (\<^verbatim>\<open>native/\<close>), which parses them, deals nonces out to workers and runs CPU hashes from
  \<^verbatim>\<open>xmrig/crypto/\<close> or GPU kernels from \<^verbatim>\<open>sycl/\<close>. This development models the C code and the pure
  header functions whose results decide whether a share is valid: the hashes, the nonce space,
  the host-side searches and checks of GPU results, and the arithmetic that sizes batches and
  buffers.

  \<^bold>\<open>Shared theories.\<close> \<open>MoM_Prelude\<close> has the byte and word types, buffers as lists with
  \<open>memcpy_at\<close>, block-wise absorption of input in its eager and lazy form, and byte order codecs.
  \<open>Stream_Hash\<close> is the interface of an incremental hash as a locale: a view of the context on
  which updates act like concatenation. SHA-256, HMAC and BLAKE2b interpret it, and their
  properties rest on its lemmas. \<open>Blake_Mix\<close> has the quarter round that BLAKE-256 and BLAKE3 share.
  \<open>Bit_Strings\<close> reads bytes as bit strings and has the byte that the sphlib closing routines append for
  extra bits; \<open>Sph_Buffer\<close> has the context and the input loop that CubeHash, Keccak and BLAKE share, with
  the locale \<open>sph_hash\<close> for their streaming.

  \<^bold>\<open>Hashes.\<close> \<open>Sha256\<close> and \<open>Pbkdf2\<close> model \<^verbatim>\<open>xmrig/crypto/randomx/panthera/sha256.c\<close>: the unrolled
  compression against FIPS 180-4, the streaming interface with its padding, HMAC and both paths
  of PBKDF2 against the RFCs. \<open>Blake2b\<close> models \<^verbatim>\<open>xmrig/crypto/randomx/blake2/\<close> with the error codes of
  every entry point and Argon2's long hash. \<open>Sph_Types\<close> models the word access primitives of
  \<^verbatim>\<open>xmrig/crypto/ghostrider/sph_types.h\<close> as functions of the platform symbols, with the detection of the
  platform, and shows that all builds read and write the same bytes. \<open>Md_Helper\<close> models the
  Merkle-Damgard frame \<^verbatim>\<open>md_helper.c\<close>, which each hash includes with its own macros, as functions of
  these macros and of the round function; the locale \<open>md_hash\<close> holds what the frame promises for
  any round function, and \<open>Sph_Sha2\<close> (\<^verbatim>\<open>sph_sha2.c\<close>) interprets it for SHA-224 and SHA-256.
  Of the other hashes of \<^verbatim>\<open>xmrig/crypto/ghostrider/\<close>, \<open>Cubehash\<close> models \<^verbatim>\<open>sph_cubehash.c\<close>, \<open>Keccak\<close> \<^verbatim>\<open>sph_keccak.c\<close>
  with its complemented lanes and permuted variables, \<open>Whirlpool_Tables\<close> and \<open>Whirlpool\<close> \<^verbatim>\<open>sph_whirlpool.c\<close>
  with all tables derived from S-box and diffusion matrix, \<open>Sph_Blake\<close> \<^verbatim>\<open>sph_blake.c\<close> (the locale
  \<open>blake_variant\<close> holds what its padding and counters need of a word size and is interpreted for both),
  and \<open>Sph_Skein\<close> \<^verbatim>\<open>sph_skein.c\<close>. Each is shown to write the specified digest of the concatenated
  input, for every way to cut it and, where the code takes them, up to seven further bits.
  \<open>Blake256\<close> models \<^verbatim>\<open>xmrig/crypto/cn/c_blake256.c\<close>: one-shot hashes and HMAC meet their
  specifications, and an update is characterised on all lengths, including those on which it
  does not append. \<open>Hoohash_Blake3\<close> models the integer part of \<^verbatim>\<open>sycl/hoohash/host_math.c\<close> and shows its
  BLAKE3 correct for one chunk. This theory shows that the BLAKE implementations of CryptoNight and
  GhostRider agree. \<open>Reciprocal\<close> models \<^verbatim>\<open>xmrig/crypto/randomx/reciprocal.c\<close>.

  \<^bold>\<open>GhostRider.\<close> \<open>GhostRider\<close> models \<^verbatim>\<open>ghostrider.cpp\<close> in the build without hwloc: the order of the
  algorithms from the nibbles of the previous block hash, the placement of the scratchpads and \<^verbatim>\<open>hash_octa\<close> with
  its in-place buffer. Five of the fifteen core hashes (BLAKE, Keccak, Skein, CubeHash, WHIRLPOOL) are the
  modelled routines; the other ten and the CryptoNight functions are arguments, of which the theorem
  assumes the output lengths and that a CryptoNight function for several inputs computes what it does
  for one, in scratchpads that do not overlap (\<open>cn_ok\<close>); that the scratchpads do not overlap is proved.

  \<^bold>\<open>Jobs and nonces.\<close> \<open>Job_Boundary\<close> models \<^verbatim>\<open>native/job-boundary.h\<close> and the nonce step of
  \<^verbatim>\<open>native/core/execution.inc\<close>: number parsing, the shape and layout checks, and the arithmetic by
  which workers advance. Workers never leave the nonce space nor touch protected bits, and
  PearlHash workers partition the seeds.

  \<^bold>\<open>Search and capacity.\<close> \<open>Cycle_Search\<close> models \<^verbatim>\<open>sycl/c29/cycle.h\<close>: every cycle it reports is a
  simple cycle of the graph with the wanted number of distinct edges. \<open>Cpu_Scheduling\<close> models
  \<^verbatim>\<open>native/cpu-scheduling.h\<close> and \<^verbatim>\<open>native/hashrate-sampling.h\<close>; \<open>Gpu_Capacity\<close> models
  \<^verbatim>\<open>sycl/pow-intensity.h\<close>, \<^verbatim>\<open>sycl/workgroup-limits.h\<close>, \<^verbatim>\<open>sycl/cn_gpu/\<close>, \<^verbatim>\<open>sycl/pearlhash/\<close> and \<^verbatim>\<open>sycl/kawpow/epoch.h\<close>:
  batches fit caches and device memory although all arithmetic wraps.

  \<^bold>\<open>Conventions.\<close> A context is a record; a routine that writes through a pointer returns the new
  context, and one that returns an error code returns it in a sum, an option or a pair. Memory that
  C leaves uninitialised is an argument. Integers keep their width wherever they can wrap; a C
  \<^verbatim>\<open>int\<close> whose range is an invariant is a natural number and the invariant is proved. Loops are
  recursive functions with termination proofs. Two loops of the sources may run forever: the
  iteration of PBKDF2 and the thread loop of the scheduler are partial functions into options,
  and the theorems about them prove that they return.

  \<^bold>\<open>Not modelled.\<close> The JavaScript front end, the N-API addon and its threads, SYCL kernels, the RandomX
  and CryptoNight cores (intrinsics, just-in-time compilers, floating point), the floating-point
  part of hoohash and cn/gpu, vendored libraries and operating system services. Inline assembly
  variants of the word primitives are left out; the portable ones are modelled. Of the sphlib hashes the
  64-bit builds with unrolled rounds are modelled, not the ones for 32-bit machines or small footprint
  (but the one-table round of WHIRLPOOL), nor the code that is compiled out. The hwloc build of
  GhostRider with its helper threads and benchmark is left out.

  \<^bold>\<open>Plan.\<close> What remains within reach are the sphlib hashes BMW, Groestl, JH, Luffa, SHAvite, SIMD, ECHO,
  Hamsi, Fugue and Shabal, which would replace the arguments of \<open>GhostRider\<close>, the other final hashes of
  CryptoNight, and the device state registry of the native module.
\<close>

section \<open>The two implementations of BLAKE\<close>

lemma bspec_g_blake: "bspec_g (16, 12, 8, 7) x y v = blake_g v x y"
  by (cases v) (simp add: bspec_g_def blake_g.simps)

lemma bspec_at_mix:
  assumes "distinct [a, b, c, d]" and "a < length v" "b < length v" "c < length v" "d < length v"
  shows "bspec_at (16, 12, 8, 7) v [a, b, c, d] (x, y) = blake_mix v a b c d x y"
proof -
  obtain a' b' c' d' where g: "blake_g (v ! a, v ! b, v ! c, v ! d) x y = (a', b', c', d')" by (rule prod_cases4)
  from blake_mix_g [OF assms g] g show ?thesis by (simp add: bspec_at_def bspec_g_blake Let_def)
qed

lemma length_blake_mix: "length (blake_mix v a b c d x y) = length v"
  by (simp add: blake_mix_def Let_def)

lemma bspec_round_blake:
  assumes "length v = 16"
  shows "bspec_round (16, 12, 8, 7) (map (\<lambda>k. (xs ! (2 * k), xs ! (2 * k + 1))) [0, 1, 2, 3, 4, 5, 6, 7]) v = blake_round xs v"
  unfolding blake_mixes_round(1) [OF assms, symmetric] Let_def
  by (simp add: bspec_round_def bspec_at_mix length_blake_mix assms)

lemma bspec_words_blake:
  "bspec_words blake_CS r m = map (\<lambda>k. (blake_words r m ! (2 * k), blake_words r m ! (2 * k + 1))) [0, 1, 2, 3, 4, 5, 6, 7]"
proof -
  have "take 10 sigma = blake_Z" by code_simp
  then have "blake_perm r = blake_Z ! (r mod 10)" using nth_take [of "r mod 10" 10 sigma] by (simp add: blake_perm_def)
  moreover have "cst = blake_CS" by (simp add: cst_def blake_CS_def)
  ultimately show ?thesis by (simp add: bspec_words_def blake_words_def Let_def upt_0_8 del: upt_Suc upt_rec_numeral)
qed

lemma bspec_round_words:
  "length v = 16 \<Longrightarrow> bspec_round (16, 12, 8, 7) (bspec_words blake_CS r m) v = blake_round (blake_words r m) v"
  unfolding bspec_words_blake by (rule bspec_round_blake)

lemma comp32_blake:
  assumes "length h = 8" and "length s = 4"
  shows "comp32 h s b t0 t1 = blake_compression h s b t0 t1"
proof -
  have cst: "cst = blake_CS" by (simp add: cst_def blake_CS_def)
  have "foldl (\<lambda>v r. bspec_round (16, 12, 8, 7) (bspec_words blake_CS r m) v) v rs = foldl (\<lambda>v r. blake_round (blake_words r m) v) v rs"
    if "length v = 16" for v rs m
    using that by (induction rs arbitrary: v) (simp_all add: bspec_round_words)
  moreover have "length (h @ map2 (XOR) s (take 4 blake_CS) @ map2 (XOR) [t0, t0, t1, t1] (take 4 (drop 4 blake_CS))) = 16"
    using assms by (simp add: blake_CS_def)
  ultimately show ?thesis unfolding comp32_def bspec_compress_def blake_compression_def Let_def cst by simp
qed

text \<open>Padding and chaining of a message of whole bytes.\<close>

lemma blake_padding_bytes:
  "bytes_of_bits (bspec_pad 4 full (bits_of_bytes m)) = blake_padded (of_bool full) m"
proof -
  define l where "l = length m mod 64"
  have l: "l < 64" "(length m + 8) mod 64 = (l + 8) mod 64" by (simp_all add: l_def mod_simps)
  have pad: "sph_pad_byte 0 0 = 0x80" by code_simp
  have len: "bspec_length 4 L = rev (le_enc 8 (of_nat L :: u64))" for L
  proof -
    have "ucast (of_nat L :: u64) = (of_nat L :: u32)" "ucast (drop_bit 32 (of_nat L :: u64)) = (of_nat (L div 2 ^ 32) :: u32)"
      by (intro bit_word_eqI; simp add: bit_simps flip: drop_bit_eq_div [of 32, simplified])+
    then show ?thesis using blk32.length_field [of L] le_enc_halves [of "of_nat L"] by simp
  qed
  have fill: "(if 8 * l + 0 \<le> 112 * 4 - 2 then close_fill 4 0x80 (of_bool full) l
      else 0x80 # replicate (16 * 4 - 1 - l) 0 @ replicate (14 * 4 - 1) 0 @ [of_bool full]) = blake_filler (of_bool full) (length m)"
  proof (cases "l \<le> 55")
    case True
    then have "64 - (length m + 8) mod 64 = 56 - l" unfolding l(2) by simp
    then show ?thesis using True by (auto simp: close_fill_def blake_filler_def Let_def)
  next
    case False
    then have "(l + 8) mod 64 = l - 56" using l(1) by (simp add: mod_if)
    then have "64 - (length m + 8) mod 64 = 120 - l" unfolding l(2) using l(1) False by simp
    moreover have "replicate (118 - l) (0 :: byte) = replicate (63 - l) 0 @ replicate 55 0"
      using l(1) False by (simp flip: replicate_add)
    ultimately show ?thesis using False l(1) by (simp add: blake_filler_def Let_def)
  qed
  show ?thesis
    using bspec_pad_bytes [of 0 4 l m full 0] fill unfolding pad l_def [symmetric] by (simp add: l_def len blake_padded_def)
qed

lemma length_blake_padded: "length (blake_padded b m) mod 64 = 0"
proof -
  have "length (blake_filler b (length m)) = 64 - (length m + 8) mod 64" 
    using mod_less_divisor [of 64 "length m + 8"] by (simp add: blake_filler_def Let_def) linarith
  then have "length (blake_padded b m) = (length m + 8) + (64 - (length m + 8) mod 64)" by (simp add: blake_padded_def)
  also have "\<dots> mod 64 = 0"
    by (metis add_diff_cancel_left' le_add_diff_inverse less_imp_le mod_add_left_eq mod_less_divisor mod_self zero_less_numeral)
  finally show ?thesis .
qed

lemma blake_chain_absorb:
  assumes "length iv = 8" and "64 * n \<le> length p"
  shows "absorb_blocks 64 (bspec_chain comp32 (bspec_counter 4 (8 * L)) [0, 0, 0, 0]) (iv, 0) (take (64 * n) p) = ((blake_chain iv L p n, n), [])"
  using assms(2)
proof (induction n)
  case 0
  then show ?case by (simp add: blake_chain_def)
next
  case (Suc n)
  let ?F = "bspec_chain comp32 (bspec_counter 4 (8 * L)) [0, 0, 0, 0]" and ?b = "take 64 (drop (64 * n) p)"
  have "bspec_counter 4 (8 * L) n = blake_counter L n" by (auto simp: bspec_counter_def blake_counter_def min_def)
  then have "?F (blake_chain iv L p n, n) ?b = (blake_chain iv L p (Suc n), Suc n)"
    using comp32_blake [OF length_blake_chain [OF assms(1)]]
    by (simp add: bspec_chain_def blake_chain_Suc counter_lo_def counter_hi_def)
  moreover have "take (64 * Suc n) p = take (64 * n) p @ ?b" by (simp only: mult_Suc_right add.commute [of 64] take_add)
  ultimately show ?case
    using absorb_blocks_last [of 64 ?F "(iv, 0)" "take (64 * n) p" "(blake_chain iv L p n, n)" "[]" ?b] Suc by simp
qed

lemma bspec_blake_spec:
  assumes "length iv = 8"
  shows "bspec_hash comp32 4 [0, 0, 0, 0] iv k (bits_of_bytes m) =
    concat (map (\<lambda>w. rev (le_enc 4 w)) (take k (blake_chain iv (length m) (blake_padded (of_bool (k = 8)) m)
      (length (blake_padded (of_bool (k = 8)) m) div 64))))"
proof -
  let ?p = "blake_padded (of_bool (k = 8)) m" and ?n = "length (blake_padded (of_bool (k = 8)) m) div 64"
  have "64 * ?n = length ?p" using mult_div_mod_eq [of 64 "length ?p"] by (simp add: length_blake_padded)
  then show ?thesis
    using blake_chain_absorb [OF assms, of ?n ?p "length m"] by (simp add: bspec_hash_def blake_padding_bytes)
qed

lemma blake_256_224:
  "bspec_hash comp32 4 [0, 0, 0, 0] blake_IV256 8 (bits_of_bytes m) = BLAKE256 m"
  "bspec_hash comp32 4 [0, 0, 0, 0] blake_IV224 7 (bits_of_bytes m) = BLAKE224 m"
proof -
  have iv: "IV256 = blake_IV256" "IV224 = blake_IV224"
    by (simp_all add: IV256_def IV224_def blake_IV256_def blake_IV224_def)
  show "bspec_hash comp32 4 [0, 0, 0, 0] blake_IV256 8 (bits_of_bytes m) = BLAKE256 m"
    by (simp add: bspec_blake_spec blake_constants BLAKE256_def blake_spec_def Let_def iv length_blake_chain)
  have t: "take 28 (concat (map (\<lambda>w. rev (le_enc 4 w)) xs)) = concat (map (\<lambda>w. rev (le_enc 4 w)) (take 7 xs))" if "length xs = 8" for xs :: "u32 list"
    using that by (elim list8_cases) simp
  show "bspec_hash comp32 4 [0, 0, 0, 0] blake_IV224 7 (bits_of_bytes m) = BLAKE224 m"
    by (simp add: bspec_blake_spec blake_constants BLAKE224_def blake_spec_def Let_def iv length_blake_chain t)
qed

section \<open>Properties\<close>

text \<open>
  C35. The two implementations of BLAKE in the repository agree: the one-shot BLAKE-256 and BLAKE-224 of
  CryptoNight and the streaming ones of GhostRider write the same digest of a message, for every way
  to cut it, although they count, pad and close differently. The BLAKE-224 routine of
  CryptoNight writes four bytes more than the digest.
\<close>

theorem blake_implementations_agree:
  assumes "length (bs_buf S) = 64" and "length (sc_buf small) = 64" and "length u = 64" and "8 * length (concat chunks) < 2 ^ 64"
  shows "blake256_hash S (concat chunks) = fst (sph_blake256_close (foldl sph_blake256 (sph_blake256_init small) chunks) u)
    \<and> take 28 (blake224_hash S (concat chunks)) = fst (sph_blake224_close (foldl sph_blake224 (sph_blake224_init small) chunks) u)"
  using blake256_hash_spec [OF assms(1,4)] blake32_digest [OF assms(2,3), of _ _ 0, where ub = 0]
  by (simp add: blake_entries blake_constants blake_256_224 BLAKE256_def BLAKE224_def)

theorem blake_implementations_agree_witness:
  "blake256_hash \<lparr>bs_h = [], bs_s = [], bs_t0 = 7, bs_t1 = 7, bs_buflen = 9, bs_nullt = True, bs_buf = replicate 64 1\<rparr> [1, 2, 3] =
     fst (sph_blake256_close (foldl sph_blake256
       (sph_blake256_init \<lparr>sc_buf = replicate 64 9, sc_ptr = 5, sc_state = \<lparr>bk_H = [], bk_S = [], bk_T0 = 1, bk_T1 = 2\<rparr>\<rparr>) [[1], [2, 3]])
       (replicate 64 7))"
  using blake_implementations_agree [of "\<lparr>bs_h = [], bs_s = [], bs_t0 = 7, bs_t1 = 7, bs_buflen = 9, bs_nullt = True, bs_buf = replicate 64 1\<rparr>"
      "\<lparr>sc_buf = replicate 64 9, sc_ptr = 5, sc_state = \<lparr>bk_H = [], bk_S = [], bk_T0 = 1, bk_T1 = 2\<rparr>\<rparr>" "replicate 64 7" "[[1], [2, 3]]"]
  by simp

end
